(* ===== verification/GoPrelude.thy ===== *)
theory GoPrelude
  imports Main "HOL-Library.Word" "HOL-Library.Char_ord" "HOL-Library.List_Lexorder"
    "HOL-Library.Sublist"
begin

text \<open>
  What every component of the model shares: the outcome of a Go call that may fail or
  panic, Go strings as byte lists (\<open>string\<close>, compared byte by byte through the library's
  \<open>Char_ord\<close> and \<open>List_Lexorder\<close> instances, exactly as Go compares strings), and the
  functions of the \<open>strings\<close> and \<open>strconv\<close> packages that the modelled code calls.
  White space is the whole of \<open>unicode.IsSpace\<close> on UTF-8 bytes. Case mapping and case
  folding treat the ASCII letters and the two non-ASCII runes that fold to ASCII ones
  (U+017F and U+212A); other bytes are left alone.
\<close>

named_theorems go_defs \<open>definitions of the Go library functions\<close>

section \<open>Outcomes\<close>

text \<open>A Go call returns a value, returns an error, or panics.\<close>

datatype ('e, 'a) outcome = Done 'a | Fail 'e | Crash

fun obind :: "('e, 'a) outcome \<Rightarrow> ('a \<Rightarrow> ('e, 'b) outcome) \<Rightarrow> ('e, 'b) outcome" where
  "obind (Done a) f = f a"
| "obind (Fail e) f = Fail e"
| "obind Crash f = Crash"

fun omap :: "('a \<Rightarrow> 'b) \<Rightarrow> ('e, 'a) outcome \<Rightarrow> ('e, 'b) outcome" where
  "omap f (Done a) = Done (f a)"
| "omap f (Fail e) = Fail e"
| "omap f Crash = Crash"

lemma obind_cong [fundef_cong]:
  "m = m' \<Longrightarrow> (\<And>a. m' = Done a \<Longrightarrow> f a = g a) \<Longrightarrow> obind m f = obind m' g"
  by (cases m') auto

lemma obind_Crash_iff [simp]: "obind m f = Crash \<longleftrightarrow> m = Crash \<or> (\<exists>a. m = Done a \<and> f a = Crash)"
  by (cases m) auto

lemma obind_Fail_iff [simp]: "obind m f = Fail e \<longleftrightarrow> m = Fail e \<or> (\<exists>a. m = Done a \<and> f a = Fail e)"
  by (cases m) auto

lemma obind_Done_iff [simp]:
  "obind m f = Done b \<longleftrightarrow> (\<exists>a. m = Done a \<and> f a = Done b)"
  by (cases m) auto

lemma omap_Done_iff [simp]: "omap f m = Done b \<longleftrightarrow> (\<exists>a. m = Done a \<and> b = f a)"
  by (cases m) auto

lemma omap_Crash_iff [simp]: "omap f m = Crash \<longleftrightarrow> m = Crash"
  by (cases m) auto

text \<open>The first error of a list of checks, in order; None when all pass.\<close>

fun first_error :: "'e option list \<Rightarrow> 'e option" where
  "first_error [] = None"
| "first_error (Some e # es) = Some e"
| "first_error (None # es) = first_error es"

lemma first_error_None [simp]: "first_error es = None \<longleftrightarrow> (\<forall>e \<in> set es. e = None)"
  by (induction es rule: first_error.induct) auto

section \<open>White space\<close>

definition ascii_space :: "char \<Rightarrow> bool" where
  "ascii_space c \<longleftrightarrow> c \<in> {CHR 0x09, CHR 0x0A, CHR 0x0B, CHR 0x0C, CHR 0x0D, CHR 0x20}"

definition wide_space :: "char \<Rightarrow> char \<Rightarrow> char \<Rightarrow> bool" where
  "wide_space c d e \<longleftrightarrow>
     c = CHR 0xE1 \<and> d = CHR 0x9A \<and> e = CHR 0x80 \<or>
     c = CHR 0xE2 \<and> d = CHR 0x80 \<and> (of_char e \<in> {0x80..0x8A :: nat} \<or> e \<in> {CHR 0xA8, CHR 0xA9, CHR 0xAF}) \<or>
     c = CHR 0xE2 \<and> d = CHR 0x81 \<and> e = CHR 0x9F \<or>
     c = CHR 0xE3 \<and> d = CHR 0x80 \<and> e = CHR 0x80"

text \<open>The number of bytes of the white space rune a string starts with; 0 if none does.\<close>

fun lead_space :: "string \<Rightarrow> nat" where
  "lead_space [] = 0"
| "lead_space (c # r) =
     (if ascii_space c then 1
      else case r of
        [] \<Rightarrow> 0
      | d # r2 \<Rightarrow>
          if c = CHR 0xC2 \<and> d \<in> {CHR 0x85, CHR 0xA0} then 2
          else (case r2 of [] \<Rightarrow> 0 | e # _ \<Rightarrow> if wide_space c d e then 3 else 0))"

text \<open>The same for a reversed string: the white space rune the string ends with.\<close>

fun tail_space :: "string \<Rightarrow> nat" where
  "tail_space [] = 0"
| "tail_space (e # r) =
     (if ascii_space e then 1
      else case r of
        [] \<Rightarrow> 0
      | d # r2 \<Rightarrow>
          if d = CHR 0xC2 \<and> e \<in> {CHR 0x85, CHR 0xA0} then 2
          else (case r2 of [] \<Rightarrow> 0 | c # _ \<Rightarrow> if wide_space c d e then 3 else 0))"

lemma lead_space_le: "lead_space s \<le> length s"
  by (cases s) (auto split: list.splits)

lemma tail_space_le: "tail_space s \<le> length s"
  by (cases s) (auto split: list.splits)

lemma drop_lead_space_less: "lead_space s \<noteq> 0 \<Longrightarrow> length (drop (lead_space s) s) < length s"
  using lead_space_le [of s] by auto

lemma drop_tail_space_less: "tail_space s \<noteq> 0 \<Longrightarrow> length (drop (tail_space s) s) < length s"
  using tail_space_le [of s] by auto

function trim_left :: "string \<Rightarrow> string" where
  "trim_left s = (if lead_space s = 0 then s else trim_left (drop (lead_space s) s))"
  by pat_completeness auto
termination
  by (relation "measure length") (use drop_lead_space_less in auto)

function trim_tail :: "string \<Rightarrow> string" where
  "trim_tail s = (if tail_space s = 0 then s else trim_tail (drop (tail_space s) s))"
  by pat_completeness auto
termination
  by (relation "measure length") (use drop_tail_space_less in auto)

declare trim_left.simps [simp del] trim_tail.simps [simp del]

definition trim_space :: "string \<Rightarrow> string" where
  "trim_space s = rev (trim_tail (rev (trim_left s)))"

lemma lead_space_trim_left [simp]: "lead_space (trim_left s) = 0"
proof (induction s rule: trim_left.induct)
  case (1 s)
  then show ?case by (cases "lead_space s = 0") (simp_all add: trim_left.simps [of s])
qed

lemma tail_space_trim_tail [simp]: "tail_space (trim_tail s) = 0"
proof (induction s rule: trim_tail.induct)
  case (1 s)
  then show ?case by (cases "tail_space s = 0") (simp_all add: trim_tail.simps [of s])
qed

lemma trim_space_Nil [simp]: "trim_space [] = []"
  by (simp add: trim_space_def trim_left.simps trim_tail.simps)

section \<open>Splitting\<close>

text \<open>\<open>strings.Split\<close> with a one-byte separator; \<open>strings.Cut\<close>; \<open>strings.Fields\<close>.\<close>

fun split_on :: "char \<Rightarrow> string \<Rightarrow> string list" where
  "split_on c [] = [[]]"
| "split_on c (x # xs) =
     (if x = c then [] # split_on c xs
      else case split_on c xs of [] \<Rightarrow> [[x]] | y # ys \<Rightarrow> (x # y) # ys)"

lemma split_on_nonempty [simp]: "split_on c s \<noteq> []"
  by (induction s) (auto split: list.splits)

lemma split_on_parts: "p \<in> set (split_on c s) \<Longrightarrow> c \<notin> set p"
proof (induction s arbitrary: p)
  case (Cons x xs)
  then show ?case
    by (cases "split_on c xs") (auto split: if_splits)
qed simp

lemma concat_split_on:
  "concat (map (\<lambda>p. c # p) (split_on c s)) = c # s"
proof (induction s)
  case (Cons x xs)
  then show ?case by (cases "split_on c xs") auto
qed simp

fun cut_at :: "char \<Rightarrow> string \<Rightarrow> string \<times> string \<times> bool" where
  "cut_at c [] = ([], [], False)"
| "cut_at c (x # xs) =
     (if x = c then ([], xs, True) else case cut_at c xs of (a, b, f) \<Rightarrow> (x # a, b, f))"

function fields_from :: "string \<Rightarrow> string \<Rightarrow> string list" where
  "fields_from cur s =
     (case s of
        [] \<Rightarrow> (if cur = [] then [] else [rev cur])
      | x # r \<Rightarrow>
          if lead_space s = 0 then fields_from (x # cur) r
          else (if cur = [] then [] else [rev cur]) @ fields_from [] (drop (lead_space s) s))"
  by pat_completeness auto
termination
  by (relation "measure (\<lambda>(cur, s). length s)") auto

declare fields_from.simps [simp del]

definition go_fields :: "string \<Rightarrow> string list" where
  "go_fields s = fields_from [] s"

section \<open>Case\<close>

definition lower_char :: "char \<Rightarrow> char" where
  "lower_char c = (let n = of_char c :: nat in if 65 \<le> n \<and> n \<le> 90 then char_of (n + 32) else c)"

definition upper_char :: "char \<Rightarrow> char" where
  "upper_char c = (let n = of_char c :: nat in if 97 \<le> n \<and> n \<le> 122 then char_of (n - 32) else c)"

definition to_lower :: "string \<Rightarrow> string" where
  "to_lower s = map lower_char s"

definition to_upper :: "string \<Rightarrow> string" where
  "to_upper s = map upper_char s"

fun fold_case :: "string \<Rightarrow> string" where
  "fold_case [] = []"
| "fold_case (c # r) =
     (case r of
        d # r2 \<Rightarrow>
          if c = CHR 0xC5 \<and> d = CHR 0xBF then CHR ''s'' # fold_case r2
          else (case r2 of
              e # r3 \<Rightarrow>
                if c = CHR 0xE2 \<and> d = CHR 0x84 \<and> e = CHR 0xAA then CHR ''k'' # fold_case r3
                else lower_char c # fold_case r
            | [] \<Rightarrow> lower_char c # fold_case r)
      | [] \<Rightarrow> [lower_char c])"

definition equal_fold :: "string \<Rightarrow> string \<Rightarrow> bool" where
  "equal_fold s t \<longleftrightarrow> fold_case s = fold_case t"

section \<open>Numbers\<close>

definition is_digit :: "char \<Rightarrow> bool" where
  "is_digit c \<longleftrightarrow> 48 \<le> (of_char c :: nat) \<and> (of_char c :: nat) \<le> 57"

fun digits_value :: "nat \<Rightarrow> string \<Rightarrow> nat option" where
  "digits_value n [] = Some n"
| "digits_value n (c # r) =
     (if is_digit c then digits_value (10 * n + (of_char c - 48)) r else None)"

text \<open>
  \<open>strconv.Atoi\<close> and \<open>strconv.ParseInt(s, 10, 64)\<close>: an optional sign, at least one
  decimal digit, and a value that fits a signed 64-bit integer.
\<close>

definition atoi :: "string \<Rightarrow> int option" where
  "atoi s =
     (let (neg, ds) = (case s of
          c # r \<Rightarrow> if c = CHR ''-'' then (True, r) else if c = CHR ''+'' then (False, r) else (False, s)
        | [] \<Rightarrow> (False, []))
      in if ds = [] then None
         else case digits_value 0 ds of
             None \<Rightarrow> None
           | Some n \<Rightarrow>
               if neg then (if n \<le> 2 ^ 63 then Some (- int n) else None)
               else (if n < 2 ^ 63 then Some (int n) else None))"

fun show_nat :: "nat \<Rightarrow> string" where
  "show_nat n = (if n < 10 then [char_of (48 + n)] else show_nat (n div 10) @ [char_of (48 + n mod 10)])"

declare show_nat.simps [simp del]

definition itoa :: "int \<Rightarrow> string" where
  "itoa i = (if i < 0 then CHR ''-'' # show_nat (nat (- i)) else show_nat (nat i))"

lemma of_char_digit [simp]: "d < 10 \<Longrightarrow> (of_char (char_of (48 + d) :: char) :: nat) = 48 + d"
  by (simp add: of_char_of)

lemma digits_value_append:
  "digits_value n (s @ t) = (case digits_value n s of None \<Rightarrow> None | Some m \<Rightarrow> digits_value m t)"
  by (induction n s rule: digits_value.induct) auto

lemma show_nat_value: "\<exists>k. \<forall>m. digits_value m (show_nat n) = Some (m * 10 ^ k + n)"
proof (induction n rule: show_nat.induct)
  case (1 n)
  show ?case
  proof (cases "n < 10")
    case True
    then have "\<forall>m. digits_value m (show_nat n) = Some (m * 10 ^ 1 + n)"
      by (simp add: show_nat.simps [of n] is_digit_def)
    then show ?thesis by blast
  next
    case False
    with 1 obtain k where k: "\<And>m. digits_value m (show_nat (n div 10)) = Some (m * 10 ^ k + n div 10)"
      by blast
    have "\<forall>m. digits_value m (show_nat n) = Some (m * 10 ^ Suc k + n)"
      using False by (simp add: show_nat.simps [of n] digits_value_append k is_digit_def algebra_simps)
    then show ?thesis by blast
  qed
qed

lemma show_nat_parse [simp]: "digits_value 0 (show_nat n) = Some n"
  using show_nat_value [of n] by auto

lemma show_nat_hd: "\<exists>(d::nat) r. d < 10 \<and> show_nat n = char_of (48 + d) # r"
proof (induction n rule: show_nat.induct)
  case (1 n)
  then show ?case by (cases "n < 10") (auto simp: show_nat.simps [of n])
qed

lemma atoi_itoa: "- (2 ^ 63) \<le> i \<Longrightarrow> i < 2 ^ 63 \<Longrightarrow> atoi (itoa i) = Some i"
proof -
  assume lo: "- (2 ^ 63) \<le> i" and hi: "i < 2 ^ 63"
  obtain d :: nat and r where d: "d < 10" and eq: "show_nat (nat i) = char_of (48 + d) # r"
    using show_nat_hd by blast
  have sign: "char_of (48 + d) \<noteq> CHR ''-'' \<and> char_of (48 + d) \<noteq> CHR ''+''"
  proof -
    have "(of_char (char_of (48 + d) :: char) :: nat) \<noteq> of_char CHR ''-''"
      and "(of_char (char_of (48 + d) :: char) :: nat) \<noteq> of_char CHR ''+''"
      using d by simp_all
    then show ?thesis by metis
  qed
  have ne: "show_nat m \<noteq> []" for m using show_nat_hd [of m] by auto
  show ?thesis
  proof (cases "i < 0")
    case True
    then show ?thesis using lo ne by (simp add: atoi_def itoa_def Let_def nat_le_iff)
  next
    case False
    have "atoi (show_nat (nat i)) = Some (int (nat i))"
      using sign eq hi False show_nat_parse [of "nat i"]
      by (simp add: atoi_def Let_def nat_less_iff del: show_nat_parse)
    with False show ?thesis by (simp add: itoa_def)
  qed
qed

text \<open>Go's \<open>int\<close>: 64 bits, two's complement.\<close>

definition wrap64 :: "int \<Rightarrow> int" where
  "wrap64 i = (i + 2 ^ 63) mod 2 ^ 64 - 2 ^ 63"

lemma wrap64_id: "- (2 ^ 63) \<le> i \<Longrightarrow> i < 2 ^ 63 \<Longrightarrow> wrap64 i = i"
  by (simp add: wrap64_def)

end
