(* ===== verification/LexoRank.thy ===== *)
theory LexoRank
  imports GoPrelude
begin

text \<open>
  \<open>internal/lexorank\<close>: fractional ordering keys. A rank is a byte string over the two-band
  alphabet; \<open>mid a b\<close> computes a rank between two neighbours, the empty string standing for
  "before all" or "after all". Indexing the alphabet out of range panics in Go and is \<open>Crash\<close>
  here; byte subtraction wraps. \<open>RankAround\<close> and \<open>RankBetween\<close> of the store call \<open>mid\<close>.
\<close>

section \<open>Model\<close>

datatype lex_error =
    NotOrdered string string
  | BeforeUnbounded
  | CannotGoBelow string
  | AfterUnbounded
  | NoGap string string nat
  | NotConverged string string

definition alphabet :: string where
  "alphabet = ''ABCDEFGHIJKLMNOPQRSTUVWXYZabcdefghijklmnopqrstuvwxyz''"

definition minChar :: char where "minChar = CHR ''A''"
definition maxChar :: char where "maxChar = CHR ''z''"

definition idx :: "char \<Rightarrow> nat" where
  "idx c = (if CHR ''a'' \<le> c then 26 + (of_char c - 97) else (of_char c + 256 - 65) mod 256)"

definition charAt :: "nat \<Rightarrow> (lex_error, char) outcome" where
  "charAt i = (if i < length alphabet then Done (alphabet ! i) else Crash)"

fun before :: "string \<Rightarrow> (lex_error, string) outcome" where
  "before [] = Fail BeforeUnbounded"
| "before (c # rest) =
     (if c = minChar then
        (if rest = [] then Fail (CannotGoBelow [c]) else omap ((#) minChar) (before rest))
      else if idx c = 0 then Fail (CannotGoBelow (c # rest))
      else omap (\<lambda>d. [d, maxChar]) (charAt (idx c - 1)))"

definition midCharStr :: "(lex_error, string) outcome" where
  "midCharStr = omap (\<lambda>c. [c]) (charAt (length alphabet div 2))"

fun after_from :: "string \<Rightarrow> nat \<Rightarrow> (lex_error, string) outcome" where
  "after_from n 0 = omap (\<lambda>m. n @ m) midCharStr"
| "after_from n (Suc i) =
     (if n ! i \<noteq> maxChar then omap (\<lambda>d. take i n @ [d]) (charAt (idx (n ! i) + 1))
      else after_from n i)"

definition after :: "string \<Rightarrow> (lex_error, string) outcome" where
  "after s = (if s = [] then Fail AfterUnbounded else after_from s (length s))"

function between_from :: "string \<Rightarrow> string \<Rightarrow> nat \<Rightarrow> string \<Rightarrow> (lex_error, string) outcome" where
  "between_from a b i out =
     (let pastB = length b \<le> i;
          ia = (if i < length a then idx (a ! i) else 0);
          ib = (if pastB then idx (b ! (length b - 1)) else idx (b ! i))
      in if ib < ia \<and> \<not> pastB then Fail (NoGap a b i)
         else if ia + 2 \<le> ib then omap (\<lambda>c. out @ [c]) (charAt ((ia + ib) div 2))
         else obind (charAt ia) (\<lambda>c.
           if length a + length b + 8 < i then Fail (NotConverged a b)
           else between_from a b (Suc i) (out @ [c])))"
  by pat_completeness auto
termination
  by (relation "measure (\<lambda>(a, b, i, out). length a + length b + 9 - i)") auto

declare between_from.simps [simp del]

definition between :: "string \<Rightarrow> string \<Rightarrow> (lex_error, string) outcome" where
  "between a b = between_from a b 0 []"

definition mid :: "string \<Rightarrow> string \<Rightarrow> (lex_error, string) outcome" where
  "mid a b =
     (if a \<noteq> [] \<and> b \<noteq> [] \<and> b \<le> a then Fail (NotOrdered a b)
      else if a = [] \<and> b = [] then Done ''u''
      else if a = [] then before b
      else if b = [] then after a
      else between a b)"

section \<open>The alphabet\<close>

definition is_rank :: "string \<Rightarrow> bool" where
  "is_rank s \<longleftrightarrow> set s \<subseteq> set alphabet"

lemma is_rank_simps [simp]:
  "is_rank []" "is_rank (c # s) \<longleftrightarrow> c \<in> set alphabet \<and> is_rank s"
  "is_rank (s @ t) \<longleftrightarrow> is_rank s \<and> is_rank t"
  by (auto simp: is_rank_def)

lemma is_rank_take [simp]: "is_rank s \<Longrightarrow> is_rank (take n s)"
  by (auto simp: is_rank_def dest: in_set_takeD)

lemma is_rank_nth [simp]: "is_rank s \<Longrightarrow> i < length s \<Longrightarrow> s ! i \<in> set alphabet"
  by (auto simp: is_rank_def)

lemma length_alphabet [simp]: "length alphabet = 52"
  by (simp add: alphabet_def)

lemma min_max_alphabet [simp]:
  "minChar \<in> set alphabet" "maxChar \<in> set alphabet" "idx minChar = 0" "idx maxChar = 51"
  by (simp_all add: alphabet_def minChar_def maxChar_def idx_def less_eq_char_def)

lemma idx_alphabet_all: "map idx alphabet = [0..<52]"
  by code_simp

lemma idx_nth [simp]: "i < 52 \<Longrightarrow> idx (alphabet ! i) = i"
  using arg_cong [OF idx_alphabet_all, of "\<lambda>xs. xs ! i"] by simp

lemma alphabet_sorted: "sorted_wrt (<) alphabet"
  by code_simp

lemma alphabet_cases:
  assumes "c \<in> set alphabet" obtains i where "i < 52" "c = alphabet ! i" "idx c = i"
  using assms by (auto simp: in_set_conv_nth)

lemma idx_bound [simp]: "c \<in> set alphabet \<Longrightarrow> idx c < 52"
  by (auto elim: alphabet_cases)

lemma charAt_idx [simp]: "c \<in> set alphabet \<Longrightarrow> charAt (idx c) = Done c"
  by (auto simp: charAt_def elim: alphabet_cases)

lemma nth_alphabet_less: "i < j \<Longrightarrow> j < 52 \<Longrightarrow> alphabet ! i < alphabet ! j"
  using sorted_wrt_nth_less [OF alphabet_sorted] by simp

lemma nth_less_idx: "i < idx c \<Longrightarrow> c \<in> set alphabet \<Longrightarrow> alphabet ! i < c"
  by (auto elim!: alphabet_cases intro: nth_alphabet_less)

lemma idx_less_nth: "idx c < i \<Longrightarrow> i < 52 \<Longrightarrow> c \<in> set alphabet \<Longrightarrow> c < alphabet ! i"
  by (auto elim!: alphabet_cases intro: nth_alphabet_less)

lemma idx_inject: "c \<in> set alphabet \<Longrightarrow> d \<in> set alphabet \<Longrightarrow> idx c = idx d \<longleftrightarrow> c = d"
  by (metis alphabet_cases)

lemma idx_less_iff: "c \<in> set alphabet \<Longrightarrow> d \<in> set alphabet \<Longrightarrow> idx c < idx d \<longleftrightarrow> c < d"
  by (metis alphabet_cases idx_less_nth linorder_neqE_nat order_less_asym order_less_irrefl)

section \<open>Byte order of strings\<close>

lemma less_append_Cons: "(p @ c # s :: string) < p @ d # t \<longleftrightarrow> c < d \<or> c = d \<and> s < t"
  by (induction p) auto

lemma less_proper_extension: "(s :: string) < s @ c # t"
  by (induction s) auto


text \<open>\<open>below out b\<close>: the two strings already differ, so every extension of \<open>out\<close> stays below \<open>b\<close>.\<close>

definition below :: "string \<Rightarrow> string \<Rightarrow> bool" where
  "below out b \<longleftrightarrow> (\<exists>p c s d t. out = p @ c # s \<and> b = p @ d # t \<and> c < d)"

lemma below_append: "below out b \<Longrightarrow> below (out @ x) b"
  unfolding below_def by (metis append.assoc append_Cons)

lemma below_less: "below out b \<Longrightarrow> out < b"
  by (auto simp: below_def less_append_Cons)

lemma below_step: "i < length b \<Longrightarrow> out = take i b \<Longrightarrow> c < b ! i \<Longrightarrow> below (out @ [c]) b"
  unfolding below_def by (metis append_Nil2 append_Cons id_take_nth_drop append_take_drop_id)

section \<open>The descent of \<open>between\<close>\<close>

text \<open>
  What the loop keeps: the output follows \<open>a\<close>, padded with the least letter once \<open>a\<close> is
  used up, and towards \<open>b\<close> it has either dropped below, or still copies a proper prefix, or
  has passed the end of a \<open>b\<close> whose last letter is the least one.
\<close>

definition follows :: "string \<Rightarrow> nat \<Rightarrow> string \<Rightarrow> bool" where
  "follows a i out \<longleftrightarrow> length out = i \<and> (if i \<le> length a then out = take i a else \<exists>k. out = a @ replicate k minChar)"

definition under :: "string \<Rightarrow> nat \<Rightarrow> string \<Rightarrow> bool" where
  "under b i out \<longleftrightarrow> below out b \<or> i < length b \<and> out = take i b \<or> length b \<le> i \<and> last b = minChar"

abbreviation lower_char_at :: "string \<Rightarrow> nat \<Rightarrow> char" where
  "lower_char_at a i \<equiv> (if i < length a then a ! i else minChar)"

lemma follows_step: "follows a i out \<Longrightarrow> follows a (Suc i) (out @ [lower_char_at a i])"
proof (cases "i < length a")
  case True
  then show "follows a i out \<Longrightarrow> ?thesis" by (simp add: follows_def take_Suc_conv_app_nth)
next
  case False
  assume f: "follows a i out"
  have "\<exists>k. out = a @ replicate k minChar"
  proof (cases "i = length a")
    case True
    with f have "out = a @ replicate 0 minChar" by (simp add: follows_def)
    then show ?thesis by blast
  next
    case False
    with f \<open>\<not> i < length a\<close> show ?thesis by (simp add: follows_def)
  qed
  then obtain k where "out @ [minChar] = a @ replicate (Suc k) minChar"
    by (auto simp: replicate_append_same)
  then have "\<exists>k. out @ [minChar] = a @ replicate k minChar" by blast
  with False f show ?thesis by (simp add: follows_def)
qed

lemma follows_less:
  assumes "follows a i out" "is_rank a" "m < 52" "idx (lower_char_at a i) < m"
  shows "a < out @ [alphabet ! m]"
proof (cases "i < length a")
  case True
  then have "a ! i < alphabet ! m" using assms by (simp add: idx_less_nth)
  then have "take i a @ a ! i # drop (Suc i) a < take i a @ [alphabet ! m]"
    by (simp only: less_append_Cons) simp
  with True assms(1) show ?thesis by (simp add: follows_def id_take_nth_drop [symmetric])
next
  case False
  then obtain w where "out = a @ w" using assms(1)
    by (auto simp: follows_def split: if_splits)
  then show ?thesis by (cases w) (simp_all add: less_proper_extension)
qed

lemma follows_eq_end:
  assumes "follows a i b" "a < b" "i = length b" "b \<noteq> []"
  shows "last b = minChar"
proof (cases "i \<le> length a")
  case True
  with assms have "b = take i a" by (simp add: follows_def)
  then have "b \<le> a" using less_proper_extension [of b] append_take_drop_id [of i a]
    by (metis append.right_neutral neq_Nil_conv order_less_imp_le order_refl)
  with assms(2) show ?thesis by simp
next
  case False
  with assms(1,3) obtain k where k: "b = a @ replicate k minChar" and "k \<noteq> 0"
    by (auto simp: follows_def)
  then show ?thesis by simp
qed

lemma under_step:
  assumes "under b i out" "follows a i out" "a < b" "b \<noteq> []" "is_rank a" "is_rank b"
    and "i < length b \<Longrightarrow> idx (lower_char_at a i) \<le> idx (b ! i)"
  shows "under b (Suc i) (out @ [lower_char_at a i])"
proof -
  define c where "c = lower_char_at a i"
  have c: "c \<in> set alphabet" using assms(5) by (simp add: c_def)
  consider "below out b" | "i < length b" "out = take i b" | "length b \<le> i" "last b = minChar"
    using assms(1) by (auto simp: under_def)
  then have "under b (Suc i) (out @ [c])"
  proof cases
    case 1
    then show ?thesis by (simp add: under_def below_append)
  next
    case 2
    show ?thesis
    proof (cases "c = b ! i")
      case False
      have bi: "b ! i \<in> set alphabet" using 2(1) assms(6) by simp
      have "idx c \<le> idx (b ! i)" using assms(7) 2(1) by (simp only: c_def)
      with False c bi have "idx c < idx (b ! i)" by (simp add: le_less idx_inject)
      with c bi have "c < b ! i" by (simp add: idx_less_iff)
      then show ?thesis using below_step [OF 2, of c] by (simp add: under_def)
    next
      case True
      with 2 have next_out: "out @ [c] = take (Suc i) b" by (simp add: take_Suc_conv_app_nth)
      show ?thesis
      proof (cases "Suc i < length b")
        case True
        with next_out show ?thesis by (simp add: under_def)
      next
        case False
        with 2 have "Suc i = length b" by simp
        with next_out follows_step [OF assms(2)] have "follows a (Suc i) b" by (simp add: c_def)
        with \<open>Suc i = length b\<close> assms(3,4) have "last b = minChar" by (rule_tac follows_eq_end) auto
        with \<open>Suc i = length b\<close> show ?thesis by (simp add: under_def)
      qed
    qed
  next
    case 3
    then show ?thesis by (simp add: under_def)
  qed
then show ?thesis by (simp only: c_def)
qed

lemma under_less:
  assumes "under b i out" "b \<noteq> []" "is_rank b" "m < 52"
    and "m < (if length b \<le> i then idx (last b) else idx (b ! i))"
  shows "out @ [alphabet ! m] < b"
proof -
  consider "below out b" | "i < length b" "out = take i b" | "length b \<le> i" "last b = minChar"
    using assms(1) by (auto simp: under_def)
  then show ?thesis
  proof cases
    case 1
    then show ?thesis by (intro below_less below_append)
  next
    case 2
    with assms have "alphabet ! m < b ! i" by (intro nth_less_idx) auto
    then show ?thesis using below_step [OF 2] by (intro below_less)
  next
    case 3
    with assms(5) show ?thesis by simp
  qed
qed

lemma idx_lower_char_at: "is_rank a \<Longrightarrow> idx (lower_char_at a i) = (if i < length a then idx (a ! i) else 0)"
  by simp

lemma between_from_sound:
  assumes "between_from a b i out = Done r" "follows a i out" "under b i out"
    and "a < b" "b \<noteq> []" "is_rank a" "is_rank b"
  shows "a < r \<and> r < b \<and> is_rank r"
  using assms
proof (induction a b i out rule: between_from.induct)
  case (1 a b i out)
  define ia where "ia = idx (lower_char_at a i)"
  define ib where "ib = (if length b \<le> i then idx (last b) else idx (b ! i))"
  have ia_bound: "ia < 52" unfolding ia_def using 1(7) by (intro idx_bound) simp
  have ib_bound: "ib < 52" unfolding ib_def using 1(6,8)
    by (auto simp: is_rank_def subset_iff)
  have out_rank: "is_rank out" using 1(3,7)
    by (auto simp: follows_def is_rank_def set_replicate_conv_if split: if_splits dest: in_set_takeD)
  have ia': "(if i < length a then idx (a ! i) else 0) = ia" by (simp add: ia_def)
  have ib': "(if length b \<le> i then idx (b ! (length b - 1)) else idx (b ! i)) = ib"
    using 1(6) by (simp add: ib_def last_conv_nth)
  note eq = 1(2) [unfolded between_from.simps [of a b i out] Let_def ia' ib']
  have no_gap: "\<not> (ib < ia \<and> \<not> length b \<le> i)" using eq by (auto split: if_splits)
  show ?case
  proof (cases "ia + 2 \<le> ib")
    case True
    define m where "m = (ia + ib) div 2"
    have m: "ia < m" "m < ib" "m < 52" using True ib_bound by (auto simp: m_def)
    with eq no_gap True have r: "r = out @ [alphabet ! m]" by (auto simp: charAt_def m_def)
    have "a < r" using m 1(3,7) unfolding r by (intro follows_less) (auto simp: ia_def)
    moreover have "r < b" using m 1(4,6,8) unfolding r by (intro under_less) (auto simp: ib_def)
    ultimately show ?thesis using out_rank m by (simp add: r)
  next
    case False
    let ?c = "lower_char_at a i"
    have c: "charAt ia = Done ?c" using 1(7) by (simp add: ia_def)
    with eq no_gap False have rest: "\<not> length a + length b + 8 < i"
      "between_from a b (Suc i) (out @ [?c]) = Done r" by (auto split: if_splits)
    show ?thesis
    proof (rule "1.IH" [OF refl refl refl, unfolded ia' ib', of ?c])
      show "follows a (Suc i) (out @ [?c])" using 1(3) by (rule follows_step)
      show "under b (Suc i) (out @ [?c])"
        using 1(3-8) no_gap by (intro under_step) (auto simp: ia_def ib_def)
    qed (use no_gap False rest c 1(5-8) in auto)
  qed
qed

section \<open>\<open>mid\<close>: soundness, totality, and the gaps it finds\<close>

lemma between_sound:
  assumes "between a b = Done r" "a < b" "b \<noteq> []" "is_rank a" "is_rank b"
  shows "a < r \<and> r < b \<and> is_rank r"
proof (rule between_from_sound)
  show "between_from a b 0 [] = Done r" using assms(1) by (simp add: between_def)
qed (use assms(2-) in \<open>auto simp: follows_def under_def\<close>)

lemma between_from_not_Crash:
  assumes "is_rank a" "is_rank b" "b \<noteq> []"
  shows "between_from a b i out \<noteq> Crash"
  using assms
proof (induction a b i out rule: between_from.induct)
  case (1 a b i out)
  have "\<And>j. j < length b \<Longrightarrow> idx (b ! j) < 52" using 1(3) by simp
  then have ib: "(if length b \<le> i then idx (b ! (length b - 1)) else idx (b ! i)) < 52"
    using 1(4) by auto
  have ia: "\<exists>c. charAt (if i < length a then idx (a ! i) else 0) = Done c"
    using 1(2) by (auto simp: charAt_def)
  show ?case
    using "1.IH" [OF refl refl refl _ _ _ _ 1(2-4)] ib ia
    by (subst between_from.simps) (auto simp: Let_def charAt_def)
qed

lemma before_props:
  "is_rank s \<Longrightarrow> before s \<noteq> Crash \<and> (\<forall>r. before s = Done r \<longrightarrow> r < s \<and> is_rank r \<and> r \<noteq> [])"
proof (induction s rule: before.induct)
  case (2 c rest)
  then have c: "c \<in> set alphabet" by simp
  show ?case
  proof (cases "c = minChar")
    case True
    with 2 show ?thesis by (auto simp del: omap_Done_iff simp add: omap_Done_iff)
  next
    case False
    have bound: "idx c - 1 < 52" using idx_bound [OF c] by linarith
    show ?thesis
    proof (cases "idx c = 0")
      case True
      with False show ?thesis by simp
    next
      case pos: False
      have "alphabet ! (idx c - 1) < c" using pos c by (intro nth_less_idx) auto
      with False pos bound show ?thesis by (auto simp: charAt_def)
    qed
  qed
qed simp

lemma before_defined: "is_rank s \<Longrightarrow> c \<in> set s \<Longrightarrow> c \<noteq> minChar \<Longrightarrow> \<exists>r. before s = Done r"
proof (induction s rule: before.induct)
  case (2 d rest)
  then have d: "d \<in> set alphabet" by simp
  show ?case
  proof (cases "d = minChar")
    case True
    with 2 show ?thesis by (cases rest) auto
  next
    case False
    then have "idx d \<noteq> 0" using idx_inject [OF d min_max_alphabet(1)] by simp
    moreover have "idx d - 1 < 52" using idx_bound [OF d] by linarith
    ultimately show ?thesis using False by (simp add: charAt_def)
  qed
qed simp

lemma after_from_props:
  "is_rank s \<Longrightarrow> i \<le> length s \<Longrightarrow> \<exists>r. after_from s i = Done r \<and> s < r \<and> is_rank r"
proof (induction s i rule: after_from.induct)
  case (1 n)
  then show ?case by (simp add: midCharStr_def charAt_def less_proper_extension)
next
  case (2 n i)
  show ?case
  proof (cases "n ! i = maxChar")
    case True
    with 2 show ?thesis by simp
  next
    case False
    have ni: "n ! i \<in> set alphabet" using 2(2,3) by simp
    have "idx (n ! i) \<noteq> 51" using idx_inject [OF ni min_max_alphabet(2)] False by simp
    then have bound: "idx (n ! i) + 1 < 52" using idx_bound [OF ni] by linarith
    have "n ! i < alphabet ! (idx (n ! i) + 1)" using bound ni by (intro idx_less_nth) auto
    then have "take i n @ n ! i # drop (Suc i) n < take i n @ [alphabet ! (idx (n ! i) + 1)]"
      by (simp only: less_append_Cons) simp
    then have "n < take i n @ [alphabet ! (idx (n ! i) + 1)]"
      using 2(3) by (simp add: id_take_nth_drop [symmetric])
    with False bound 2(2) show ?thesis by (simp add: charAt_def)
  qed
qed

lemma after_props: "is_rank s \<Longrightarrow> s \<noteq> [] \<Longrightarrow> \<exists>r. after s = Done r \<and> s < r \<and> is_rank r"
  using after_from_props [of s "length s"] by (simp add: after_def)

lemma mid_sound:
  assumes "is_rank a" "is_rank b" "mid a b = Done r"
  shows "is_rank r \<and> r \<noteq> [] \<and> (a \<noteq> [] \<longrightarrow> a < r) \<and> (b \<noteq> [] \<longrightarrow> r < b)"
proof -
  have nonempty: "x \<noteq> []" if "a' < x" for a' x :: string using that by auto
  consider "a = []" "b = []" | "a = []" "b \<noteq> []" | "a \<noteq> []" "b = []" | "a \<noteq> []" "b \<noteq> []" by auto
  then show ?thesis
  proof cases
    case 1
    with assms(3) have "r = ''u''" by (simp add: mid_def)
    moreover have "CHR ''u'' \<in> set alphabet" by (simp add: alphabet_def)
    ultimately show ?thesis using 1 by simp
  next
    case 2
    with assms before_props [of b] show ?thesis by (simp add: mid_def)
  next
    case 3
    with assms after_props [of a] nonempty show ?thesis by (auto simp: mid_def)
  next
    case 4
    with assms have "a < b" "between a b = Done r" by (auto simp: mid_def split: if_splits)
    with between_sound [of a b r] assms 4 nonempty show ?thesis by blast
  qed
qed

text \<open>Property C12: a rank \<open>Mid\<close> returns for two ranks over the alphabet is itself a rank of the
  alphabet and sorts strictly between them, an empty bound being open.\<close>

theorem mid_strictly_between:
  assumes "is_rank a" and "is_rank b" and "mid a b = Done r"
  shows "is_rank r \<and> r \<noteq> [] \<and> (a \<noteq> [] \<longrightarrow> a < r) \<and> (b \<noteq> [] \<longrightarrow> r < b)"
  using assms by (rule mid_sound)

lemma eval_mid_mn: "is_rank ''m'' \<and> is_rank ''n'' \<and> mid ''m'' ''n'' = Done ''mT''"
  by code_simp

theorem mid_strictly_between_witness:
  "is_rank ''mT'' \<and> ''mT'' \<noteq> [] \<and> ''m'' < ''mT'' \<and> ''mT'' < ''n''"
  using mid_strictly_between [of "''m''" "''n''" "''mT''"] eval_mid_mn by blast

lemma mid_not_Crash: "is_rank a \<Longrightarrow> is_rank b \<Longrightarrow> mid a b \<noteq> Crash"
  using before_props [of b] after_props [of a] between_from_not_Crash [of a b 0 "[]"]
  by (auto simp: mid_def between_def)

text \<open>Over the rank alphabet \<open>Mid\<close> never panics; appending at the end of a list
  always yields a rank, and inserting at its head does unless the first rank is all \<open>A\<close>.\<close>

theorem mid_total:
  assumes "is_rank a" and "is_rank b"
  shows "mid a b \<noteq> Crash \<and> (\<exists>r. mid a [] = Done r) \<and>
    ((\<exists>c \<in> set b. c \<noteq> minChar) \<longrightarrow> (\<exists>r. mid [] b = Done r))"
proof (intro conjI impI)
  show "mid a b \<noteq> Crash" using assms by (rule mid_not_Crash)
  show "\<exists>r. mid a [] = Done r"
    using after_props [of a] assms by (cases "a = []") (auto simp: mid_def)
  assume "\<exists>c \<in> set b. c \<noteq> minChar"
  then show "\<exists>r. mid [] b = Done r" using before_defined [of b] assms by (auto simp: mid_def)
qed

theorem mid_total_witness:
  "mid ''m'' ''AB'' \<noteq> Crash \<and> (\<exists>r. mid ''m'' [] = Done r) \<and> (\<exists>r. mid [] ''AB'' = Done r)"
proof -
  have ranks: "is_rank ''m''" "is_rank ''AB''" by code_simp+
  have "\<exists>c \<in> set ''AB''. c \<noteq> minChar" by (simp add: minChar_def)
  with mid_total [OF ranks] show ?thesis by blast
qed

lemma between_from_common:
  assumes "is_rank p" "p = q @ q'" "i = length q"
    and "is_rank (c # s)" "is_rank (d # t)" "idx c + 2 \<le> idx d"
  shows "between_from (p @ c # s) (p @ d # t) i q = Done (p @ [alphabet ! ((idx c + idx d) div 2)])"
  using assms(2,3)
proof (induction q' arbitrary: q i)
  case Nil
  have "c \<in> set alphabet" "d \<in> set alphabet" using assms(4,5) by simp_all
  then have "idx c < 52" "idx d < 52" by simp_all
  then have "(idx c + idx d) div 2 < 52" by linarith
  with Nil assms show ?case
    by (subst between_from.simps) (simp add: Let_def nth_append charAt_def)
next
  case (Cons e q')
  from Cons.prems assms(1) have e: "e \<in> set alphabet" by simp
  have "between_from (p @ c # s) (p @ d # t) (Suc i) (q @ [e]) =
      Done (p @ [alphabet ! ((idx c + idx d) div 2)])"
    using Cons.prems by (intro Cons.IH) simp_all
  with Cons.prems e show ?case
    by (subst between_from.simps) (simp add: Let_def nth_append)
qed

text \<open>Where two ranks share a prefix and then differ by at least two letters of the
  alphabet, \<open>Mid\<close> succeeds and returns the shared prefix followed by the letter half way.\<close>

theorem mid_midpoint:
  assumes "is_rank (p @ c # s)" and "is_rank (p @ d # t)" and "idx c + 2 \<le> idx d"
  shows "mid (p @ c # s) (p @ d # t) = Done (p @ [alphabet ! ((idx c + idx d) div 2)])"
proof -
  have "c < d" using assms idx_less_iff [of c d] by simp
  then have less: "p @ c # s < p @ d # t" by (simp add: less_append_Cons)
  have "between (p @ c # s) (p @ d # t) = Done (p @ [alphabet ! ((idx c + idx d) div 2)])"
    unfolding between_def using assms by (intro between_from_common [of p "[]" p]) simp_all
  with less show ?thesis by (auto simp: mid_def)
qed

theorem mid_midpoint_witness: "mid ''aC'' ''aGx'' = Done ''aE''"
proof -
  have h: "is_rank (''a'' @ CHR ''C'' # [])" "is_rank (''a'' @ CHR ''G'' # ''x'')"
    "idx CHR ''C'' + 2 \<le> idx CHR ''G''" by code_simp+
  have "alphabet ! ((idx CHR ''C'' + idx CHR ''G'') div 2) = CHR ''E''" by code_simp
  with mid_midpoint [OF h] show ?thesis by simp
qed

text \<open>\<open>Mid\<close> refuses neighbours that have room between them: it fails on \<open>A\<close>, \<open>B\<close>
  and on \<open>mz\<close>, \<open>nA\<close>, although \<open>AB\<close> and \<open>mzz\<close> are ranks strictly in between.\<close>

theorem mid_refuses_open_gaps:
  "mid ''A'' ''B'' = Fail (NotConverged ''A'' ''B'') \<and>
   (is_rank ''AB'' \<and> ''A'' < ''AB'' \<and> ''AB'' < ''B'') \<and>
   mid ''mz'' ''nA'' = Fail (NoGap ''mz'' ''nA'' 1) \<and>
   (is_rank ''mzz'' \<and> ''mz'' < ''mzz'' \<and> ''mzz'' < ''nA'')"
  by (intro conjI; code_simp)

end
