(* ===== verification/RankOrder.thy ===== *)
theory RankOrder
  imports LexoRank
begin

text \<open>
  The site-wide rank order of \<open>internal/store\<close>: \<open>RankAround\<close> (\<open>jira_software.go\<close>) reads the
  rank of a reference work item, looks up the nearest rank on the far side of it among the other
  items, and asks \<open>lexorank.Mid\<close> for a rank in between. Rows are (id, rank) pairs; the
  database's text comparison is the argument \<open>lt\<close>. \<open>RankBetween\<close> and \<open>PlanningRankBetween\<close>
  (\<open>agile.go\<close>) name both neighbours.
\<close>

section \<open>Model\<close>

datatype rank_error = RankReferenceMissing string | RankMid lex_error

type_synonym rank_rows = "(string \<times> string) list"

text \<open>SQL \<open>max\<close>: the greatest under the database's comparison, empty for no row; \<open>min\<close> is
  the same with the comparison turned round.\<close>

fun extreme_from :: "(string \<Rightarrow> string \<Rightarrow> bool) \<Rightarrow> string \<Rightarrow> string list \<Rightarrow> string" where
  "extreme_from lt m [] = m"
| "extreme_from lt m (y # ys) = extreme_from lt (if lt m y then y else m) ys"

fun extreme :: "(string \<Rightarrow> string \<Rightarrow> bool) \<Rightarrow> string list \<Rightarrow> string" where
  "extreme lt [] = []"
| "extreme lt (x # xs) = extreme_from lt x xs"

fun lift_mid :: "(lex_error, string) outcome \<Rightarrow> (rank_error, string) outcome" where
  "lift_mid (Done r) = Done r"
| "lift_mid (Fail e) = Fail (RankMid e)"
| "lift_mid Crash = Crash"

definition RankAround ::
  "(string \<Rightarrow> string \<Rightarrow> bool) \<Rightarrow> rank_rows \<Rightarrow> string \<Rightarrow> string \<Rightarrow> string \<Rightarrow> (rank_error, string) outcome" where
  "RankAround lt rows issueID beforeID afterID =
     (let reference = (if beforeID = [] then afterID else beforeID)
      in case map_of rows reference of
           None \<Rightarrow> Fail (RankReferenceMissing reference)
         | Some referenceRank \<Rightarrow>
             if beforeID \<noteq> [] then
               lift_mid (mid (extreme lt [rank. (i, rank) \<leftarrow> rows, lt rank referenceRank, i \<noteq> issueID]) referenceRank)
             else
               lift_mid (mid referenceRank
                 (extreme (\<lambda>x y. lt y x) [rank. (i, rank) \<leftarrow> rows, lt referenceRank rank, i \<noteq> issueID])))"

text \<open>\<open>RankBetween\<close> over the rows of one project and status column.\<close>

definition RankBetween :: "rank_rows \<Rightarrow> string \<Rightarrow> string \<Rightarrow> (rank_error, string) outcome" where
  "RankBetween column beforeID afterID =
     (let fetch = (\<lambda>i. if i = [] then Done [] else
            case map_of column i of None \<Rightarrow> Fail (RankReferenceMissing i) | Some r \<Rightarrow> Done r)
      in obind (fetch afterID) (\<lambda>lo. obind (fetch beforeID) (\<lambda>hi. lift_mid (mid lo hi))))"

text \<open>\<open>PlanningRankBetween\<close> over the rows of one project: an excluded neighbour counts as open.\<close>

definition PlanningRankBetween ::
  "rank_rows \<Rightarrow> string \<Rightarrow> string \<Rightarrow> string \<Rightarrow> (rank_error, string) outcome" where
  "PlanningRankBetween project beforeID afterID excludeID =
     (let fetch = (\<lambda>i. if i = [] \<or> i = excludeID then Done [] else
            case map_of project i of None \<Rightarrow> Fail (RankReferenceMissing i) | Some r \<Rightarrow> Done r)
      in obind (fetch afterID) (\<lambda>lo. obind (fetch beforeID) (\<lambda>hi. lift_mid (mid lo hi))))"

section \<open>What the store relies on\<close>

lemma lift_mid_Done [simp]: "lift_mid m = Done r \<longleftrightarrow> m = Done r"
  by (cases m) auto

lemma extreme_from_in: "extreme_from lt m ys \<in> insert m (set ys)"
  by (induction lt m ys rule: extreme_from.induct) (auto split: if_splits)

lemma extreme_in: "xs \<noteq> [] \<Longrightarrow> extreme lt xs \<in> set xs"
  using extreme_from_in by (cases xs) auto

lemma extreme_all: "\<forall>y \<in> set xs. P y \<Longrightarrow> x \<in> set xs \<Longrightarrow> P (extreme lt xs)"
  using extreme_in [of xs lt] by fastforce

lemma extreme_all_or_Nil: "\<forall>y \<in> set xs. P y \<Longrightarrow> P (extreme lt xs) \<or> extreme lt xs = []"
  using extreme_in [of xs lt] by (cases "xs = []") auto

text \<open>
  The database's comparison of valid ranks is a strict total order; \<open>extreme\<close> then is the
  greatest row, and with the comparison turned round the least.
\<close>

locale text_order =
  fixes valid :: "string \<Rightarrow> bool" and lt :: "string \<Rightarrow> string \<Rightarrow> bool"
  assumes lt_trans: "valid a \<Longrightarrow> valid b \<Longrightarrow> valid c \<Longrightarrow> lt a b \<Longrightarrow> lt b c \<Longrightarrow> lt a c"
    and lt_total: "valid a \<Longrightarrow> valid b \<Longrightarrow> lt a b \<or> a = b \<or> lt b a"
    and lt_irrefl: "valid a \<Longrightarrow> \<not> lt a a"
begin

lemma extreme_from_top:
  "valid m \<Longrightarrow> \<forall>y \<in> set ys. valid y \<Longrightarrow> x \<in> insert m (set ys) \<Longrightarrow>
   x = extreme_from lt m ys \<or> lt x (extreme_from lt m ys)"
proof (induction ys arbitrary: m x)
  case (Cons y ys)
  let ?n = "if lt m y then y else m"
  have valid_n: "valid ?n" and valid_e: "valid (extreme_from lt ?n ys)"
    using Cons.prems extreme_from_in [of lt ?n ys] by auto
  define n e where "n = ?n" and "e = extreme_from lt n ys"
  have first: "x = n \<or> lt x n \<or> x \<in> set ys"
    using Cons.prems lt_total [of y m] by (auto simp: n_def)
  have top: "n = e \<or> lt n e"
    using Cons.IH [OF valid_n, of ?n] Cons.prems by (auto simp: n_def e_def)
  have rest: "x \<in> set ys \<Longrightarrow> x = e \<or> lt x e"
    using Cons.IH [OF valid_n, of x] Cons.prems by (auto simp: n_def e_def)
  have "valid x" using Cons.prems by auto
  then have "lt x n \<Longrightarrow> n = e \<or> lt n e \<Longrightarrow> lt x e"
    using lt_trans [of x n e] valid_n valid_e by (auto simp: n_def e_def)
  with first top rest have "x = e \<or> lt x e" by blast
  then show ?case by (simp add: e_def n_def)
qed simp

lemma extreme_top:
  "\<forall>y \<in> set xs. valid y \<Longrightarrow> x \<in> set xs \<Longrightarrow> x = extreme lt xs \<or> lt x (extreme lt xs)"
  using extreme_from_top by (cases xs) auto

end

sublocale text_order \<subseteq> turned: text_order valid "\<lambda>x y. lt y x"
  by unfold_locales (use lt_trans lt_total lt_irrefl in blast)+

text \<open>
  The interface to the rank source: a call that succeeds on valid bounds returns a valid rank
  between them. A client that puts a row between a reference and the nearest rank on its far
  side gets a rank with no other row's rank in between.
\<close>

locale rank_source = text_order +
  fixes pick :: "string \<Rightarrow> string \<Rightarrow> ('e, string) outcome"
  assumes pick_between: "valid a \<or> a = [] \<Longrightarrow> valid b \<or> b = [] \<Longrightarrow> pick a b = Done r \<Longrightarrow>
    valid r \<and> (a \<noteq> [] \<longrightarrow> lt a r) \<and> (b \<noteq> [] \<longrightarrow> lt r b)"
    and valid_nonempty: "\<not> valid []"
begin

lemma placed_before:
  assumes "\<forall>x \<in> set xs. valid x \<and> lt x ref" "valid ref" "pick (extreme lt xs) ref = Done r"
  shows "valid r \<and> lt r ref \<and> (\<forall>x \<in> set xs. lt x r)"
proof -
  have bound: "valid (extreme lt xs) \<or> extreme lt xs = []"
    using assms(1) by (intro extreme_all_or_Nil) blast
  with assms have r: "valid r" "lt r ref" "extreme lt xs \<noteq> [] \<Longrightarrow> lt (extreme lt xs) r"
    using pick_between [of "extreme lt xs" ref r] valid_nonempty by auto
  have "lt x r" if "x \<in> set xs" for x
  proof -
    have "valid (extreme lt xs)" using extreme_all [of xs valid x] that assms(1) by blast
    moreover have "extreme lt xs \<noteq> []" using calculation valid_nonempty by auto
    ultimately show ?thesis
      using extreme_top [of xs x] that assms(1) r lt_trans [of x "extreme lt xs" r] by auto
  qed
  with r show ?thesis by blast
qed

lemma placed_after:
  assumes "\<forall>x \<in> set xs. valid x \<and> lt ref x" "valid ref" "pick ref (extreme (\<lambda>x y. lt y x) xs) = Done r"
  shows "valid r \<and> lt ref r \<and> (\<forall>x \<in> set xs. lt r x)"
proof -
  let ?e = "extreme (\<lambda>x y. lt y x) xs"
  have bound: "valid ?e \<or> ?e = []" using assms(1) by (intro extreme_all_or_Nil) blast
  with assms have r: "valid r" "lt ref r" "?e \<noteq> [] \<Longrightarrow> lt r ?e"
    using pick_between [of ref ?e r] valid_nonempty by auto
  have "lt r x" if "x \<in> set xs" for x
  proof -
    have "valid ?e" using extreme_all [of xs valid x] that assms(1) by blast
    moreover have "?e \<noteq> []" using calculation valid_nonempty by auto
    ultimately show ?thesis
      using turned.extreme_top [of xs x] that assms(1) r lt_trans [of r ?e x] by auto
  qed
  with r show ?thesis by blast
qed

end

interpretation lexo: rank_source "\<lambda>s. is_rank s \<and> s \<noteq> []" "(<)" mid
proof
  fix a b r :: string
  assume "(is_rank a \<and> a \<noteq> []) \<or> a = []" "(is_rank b \<and> b \<noteq> []) \<or> b = []" "mid a b = Done r"
  then show "(is_rank r \<and> r \<noteq> []) \<and> (a \<noteq> [] \<longrightarrow> a < r) \<and> (b \<noteq> [] \<longrightarrow> r < b)"
    using mid_sound [of a b r] by auto
qed auto

text \<open>Property C17: when the database compares ranks byte by byte, \<open>RankAround\<close> puts a work item
  immediately before (or after) the reference: its rank is on the right side of the reference
  rank and no other row of the workspace ranks in between.\<close>

theorem RankAround_immediate:
  assumes "\<forall>(i, rank) \<in> set rows. is_rank rank \<and> rank \<noteq> []"
    and "\<forall>s t. lt s t = (s < t)"
    and "RankAround lt rows issueID beforeID afterID = Done r"
    and "map_of rows (if beforeID = [] then afterID else beforeID) = Some ref"
  shows "if beforeID \<noteq> []
    then r < ref \<and> (\<forall>(i, rank) \<in> set rows. i \<noteq> issueID \<longrightarrow> rank < ref \<longrightarrow> rank < r)
    else ref < r \<and> (\<forall>(i, rank) \<in> set rows. i \<noteq> issueID \<longrightarrow> ref < rank \<longrightarrow> r < rank)"
proof -
  have lt: "lt = (<)" using assms(2) by blast
  have ref: "is_rank ref \<and> ref \<noteq> []" using assms(1,4) by (auto dest!: map_of_SomeD)
  note call = assms(3) [unfolded RankAround_def Let_def assms(4) lt option.case]
  show ?thesis
  proof (cases "beforeID = []")
    case True
    with call have "mid ref (extreme (\<lambda>x y. y < x) [rank. (i, rank) \<leftarrow> rows, ref < rank, i \<noteq> issueID]) = Done r"
      by simp
    from lexo.placed_after [OF _ ref this] assms(1) have
      "ref < r \<and> (\<forall>x \<in> set [rank. (i, rank) \<leftarrow> rows, ref < rank, i \<noteq> issueID]. r < x)" by auto
    with True show ?thesis by auto
  next
    case False
    with call have "mid (extreme (<) [rank. (i, rank) \<leftarrow> rows, rank < ref, i \<noteq> issueID]) ref = Done r"
      by simp
    from lexo.placed_before [OF _ ref this] assms(1) have
      "r < ref \<and> (\<forall>x \<in> set [rank. (i, rank) \<leftarrow> rows, rank < ref, i \<noteq> issueID]. x < r)" by auto
    with False show ?thesis by auto
  qed
qed

lemma eval_RankAround:
  "RankAround (<) [(''i1'', ''m''), (''i2'', ''p''), (''i3'', ''u'')] ''i3'' ''i2'' [] = Done ''n''"
  by code_simp

theorem RankAround_immediate_witness:
  "''n'' < (''p'' :: string) \<and>
   RankAround (<) [(''i1'', ''m''), (''i2'', ''p''), (''i3'', ''u'')] ''i3'' ''i2'' [] = Done ''n''"
proof -
  let ?rows = "[(''i1'', ''m''), (''i2'', ''p''), (''i3'', ''u'')]"
  have rows: "\<forall>(i, rank) \<in> set ?rows. is_rank rank \<and> rank \<noteq> []"
    by (simp add: is_rank_def alphabet_def)
  have "map_of ?rows (if ''i2'' = [] then [] else ''i2'') = Some ''p''" by simp
  from RankAround_immediate [OF rows _ eval_RankAround this] eval_RankAround show ?thesis by simp
qed

end
