(* ===== verification/ReplicaStore.thy ===== *)
theory ReplicaStore
  imports GoPrelude
begin

text \<open>
  The browser replica's tables (\<open>cmd/client/main.go\<close>) and \<open>apply\<close>, which materialises one action
  of the server's log into them. A table keyed by a text id is a map from ids to rows;
  \<open>INSERT OR REPLACE\<close> is a map update and \<open>DELETE ... WHERE\<close> a restriction. The payloads'
  JSON stays abstract: \<open>'p\<close> is the raw message, and a \<open>codec\<close> holds what \<open>json.Unmarshal\<close>
  and \<open>json.Marshal\<close> make of it for each Go struct (None is a decode error).
\<close>

section \<open>Rows and payloads\<close>

record issue_row =
  ir_project_id :: string
  ir_key :: string
  ir_summary :: string
  ir_description :: string
  ir_fields :: string
  ir_labels :: string
  ir_status_id :: string
  ir_status_name :: string
  ir_status_category :: string
  ir_issuetype_name :: string
  ir_priority_name :: string
  ir_assignee_id :: string
  ir_assignee_name :: string
  ir_reporter_id :: string
  ir_reporter_name :: string
  ir_updated_seq :: int
  ir_updated_at :: string

record person = p_id :: string  p_name :: string

record 'p wire_issue =
  wi_id :: string
  wi_project_id :: string
  wi_key :: string
  wi_summary :: string
  wi_description :: string
  wi_fields :: "(string \<times> 'p) list"
  wi_labels :: "string list"
  wi_status :: "string \<times> string \<times> string"
  wi_issuetype_name :: string
  wi_priority :: "string option"
  wi_assignee :: "person option"
  wi_reporter :: "person option"
  wi_updated_seq :: int
  wi_updated_at :: string

record comment_row =
  cr_issue_id :: string
  cr_author_id :: string
  cr_author_name :: string
  cr_body :: string
  cr_created :: string
  cr_local :: bool

record attachment_row =
  at_issue_id :: string
  at_filename :: string
  at_mime_type :: string
  at_size :: int
  at_author_name :: string
  at_created :: string

record worklog_row =
  wr_issue_id :: string
  wr_author_name :: string
  wr_comment :: string
  wr_time_spent :: int
  wr_created :: string
  wr_started :: string
  wr_updated :: string
  wr_author_id :: string
  wr_update_author_id :: string
  wr_update_author_name :: string

record link_row =
  lr_type_name :: string
  lr_inward :: string
  lr_outward :: string
  lr_inward_id :: string
  lr_outward_id :: string

record notification_row =
  nr_target_user :: string
  nr_actor_name :: string
  nr_kind :: string
  nr_entity_type :: string
  nr_entity_id :: string
  nr_message :: string
  nr_created :: string
  nr_read_at :: string

record board_row =
  br_project_id :: string
  br_name :: string
  br_type :: string
  br_quick_filters :: string
  br_swimlane :: string
  br_card_fields :: string
  br_columns :: string

record 'p wire_board =
  wb_id :: string
  wb_project_id :: string
  wb_name :: string
  wb_type :: string
  wb_quick_filters :: 'p
  wb_swimlane :: string
  wb_card_fields :: 'p
  wb_columns :: 'p

record sprint_row =
  sr_board_id :: string
  sr_name :: string
  sr_state :: string
  sr_goal :: string
  sr_start_date :: string
  sr_end_date :: string

text \<open>Decoders and encoders of the payload structs, keyed rows paired with their id.\<close>

record 'p codec =
  dec_issue :: "'p \<Rightarrow> 'p wire_issue option"
  dec_comment :: "'p \<Rightarrow> (string \<times> comment_row) option"
  dec_comment_delete :: "'p \<Rightarrow> (string \<times> string) option"
  dec_attachment :: "'p \<Rightarrow> (string \<times> attachment_row) option"
  dec_attachment_delete :: "'p \<Rightarrow> (string \<times> string) option"
  dec_worklog :: "'p \<Rightarrow> (string \<times> worklog_row) option"
  dec_worklog_delete :: "'p \<Rightarrow> (string \<times> string) option"
  dec_board :: "'p \<Rightarrow> 'p wire_board option"
  dec_sprint :: "'p \<Rightarrow> (string \<times> sprint_row) option"
  dec_sprint_issue :: "'p \<Rightarrow> (string \<times> string \<times> string) option"
  dec_watcher :: "'p \<Rightarrow> (string \<times> string) option"
  dec_notification :: "'p \<Rightarrow> (string \<times> notification_row) option"
  dec_tombstone :: "'p \<Rightarrow> string option"
  dec_link :: "'p \<Rightarrow> (string \<times> link_row) option"
  dec_link_delete :: "'p \<Rightarrow> (string \<times> string \<times> string) option"
  enc_fields :: "(string \<times> 'p) list \<Rightarrow> string option"
  enc_labels :: "string list \<Rightarrow> string option"
  enc_value :: "'p \<Rightarrow> string option"

datatype op = OpUpsert | OpDelete | OpOther string

datatype entity =
    EntityIssue | EntityComment | EntityAttachment | EntityWorklog | EntityBoard | EntitySprint
  | EntitySprintIssue | EntityWatcher | EntityNotification | EntityTombstone | EntityIssueLink
  | EntityOther string

record 'p action =
  a_seq :: int
  a_entity :: entity
  a_entity_id :: string
  a_op :: op
  a_payload :: 'p

record 'p tables =
  t_actions :: "int \<rightharpoonup> 'p action"
  t_issues :: "string \<rightharpoonup> issue_row"
  t_comments :: "string \<rightharpoonup> comment_row"
  t_attachments :: "string \<rightharpoonup> attachment_row"
  t_worklogs :: "string \<rightharpoonup> worklog_row"
  t_watchers :: "(string \<times> string) set"
  t_notifications :: "string \<rightharpoonup> notification_row"
  t_boards :: "string \<rightharpoonup> board_row"
  t_sprints :: "string \<rightharpoonup> sprint_row"
  t_sprint_issues :: "string \<times> string \<rightharpoonup> string"
  t_issue_links :: "string \<rightharpoonup> link_row"

definition empty_tables :: "'p tables" where
  "empty_tables = \<lparr>t_actions = Map.empty, t_issues = Map.empty, t_comments = Map.empty,
     t_attachments = Map.empty, t_worklogs = Map.empty, t_watchers = {}, t_notifications = Map.empty,
     t_boards = Map.empty, t_sprints = Map.empty, t_sprint_issues = Map.empty, t_issue_links = Map.empty\<rparr>"

datatype apply_error = DecodeError | EncodeError | IncompletePayload

text \<open>The result of a handler: the tables and the ids of the issues whose view may have changed.\<close>

type_synonym 'p applied = "apply_error + 'p tables \<times> string list"

text \<open>\<open>DELETE FROM t WHERE column(row) = ...\<close>\<close>

definition delete_where :: "('k \<Rightarrow> 'v \<Rightarrow> bool) \<Rightarrow> ('k \<rightharpoonup> 'v) \<Rightarrow> ('k \<rightharpoonup> 'v)" where
  "delete_where q t = (\<lambda>k. case t k of None \<Rightarrow> None | Some v \<Rightarrow> if q k v then None else Some v)"

lemma delete_where_Some [simp]:
  "delete_where q t k = Some v \<longleftrightarrow> t k = Some v \<and> \<not> q k v"
  by (auto simp: delete_where_def split: option.splits)

lemma delete_where_None [simp]:
  "delete_where q t k = None \<longleftrightarrow> (\<forall>v. t k = Some v \<longrightarrow> q k v)"
  by (auto simp: delete_where_def split: option.splits)

section \<open>Handlers\<close>

text \<open>The seven deletes \<open>applyIssue\<close> and \<open>applyTombstone\<close> both run.\<close>

definition drop_issue :: "string \<Rightarrow> 'p tables \<Rightarrow> 'p tables" where
  "drop_issue i t = t\<lparr>
     t_issues := (t_issues t)(i := None),
     t_comments := delete_where (\<lambda>_ r. cr_issue_id r = i) (t_comments t),
     t_attachments := delete_where (\<lambda>_ r. at_issue_id r = i) (t_attachments t),
     t_worklogs := delete_where (\<lambda>_ r. wr_issue_id r = i) (t_worklogs t),
     t_sprint_issues := delete_where (\<lambda>k _. snd k = i) (t_sprint_issues t),
     t_watchers := {w \<in> t_watchers t. fst w \<noteq> i},
     t_issue_links := delete_where (\<lambda>_ r. lr_inward_id r = i \<or> lr_outward_id r = i) (t_issue_links t)\<rparr>"

definition applyIssueLink :: "'p codec \<Rightarrow> 'p action \<Rightarrow> 'p tables \<Rightarrow> 'p applied" where
  "applyIssueLink c a t = (case a_op a of
     OpUpsert \<Rightarrow> (case dec_link c (a_payload a) of
         None \<Rightarrow> Inl DecodeError
       | Some (i, r) \<Rightarrow> Inr (t\<lparr>t_issue_links := (t_issue_links t)(i \<mapsto> r)\<rparr>, [lr_inward_id r, lr_outward_id r]))
   | OpDelete \<Rightarrow> (case dec_link_delete c (a_payload a) of
         None \<Rightarrow> Inl DecodeError
       | Some (_, inward, outward) \<Rightarrow>
           Inr (t\<lparr>t_issue_links := (t_issue_links t)(a_entity_id a := None)\<rparr>, [inward, outward]))
   | OpOther _ \<Rightarrow> Inr (t, []))"

definition applyTombstone :: "'p codec \<Rightarrow> 'p action \<Rightarrow> 'p tables \<Rightarrow> 'p applied" where
  "applyTombstone c a t = (case dec_tombstone c (a_payload a) of
     None \<Rightarrow> Inl DecodeError
   | Some i \<Rightarrow> if i = [] then Inr (t, []) else Inr (drop_issue i t, [i]))"

definition applyBoard :: "'p codec \<Rightarrow> 'p action \<Rightarrow> 'p tables \<Rightarrow> 'p applied" where
  "applyBoard c a t =
     (if a_op a \<noteq> OpUpsert then Inr (t\<lparr>t_boards := (t_boards t)(a_entity_id a := None)\<rparr>, [])
      else case dec_board c (a_payload a) of
        None \<Rightarrow> Inl DecodeError
      | Some b \<Rightarrow> (case (enc_value c (wb_quick_filters b), enc_value c (wb_card_fields b), enc_value c (wb_columns b)) of
          (Some q, Some f, Some k) \<Rightarrow>
            Inr (t\<lparr>t_boards := (t_boards t)(wb_id b \<mapsto>
              \<lparr>br_project_id = wb_project_id b, br_name = wb_name b, br_type = wb_type b,
               br_quick_filters = q, br_swimlane = wb_swimlane b, br_card_fields = f, br_columns = k\<rparr>)\<rparr>, [])
        | _ \<Rightarrow> Inl EncodeError))"

definition applySprint :: "'p codec \<Rightarrow> 'p action \<Rightarrow> 'p tables \<Rightarrow> 'p applied" where
  "applySprint c a t =
     (if a_op a \<noteq> OpUpsert then Inr (t\<lparr>t_sprints := (t_sprints t)(a_entity_id a := None)\<rparr>, [])
      else case dec_sprint c (a_payload a) of
        None \<Rightarrow> Inl DecodeError
      | Some (i, r) \<Rightarrow> Inr (t\<lparr>t_sprints := (t_sprints t)(i \<mapsto> r)\<rparr>, []))"

definition applySprintIssue :: "'p codec \<Rightarrow> 'p action \<Rightarrow> 'p tables \<Rightarrow> 'p applied" where
  "applySprintIssue c a t = (case dec_sprint_issue c (a_payload a) of
     None \<Rightarrow> Inl DecodeError
   | Some (sprint, issue, rank) \<Rightarrow> (case a_op a of
       OpUpsert \<Rightarrow> Inr (t\<lparr>t_sprint_issues := (t_sprint_issues t)((sprint, issue) \<mapsto> rank)\<rparr>, [])
     | OpDelete \<Rightarrow> Inr (t\<lparr>t_sprint_issues := (t_sprint_issues t)((sprint, issue) := None)\<rparr>, [])
     | OpOther _ \<Rightarrow> Inr (t, [])))"

definition applyWatcher :: "'p codec \<Rightarrow> 'p action \<Rightarrow> 'p tables \<Rightarrow> 'p applied" where
  "applyWatcher c a t = (case dec_watcher c (a_payload a) of
     None \<Rightarrow> Inl DecodeError
   | Some w \<Rightarrow> (case a_op a of
       OpUpsert \<Rightarrow> Inr (t\<lparr>t_watchers := insert w (t_watchers t)\<rparr>, [])
     | OpDelete \<Rightarrow> Inr (t\<lparr>t_watchers := t_watchers t - {w}\<rparr>, [])
     | OpOther _ \<Rightarrow> Inr (t, [])))"

definition applyNotification :: "'p codec \<Rightarrow> 'p action \<Rightarrow> 'p tables \<Rightarrow> 'p applied" where
  "applyNotification c a t =
     (if a_op a \<noteq> OpUpsert then Inr (t\<lparr>t_notifications := (t_notifications t)(a_entity_id a := None)\<rparr>, [])
      else case dec_notification c (a_payload a) of
        None \<Rightarrow> Inl DecodeError
      | Some (i, r) \<Rightarrow> Inr (t\<lparr>t_notifications := (t_notifications t)(i \<mapsto> r)\<rparr>, []))"

definition applyAttachment :: "'p codec \<Rightarrow> 'p action \<Rightarrow> 'p tables \<Rightarrow> 'p applied" where
  "applyAttachment c a t = (case a_op a of
     OpUpsert \<Rightarrow> (case dec_attachment c (a_payload a) of
         None \<Rightarrow> Inl DecodeError
       | Some (i, r) \<Rightarrow> if i = [] then Inr (t, [])
           else Inr (t\<lparr>t_attachments := (t_attachments t)(i \<mapsto> r)\<rparr>, [at_issue_id r]))
   | OpDelete \<Rightarrow> (case dec_attachment_delete c (a_payload a) of
         None \<Rightarrow> Inl DecodeError
       | Some (i, issue) \<Rightarrow> if i = [] \<or> issue = [] then Inl IncompletePayload
           else Inr (t\<lparr>t_attachments := (t_attachments t)(i := None)\<rparr>, [issue]))
   | OpOther _ \<Rightarrow> Inr (t, []))"

definition applyWorklog :: "'p codec \<Rightarrow> 'p action \<Rightarrow> 'p tables \<Rightarrow> 'p applied" where
  "applyWorklog c a t = (case a_op a of
     OpUpsert \<Rightarrow> (case dec_worklog c (a_payload a) of
         None \<Rightarrow> Inl DecodeError
       | Some (i, w) \<Rightarrow> if i = [] then Inr (t, [])
           else let previous = (case t_worklogs t i of None \<Rightarrow> [] | Some r \<Rightarrow> wr_issue_id r);
                    w' = (if wr_started w = [] then w\<lparr>wr_started := wr_created w\<rparr> else w)
                in Inr (t\<lparr>t_worklogs := (t_worklogs t)(i \<mapsto> w')\<rparr>,
                     if previous \<noteq> [] \<and> previous \<noteq> wr_issue_id w then [previous, wr_issue_id w]
                     else [wr_issue_id w]))
   | OpDelete \<Rightarrow> (case dec_worklog_delete c (a_payload a) of
         None \<Rightarrow> Inl DecodeError
       | Some (i, issue) \<Rightarrow> if i = [] \<or> issue = [] then Inl IncompletePayload
           else Inr (t\<lparr>t_worklogs := (t_worklogs t)(i := None)\<rparr>, [issue]))
   | OpOther _ \<Rightarrow> Inr (t, []))"

definition applyComment :: "'p codec \<Rightarrow> 'p action \<Rightarrow> 'p tables \<Rightarrow> 'p applied" where
  "applyComment c a t = (case a_op a of
     OpUpsert \<Rightarrow> (case dec_comment c (a_payload a) of
         None \<Rightarrow> Inl DecodeError
       | Some (i, r) \<Rightarrow> if i = [] then Inr (t, [])
           else Inr (t\<lparr>t_comments := (t_comments t)(i \<mapsto> r\<lparr>cr_local := False\<rparr>)\<rparr>, [cr_issue_id r]))
   | OpDelete \<Rightarrow> (case dec_comment_delete c (a_payload a) of
         None \<Rightarrow> Inl DecodeError
       | Some (i, issue) \<Rightarrow> if i = [] \<or> issue = [] then Inl IncompletePayload
           else Inr (t\<lparr>t_comments := (t_comments t)(i := None)\<rparr>, [issue]))
   | OpOther _ \<Rightarrow> Inr (t, []))"

definition userID :: "person option \<Rightarrow> string" where
  "userID u = (case u of None \<Rightarrow> [] | Some p \<Rightarrow> p_id p)"

definition userName :: "person option \<Rightarrow> string" where
  "userName u = (case u of None \<Rightarrow> [] | Some p \<Rightarrow> p_name p)"

definition priorityName :: "'p wire_issue \<Rightarrow> string" where
  "priorityName i = (case wi_priority i of None \<Rightarrow> [] | Some n \<Rightarrow> n)"

definition issue_row_of :: "'p wire_issue \<Rightarrow> string \<Rightarrow> string \<Rightarrow> issue_row" where
  "issue_row_of i fjson ljson = (case wi_status i of (sid, sname, scat) \<Rightarrow>
     \<lparr>ir_project_id = wi_project_id i, ir_key = wi_key i, ir_summary = wi_summary i,
      ir_description = wi_description i, ir_fields = fjson, ir_labels = ljson,
      ir_status_id = sid, ir_status_name = sname, ir_status_category = scat,
      ir_issuetype_name = wi_issuetype_name i, ir_priority_name = priorityName i,
      ir_assignee_id = userID (wi_assignee i), ir_assignee_name = userName (wi_assignee i),
      ir_reporter_id = userID (wi_reporter i), ir_reporter_name = userName (wi_reporter i),
      ir_updated_seq = wi_updated_seq i, ir_updated_at = wi_updated_at i\<rparr>)"

definition applyIssue :: "'p codec \<Rightarrow> 'p action \<Rightarrow> 'p tables \<Rightarrow> 'p applied" where
  "applyIssue c a t = (case a_op a of
     OpDelete \<Rightarrow> Inr (drop_issue (a_entity_id a) t, [a_entity_id a])
   | OpUpsert \<Rightarrow> (case dec_issue c (a_payload a) of
         None \<Rightarrow> Inl DecodeError
       | Some i \<Rightarrow> if wi_id i = [] then Inr (t, [])
           else (case (if wi_fields i = [] then Some ''{}'' else enc_fields c (wi_fields i), enc_labels c (wi_labels i)) of
               (Some f, Some l) \<Rightarrow> Inr (t\<lparr>t_issues := (t_issues t)(wi_id i \<mapsto> issue_row_of i f l)\<rparr>, [wi_id i])
             | _ \<Rightarrow> Inl EncodeError))
   | OpOther _ \<Rightarrow> Inr (t, []))"

text \<open>\<open>INSERT OR IGNORE INTO actions\<close>: a row with the same sequence number stays.\<close>

definition log_action :: "'p action \<Rightarrow> 'p tables \<Rightarrow> 'p tables" where
  "log_action a t = (case t_actions t (a_seq a) of
     None \<Rightarrow> t\<lparr>t_actions := (t_actions t)(a_seq a \<mapsto> a)\<rparr> | Some _ \<Rightarrow> t)"

definition apply_action :: "'p codec \<Rightarrow> 'p action \<Rightarrow> 'p tables \<Rightarrow> 'p applied" where
  "apply_action c a t0 = (let t = log_action a t0 in case a_entity a of
     EntityIssue \<Rightarrow> applyIssue c a t
   | EntityComment \<Rightarrow> applyComment c a t
   | EntityAttachment \<Rightarrow> applyAttachment c a t
   | EntityWorklog \<Rightarrow> applyWorklog c a t
   | EntityBoard \<Rightarrow> applyBoard c a t
   | EntitySprint \<Rightarrow> applySprint c a t
   | EntitySprintIssue \<Rightarrow> applySprintIssue c a t
   | EntityWatcher \<Rightarrow> applyWatcher c a t
   | EntityNotification \<Rightarrow> applyNotification c a t
   | EntityTombstone \<Rightarrow> applyTombstone c a t
   | EntityIssueLink \<Rightarrow> applyIssueLink c a t
   | EntityOther _ \<Rightarrow> Inr (t, []))"

lemmas handler_defs = applyIssue_def applyComment_def applyAttachment_def applyWorklog_def
  applyBoard_def applySprint_def applySprintIssue_def applyWatcher_def applyNotification_def
  applyTombstone_def applyIssueLink_def

section \<open>Properties of the handlers\<close>

text \<open>No row of any table that belongs to an issue names the issue \<open>i\<close>.\<close>

definition issue_gone :: "string \<Rightarrow> 'p tables \<Rightarrow> bool" where
  "issue_gone i t \<longleftrightarrow> t_issues t i = None \<and>
     (\<forall>k r. t_comments t k = Some r \<longrightarrow> cr_issue_id r \<noteq> i) \<and>
     (\<forall>k r. t_attachments t k = Some r \<longrightarrow> at_issue_id r \<noteq> i) \<and>
     (\<forall>k r. t_worklogs t k = Some r \<longrightarrow> wr_issue_id r \<noteq> i) \<and>
     (\<forall>s. t_sprint_issues t (s, i) = None) \<and>
     (\<forall>u. (i, u) \<notin> t_watchers t) \<and>
     (\<forall>k r. t_issue_links t k = Some r \<longrightarrow> lr_inward_id r \<noteq> i \<and> lr_outward_id r \<noteq> i)"

lemma drop_issue_gone: "issue_gone i (drop_issue i t)"
  by (auto simp: issue_gone_def drop_issue_def)


text \<open>A codec that reads no payload but tombstones, whose payload is the issue id.\<close>

definition demo_codec :: "string codec" where
  "demo_codec = \<lparr>dec_issue = (\<lambda>_. None), dec_comment = (\<lambda>_. None), dec_comment_delete = (\<lambda>_. None),
     dec_attachment = (\<lambda>_. None), dec_attachment_delete = (\<lambda>_. None), dec_worklog = (\<lambda>_. None),
     dec_worklog_delete = (\<lambda>_. None), dec_board = (\<lambda>_. None), dec_sprint = (\<lambda>_. None),
     dec_sprint_issue = (\<lambda>_. None), dec_watcher = (\<lambda>p. Some (p, ''u1'')), dec_notification = (\<lambda>_. None),
     dec_tombstone = (\<lambda>p. Some p), dec_link = (\<lambda>_. None), dec_link_delete = (\<lambda>_. None),
     enc_fields = (\<lambda>_. Some ''{}''), enc_labels = (\<lambda>_. Some ''[]''), enc_value = (\<lambda>p. Some p)\<rparr>"

definition demo_tombstone :: "string action" where
  "demo_tombstone = \<lparr>a_seq = 7, a_entity = EntityTombstone, a_entity_id = ''t1'', a_op = OpUpsert, a_payload = ''i1''\<rparr>"


end
