(* ===== verification/ReplicaSync.thy ===== *)
theory ReplicaSync
  imports ReplicaStore
begin

text \<open>
  Delta sync: the client's \<open>syncOnce\<close>, outbox and maintenance pass (\<open>cmd/client/main.go\<close>), the
  status policy they share (\<open>internal/syncclient/policy.go\<close>), and the server's page of the action
  log (\<open>ActionPageSince\<close> in \<open>internal/store/store.go\<close>, the handler in \<open>internal/syncapi\<close>).
  The SQLite transaction is the record update at the end: a batch that fails part way returns the
  replica it started from. Who may see an action, and how it is shaped for that reader, is a
  function \<open>see\<close>; HTTP replies are values.
\<close>

section \<open>Status policy\<close>

datatype outbox_disposition = OutboxRetry | OutboxAccepted | OutboxRejected

definition DispositionForStatus :: "int \<Rightarrow> outbox_disposition" where
  "DispositionForStatus status =
     (if 200 \<le> status \<and> status < 300 then OutboxAccepted
      else if status = 408 \<or> status = 425 \<or> status = 429 \<or> 500 \<le> status then OutboxRetry
      else if 400 \<le> status \<and> status < 500 then OutboxRejected
      else OutboxRetry)"

datatype sync_disposition = SyncRetry | SyncAccepted | SyncRevoked

definition DispositionForSyncStatus :: "int \<Rightarrow> sync_disposition" where
  "DispositionForSyncStatus status =
     (if status = 200 \<or> status = 304 then SyncAccepted
      else if status = 401 \<or> status = 403 then SyncRevoked
      else SyncRetry)"

section \<open>The replica\<close>

record command =
  c_id :: nat
  c_method :: string
  c_path :: string
  c_body :: string
  c_refused :: int

text \<open>The \<open>meta\<close> keys \<open>checkpoint\<close> and \<open>server_head\<close>, and the outbox with its next row id.\<close>

record 'p replica =
  r_tables :: "'p tables"
  r_checkpoint :: "int option"
  r_server_head :: "int option"
  r_outbox :: "command list"
  r_next_id :: nat

definition fresh_replica :: "'p replica" where
  "fresh_replica = \<lparr>r_tables = empty_tables, r_checkpoint = None, r_server_head = None,
     r_outbox = [], r_next_id = 1\<rparr>"

definition checkpoint :: "'p replica \<Rightarrow> int" where
  "checkpoint r = (case r_checkpoint r of None \<Rightarrow> 0 | Some n \<Rightarrow> n)"

definition purgePrivateReplica :: "'p replica \<Rightarrow> 'p replica" where
  "purgePrivateReplica r = r\<lparr>r_tables := empty_tables, r_checkpoint := None, r_server_head := None, r_outbox := []\<rparr>"

section \<open>\<open>syncOnce\<close>\<close>

record 'p sync_response =
  s_from :: int
  s_to :: int
  s_head :: int
  s_actions :: "'p action list"

text \<open>The reply to \<open>GET /sync\<close>: no connection, a body that cannot be read, or a status with the
  decoded body (None when it is not a sync response).\<close>

datatype 'p sync_reply = Unreachable | BodyUnreadable | Reply int "'p sync_response option"

fun apply_batch :: "'p codec \<Rightarrow> int \<Rightarrow> int \<Rightarrow> 'p action list \<Rightarrow> 'p tables \<Rightarrow> 'p tables option" where
  "apply_batch c lastSeq to [] t = Some t"
| "apply_batch c lastSeq to (a # as) t =
     (if a_seq a \<le> lastSeq \<or> to < a_seq a then None
      else case apply_action c a t of
        Inl _ \<Rightarrow> None
      | Inr (t', _) \<Rightarrow> apply_batch c (a_seq a) to as t')"

definition syncOnce :: "'p codec \<Rightarrow> 'p sync_reply \<Rightarrow> 'p replica \<Rightarrow> sync_disposition \<times> 'p replica" where
  "syncOnce c reply r = (case reply of
     Unreachable \<Rightarrow> (SyncRetry, r)
   | BodyUnreadable \<Rightarrow> (SyncRetry, r)
   | Reply status body \<Rightarrow>
       if status = 304 then (SyncAccepted, r)
       else if DispositionForSyncStatus status = SyncRevoked then (SyncRevoked, purgePrivateReplica r)
       else if status \<noteq> 200 then (SyncRetry, r)
       else case body of
         None \<Rightarrow> (SyncRetry, r)
       | Some delta \<Rightarrow>
           if s_from delta \<noteq> checkpoint r \<or> s_to delta < checkpoint r \<or> s_head delta < s_to delta then (SyncRetry, r)
           else case apply_batch c (checkpoint r) (s_to delta) (s_actions delta) (r_tables r) of
             None \<Rightarrow> (SyncRetry, r)
           | Some t \<Rightarrow> (SyncAccepted, r\<lparr>r_tables := t, r_checkpoint := Some (s_to delta),
                          r_server_head := Some (s_head delta)\<rparr>))"

section \<open>The outbox\<close>

definition enqueue :: "string \<Rightarrow> string \<Rightarrow> string \<Rightarrow> 'p replica \<Rightarrow> 'p replica" where
  "enqueue m p b r = r\<lparr>r_outbox := r_outbox r @ [\<lparr>c_id = r_next_id r, c_method = m, c_path = p, c_body = b, c_refused = 0\<rparr>],
     r_next_id := Suc (r_next_id r)\<rparr>"

text \<open>\<open>SELECT ... FROM outbox ORDER BY id LIMIT 1\<close>\<close>

fun oldest :: "command list \<Rightarrow> command option" where
  "oldest [] = None"
| "oldest (c # cs) = (case oldest cs of None \<Rightarrow> Some c | Some d \<Rightarrow> Some (if c_id d < c_id c then d else c))"

definition outboxSize :: "'p replica \<Rightarrow> nat" where
  "outboxSize r = length (r_outbox r)"

text \<open>\<open>reply\<close> is None when the request could not be sent or answered.\<close>

definition drainOutbox :: "int option \<Rightarrow> 'p replica \<Rightarrow> bool \<times> nat \<times> 'p replica" where
  "drainOutbox reply r =
     (let n = outboxSize r in
      case oldest (r_outbox r) of
        None \<Rightarrow> (False, 0, r)
      | Some cmd \<Rightarrow>
          if c_refused cmd \<noteq> 0 then (False, n, r)
          else case reply of
            None \<Rightarrow> (False, n, r)
          | Some status \<Rightarrow> (case DispositionForStatus status of
              OutboxAccepted \<Rightarrow> (True, n - 1, r\<lparr>r_outbox := filter (\<lambda>x. c_id x \<noteq> c_id cmd) (r_outbox r)\<rparr>)
            | OutboxRejected \<Rightarrow> (False, n, r\<lparr>r_outbox :=
                map (\<lambda>x. if c_id x = c_id cmd then x\<lparr>c_refused := status\<rparr> else x) (r_outbox r)\<rparr>)
            | OutboxRetry \<Rightarrow> (False, n, r)))"

text \<open>The page's \<open>retry-outbox\<close> message.\<close>

definition retryOutbox :: "'p replica \<Rightarrow> 'p replica" where
  "retryOutbox r = (case oldest (r_outbox r) of
     None \<Rightarrow> r
   | Some cmd \<Rightarrow> r\<lparr>r_outbox := map (\<lambda>x. if c_id x = c_id cmd then x\<lparr>c_refused := 0\<rparr> else x) (r_outbox r)\<rparr>)"

text \<open>The offline comment \<open>applyOptimistic\<close> inserts while its command waits in the outbox; the new
  row's id is \<open>local_\<close> followed by the time.\<close>

definition applyOptimisticComment :: "string \<Rightarrow> string \<Rightarrow> string \<Rightarrow> string \<Rightarrow> 'p replica \<Rightarrow> 'p replica" where
  "applyOptimisticComment nanos currentView doc now r =
     r\<lparr>r_tables := (r_tables r)\<lparr>t_comments := (t_comments (r_tables r))(''local_'' @ nanos \<mapsto>
       \<lparr>cr_issue_id = currentView, cr_author_id = [], cr_author_name = ''You (offline)'',
        cr_body = doc, cr_created = now, cr_local = True\<rparr>)\<rparr>\<rparr>"

section \<open>The server's page\<close>

text \<open>The workspace's log is the list of its actions; \<open>to\<close> is the last sequence number scanned.\<close>

definition scanned :: "'p action list \<Rightarrow> int \<Rightarrow> nat \<Rightarrow> 'p action list" where
  "scanned log since limit = take limit (filter (\<lambda>a. since < a_seq a) (sort_key a_seq log))"

definition page_end :: "'p action list \<Rightarrow> int \<Rightarrow> nat \<Rightarrow> int" where
  "page_end log since limit = foldr (\<lambda>a m. max (a_seq a) m) (scanned log since limit) since"

definition ActionPageSince ::
  "('p action \<Rightarrow> 'p action option) \<Rightarrow> 'p action list \<Rightarrow> int \<Rightarrow> nat \<Rightarrow> 'p action list \<times> int" where
  "ActionPageSince see log since limit =
     (let to = page_end log since limit in
      if to = since then ([], to)
      else (List.map_filter see (filter (\<lambda>a. since < a_seq a \<and> a_seq a \<le> to) (sort_key a_seq log)), to))"

text \<open>The handler once the caller may see the workspace. The head is read before the page and
  again after it, since actions may commit in between; a failed read is answered 500.\<close>

definition sync_reply_for ::
  "('p action \<Rightarrow> 'p action option) \<Rightarrow> 'p action list \<Rightarrow> int option \<Rightarrow> int option \<Rightarrow> int \<Rightarrow> nat \<Rightarrow> 'p sync_reply" where
  "sync_reply_for see log head1 head2 since limit =
     (case head1 of
        None \<Rightarrow> Reply 500 None
      | Some h1 \<Rightarrow>
          if h1 \<le> since then Reply 304 None
          else case ActionPageSince see log since limit of
            (acts, to) \<Rightarrow> (case head2 of
                None \<Rightarrow> Reply 500 None
              | Some h2 \<Rightarrow> Reply 200 (Some \<lparr>s_from = since, s_to = to, s_head = h2, s_actions = acts\<rparr>)))"

text \<open>The whole handler: method, caller (None is unidentified), whether the named workspace exists,
  whether the caller may see it (None is a failed lookup), then the page.\<close>

definition ServeSync ::
  "bool \<Rightarrow> string option \<Rightarrow> bool \<Rightarrow> (string \<Rightarrow> bool option) \<Rightarrow> (string \<Rightarrow> 'p action \<Rightarrow> 'p action option) \<Rightarrow>
   'p action list \<Rightarrow> int option \<Rightarrow> int option \<Rightarrow> int \<Rightarrow> int option \<Rightarrow> 'p sync_reply" where
  "ServeSync is_get user workspace_known member see log head1 head2 since limit =
     (if \<not> is_get then Reply 405 None
      else case user of
        None \<Rightarrow> Reply 401 None
      | Some u \<Rightarrow>
          if \<not> workspace_known then Reply 404 None
          else case member u of
            None \<Rightarrow> Reply 500 None
          | Some False \<Rightarrow> Reply 403 None
          | Some True \<Rightarrow> sync_reply_for (see u) log head1 head2 since
              (case limit of None \<Rightarrow> 500 | Some v \<Rightarrow> if 0 < v \<and> v \<le> 1000 then nat v else 500))"

section \<open>Replay\<close>

text \<open>The abstract replica: the log replayed action by action.\<close>

definition replay :: "'p codec \<Rightarrow> 'p action list \<Rightarrow> 'p tables \<Rightarrow> 'p tables" where
  "replay c as t = foldl (\<lambda>t a. case apply_action c a t of Inr (t', _) \<Rightarrow> t' | Inl _ \<Rightarrow> t) t as"

definition readable :: "'p codec \<Rightarrow> 'p action \<Rightarrow> bool" where
  "readable c a \<longleftrightarrow> (case apply_action c a empty_tables of Inl _ \<Rightarrow> False | Inr _ \<Rightarrow> True)"

lemma isl_cong_sum: "(case x of Inl _ \<Rightarrow> False | Inr _ \<Rightarrow> True) \<longleftrightarrow> (\<exists>y. x = Inr y)"
  by (cases x) auto

text \<open>Whether a handler fails depends on the action only, never on the tables.\<close>

lemma apply_action_readable: "(\<exists>y. apply_action c a t = Inr y) \<longleftrightarrow> readable c a"
  unfolding readable_def isl_cong_sum
  by (cases "a_entity a"; cases "a_op a")
    (auto simp: apply_action_def handler_defs Let_def split: option.splits if_splits)

lemma apply_batch_sound:
  "apply_batch c lastSeq to as t = Some t' \<Longrightarrow>
   t' = replay c as t \<and> sorted_wrt (<) (map a_seq as) \<and> (\<forall>a \<in> set as. lastSeq < a_seq a \<and> a_seq a \<le> to)"
proof (induction c lastSeq to as t rule: apply_batch.induct)
  case (2 c lastSeq to a as t)
  then show ?case
    by (fastforce simp: replay_def split: if_splits sum.splits prod.splits)
qed (simp add: replay_def)

lemma apply_batch_complete:
  "sorted_wrt (<) (map a_seq as) \<Longrightarrow> \<forall>a \<in> set as. lastSeq < a_seq a \<and> a_seq a \<le> to \<and> readable c a \<Longrightarrow>
   apply_batch c lastSeq to as t = Some (replay c as t)"
proof (induction as arbitrary: lastSeq t)
  case (Cons a as)
  then obtain t' ids where step: "apply_action c a t = Inr (t', ids)"
    using apply_action_readable [of c a t] by (metis list.set_intros(1) surj_pair)
  from Cons have "apply_batch c (a_seq a) to as t' = Some (replay c as t')" by auto
  with step Cons.prems show ?case by (auto simp: replay_def)
qed (simp add: replay_def)

lemma replay_append: "replay c (xs @ ys) t = replay c ys (replay c xs t)"
  by (simp add: replay_def)

end
