(* ===== verification/ReplicaProofs.thy ===== *)
theory ReplicaProofs
  imports ReplicaSync
begin

text \<open>
  What delta sync promises: an attempt either leaves the replica alone, advances it by a whole
  ordered batch, or empties it; against the server's pages the replica's tables always are the
  reader's log replayed up to the checkpoint, and enough rounds catch up with the head; the
  outbox is a queue whose commands leave only when the server accepted them.
\<close>

section \<open>One attempt\<close>

lemma purge_fields [simp]:
  "r_tables (purgePrivateReplica r) = empty_tables" "r_checkpoint (purgePrivateReplica r) = None"
  "r_outbox (purgePrivateReplica r) = []" "r_next_id (purgePrivateReplica r) = r_next_id r"
  by (simp_all add: purgePrivateReplica_def)

lemma syncOnce_cases:
  assumes "syncOnce c reply r = (d, r')"
  shows "d = SyncRetry \<and> r' = r \<or> d = SyncRevoked \<and> r' = purgePrivateReplica r \<or>
    d = SyncAccepted \<and> (r' = r \<or> (\<exists>to h as t. checkpoint r \<le> to \<and>
      apply_batch c (checkpoint r) to as (r_tables r) = Some t \<and>
      r' = r\<lparr>r_tables := t, r_checkpoint := Some to, r_server_head := Some h\<rparr>))"
proof (cases "\<exists>delta. reply = Reply 200 (Some delta)")
  case False
  with assms show ?thesis
    by (auto simp: syncOnce_def split: sync_reply.splits if_splits option.splits)
next
  case True
  then obtain delta where reply: "reply = Reply 200 (Some delta)" by blast
  show ?thesis
  proof (cases "s_from delta \<noteq> checkpoint r \<or> s_to delta < checkpoint r \<or> s_head delta < s_to delta")
    case True
    with assms reply show ?thesis by (auto simp: syncOnce_def DispositionForSyncStatus_def)
  next
    case False
    show ?thesis
    proof (cases "apply_batch c (checkpoint r) (s_to delta) (s_actions delta) (r_tables r)")
      case None
      with assms reply show ?thesis by (auto simp: syncOnce_def DispositionForSyncStatus_def split: if_splits)
    next
      case (Some t)
      with assms reply False have "d = SyncAccepted"
        "r' = r\<lparr>r_tables := t, r_checkpoint := Some (s_to delta), r_server_head := Some (s_head delta)\<rparr>"
        by (auto simp: syncOnce_def DispositionForSyncStatus_def)
      with Some False show ?thesis by (metis not_less)
    qed
  qed
qed

text \<open>Property C13: a sync attempt that asks for a retry leaves the whole replica as it was; one that
  is refused with 401 or 403 empties the tables, the checkpoint and the outbox; an accepted one
  keeps the outbox, never moves the checkpoint back, and its tables are the old ones with a batch
  replayed whose sequence numbers increase strictly within (old checkpoint, new checkpoint].\<close>

theorem syncOnce_outcomes:
  assumes "syncOnce c reply r = (d, r')"
  shows "case d of
      SyncRetry \<Rightarrow> r' = r
    | SyncRevoked \<Rightarrow> r_tables r' = empty_tables \<and> r_checkpoint r' = None \<and> r_outbox r' = []
    | SyncAccepted \<Rightarrow> r_outbox r' = r_outbox r \<and> checkpoint r \<le> checkpoint r' \<and>
        (\<exists>as. r_tables r' = replay c as (r_tables r) \<and> sorted_wrt (<) (map a_seq as) \<and>
          (\<forall>a \<in> set as. checkpoint r < a_seq a \<and> a_seq a \<le> checkpoint r'))"
proof -
  consider "d = SyncRetry" "r' = r" | "d = SyncRevoked" "r' = purgePrivateReplica r"
    | "d = SyncAccepted" "r' = r"
    | to h as t where "d = SyncAccepted" "checkpoint r \<le> to"
      "apply_batch c (checkpoint r) to as (r_tables r) = Some t"
      "r' = r\<lparr>r_tables := t, r_checkpoint := Some to, r_server_head := Some h\<rparr>"
    using syncOnce_cases [OF assms] by blast
  then show ?thesis
  proof cases
    case 3
    then have "r_tables r' = replay c [] (r_tables r)" by (simp add: replay_def)
    with 3 show ?thesis by (auto intro!: exI [of _ "[]"])
  next
    case 4
    with apply_batch_sound [OF 4(3)] show ?thesis by (auto simp: checkpoint_def)
  qed simp_all
qed

text \<open>A reply the client must refuse: the second action goes back in the log.\<close>

definition demo_watch :: "int \<Rightarrow> string \<Rightarrow> string action" where
  "demo_watch s i = \<lparr>a_seq = s, a_entity = EntityWatcher, a_entity_id = [], a_op = OpUpsert, a_payload = i\<rparr>"

theorem syncOnce_outcomes_witness:
  "case syncOnce demo_codec (Reply 200 (Some \<lparr>s_from = 0, s_to = 4, s_head = 9, s_actions = [demo_watch 2 ''i1'', demo_watch 1 ''i2'']\<rparr>))
      fresh_replica of (d, r') \<Rightarrow> d = SyncRetry \<and> r' = fresh_replica"
proof -
  let ?s = "syncOnce demo_codec (Reply 200 (Some \<lparr>s_from = 0, s_to = 4, s_head = 9,
    s_actions = [demo_watch 2 ''i1'', demo_watch 1 ''i2'']\<rparr>)) fresh_replica"
  have d: "fst ?s = SyncRetry"
    by (simp add: syncOnce_def DispositionForSyncStatus_def fresh_replica_def checkpoint_def demo_watch_def
        apply_action_def applyWatcher_def demo_codec_def log_action_def empty_tables_def)
  have "?s = (fst ?s, snd ?s)" by simp
  from syncOnce_outcomes [OF this] d have "snd ?s = fresh_replica" by simp
  with d show ?thesis by (simp add: case_prod_beta)
qed

section \<open>Against the server's log\<close>

text \<open>One reader's view of a workspace: the log, its head, what the reader sees of an action, and
  the page size.\<close>

record 'p server =
  sv_log :: "'p action list"
  sv_head :: int
  sv_see :: "'p action \<Rightarrow> 'p action option"
  sv_limit :: nat

text \<open>Sequence numbers are distinct, positive, at most the head, and the head is the last action's:
  every write appends its action and raises \<open>workspaces.seq\<close> in one transaction. Shaping an
  action for a reader keeps its number.\<close>

definition keeps_seq :: "('p action \<Rightarrow> 'p action option) \<Rightarrow> 'p action \<Rightarrow> bool" where
  "keeps_seq f a \<longleftrightarrow> (case f a of None \<Rightarrow> True | Some b \<Rightarrow> a_seq b = a_seq a)"

lemma keeps_seqD: "keeps_seq f a \<Longrightarrow> f a = Some b \<Longrightarrow> a_seq b = a_seq a"
  by (simp add: keeps_seq_def)

definition log_ok :: "'p server \<Rightarrow> bool" where
  "log_ok sv \<longleftrightarrow> distinct (map a_seq (sv_log sv)) \<and>
     (\<forall>a \<in> set (sv_log sv). 0 < a_seq a \<and> a_seq a \<le> sv_head sv \<and>
        keeps_seq (sv_see sv) a) \<and>
     sv_head sv = foldr (\<lambda>a m. max (a_seq a) m) (sv_log sv) 0 \<and> 0 < sv_limit sv"

definition history :: "'p server \<Rightarrow> 'p action list" where
  "history sv = List.map_filter (sv_see sv) (sort_key a_seq (sv_log sv))"

definition serve :: "'p server \<Rightarrow> int \<Rightarrow> 'p sync_reply" where
  "serve sv since = sync_reply_for (sv_see sv) (sv_log sv) (Some (sv_head sv)) (Some (sv_head sv)) since (sv_limit sv)"

text \<open>The refinement relation: the tables are the reader's history replayed up to the checkpoint.\<close>

definition synced :: "'p codec \<Rightarrow> 'p action list \<Rightarrow> 'p replica \<Rightarrow> bool" where
  "synced c h r \<longleftrightarrow> 0 \<le> checkpoint r \<and>
     r_tables r = replay c (filter (\<lambda>a. a_seq a \<le> checkpoint r) h) empty_tables"

definition sync_round :: "'p codec \<Rightarrow> ('s \<Rightarrow> int \<Rightarrow> 'p sync_reply) \<Rightarrow> 's \<Rightarrow> 'p replica \<Rightarrow> 'p replica" where
  "sync_round c source s r = snd (syncOnce c (source s (checkpoint r)) r)"

text \<open>
  The interface between the client and the sync endpoint: a caught-up client is told so;
  otherwise the page starts at the client's checkpoint, makes progress, stays within the head,
  and holds exactly the part of an ordered history that it covers.
\<close>

locale sync_source =
  fixes source :: "'s \<Rightarrow> int \<Rightarrow> 'p sync_reply"
    and hist :: "'s \<Rightarrow> 'p action list"
    and head :: "'s \<Rightarrow> int"
    and honest :: "'s \<Rightarrow> bool"
  assumes caught_up: "honest s \<Longrightarrow> head s \<le> since \<Longrightarrow> source s since = Reply 304 None"
    and page: "honest s \<Longrightarrow> 0 \<le> since \<Longrightarrow> since < head s \<Longrightarrow>
      \<exists>to > since. to \<le> head s \<and> source s since = Reply 200 (Some \<lparr>s_from = since, s_to = to,
        s_head = head s, s_actions = filter (\<lambda>a. since < a_seq a \<and> a_seq a \<le> to) (hist s)\<rparr>)"
    and ordered: "honest s \<Longrightarrow> sorted_wrt (<) (map a_seq (hist s))"
begin

lemma filter_split:
  assumes "sorted_wrt (<) (map a_seq h)" and "(a::int) \<le> b"
  shows "filter (\<lambda>x. a_seq x \<le> b) h =
    filter (\<lambda>x. a_seq x \<le> a) h @ filter (\<lambda>x. a < a_seq x \<and> a_seq x \<le> b) h"
  using assms
proof (induction h)
  case (Cons x h)
  show ?case
  proof (cases "a_seq x \<le> a")
    case True
    with Cons show ?thesis by auto
  next
    case False
    with Cons.prems have "\<forall>y \<in> set h. \<not> a_seq y \<le> a" by auto
    then have "filter (\<lambda>x. a_seq x \<le> a) h = []" by (simp add: filter_empty_conv)
    with False Cons show ?thesis by auto
  qed
qed simp

lemma round_step:
  assumes "honest s" "\<forall>a \<in> set (hist s). readable c a" "synced c (hist s) r"
  shows "synced c (hist s) (sync_round c source s r) \<and>
    checkpoint r \<le> checkpoint (sync_round c source s r) \<and>
    (checkpoint r < head s \<longrightarrow> checkpoint r < checkpoint (sync_round c source s r)) \<and>
    (checkpoint r \<le> head s \<longrightarrow> checkpoint (sync_round c source s r) \<le> head s)"
proof (cases "checkpoint r < head s")
  case False
  then have "sync_round c source s r = r"
    using caught_up [OF assms(1)] by (simp add: sync_round_def syncOnce_def)
  with False assms(3) show ?thesis by simp
next
  case True
  have nonneg: "0 \<le> checkpoint r" using assms(3) by (simp add: synced_def)
  obtain to where to: "checkpoint r < to" "to \<le> head s" and reply:
    "source s (checkpoint r) = Reply 200 (Some \<lparr>s_from = checkpoint r, s_to = to, s_head = head s,
      s_actions = filter (\<lambda>a. checkpoint r < a_seq a \<and> a_seq a \<le> to) (hist s)\<rparr>)"
    using page [OF assms(1) nonneg True] by blast
  let ?as = "filter (\<lambda>a. checkpoint r < a_seq a \<and> a_seq a \<le> to) (hist s)"
  have "sorted_wrt (<) (map a_seq ?as)"
    using ordered [OF assms(1)] by (simp add: sorted_wrt_map sorted_wrt_filter)
  then have batch: "apply_batch c (checkpoint r) to ?as (r_tables r) = Some (replay c ?as (r_tables r))"
    using assms(2) by (intro apply_batch_complete) auto
  have round: "sync_round c source s r = r\<lparr>r_tables := replay c ?as (r_tables r), r_checkpoint := Some to,
      r_server_head := Some (head s)\<rparr>"
    using to batch by (simp add: sync_round_def syncOnce_def reply DispositionForSyncStatus_def)
  moreover have "replay c ?as (r_tables r) = replay c (filter (\<lambda>a. a_seq a \<le> to) (hist s)) empty_tables"
    using assms(3) to filter_split [OF ordered [OF assms(1)], of "checkpoint r" to]
    by (simp add: synced_def replay_append)
  ultimately show ?thesis using to nonneg by (simp add: synced_def checkpoint_def)
qed

lemma rounds_synced:
  assumes "honest s" "\<forall>a \<in> set (hist s). readable c a" "synced c (hist s) r" "checkpoint r \<le> head s"
  shows "synced c (hist s) ((sync_round c source s ^^ n) r) \<and>
    checkpoint ((sync_round c source s ^^ n) r) \<le> head s \<and>
    head s - checkpoint ((sync_round c source s ^^ n) r) \<le> max 0 (head s - checkpoint r - int n)"
proof (induction n)
  case 0
  with assms show ?case by simp
next
  case (Suc n)
  with round_step [OF assms(1,2), of "(sync_round c source s ^^ n) r"] show ?case by auto
qed

lemma rounds_catch_up:
  assumes "honest s" "\<forall>a \<in> set (hist s). readable c a" "synced c (hist s) r" "checkpoint r \<le> head s"
    and "head s - checkpoint r \<le> int n" "\<forall>a \<in> set (hist s). a_seq a \<le> head s"
  shows "checkpoint ((sync_round c source s ^^ n) r) = head s \<and>
    r_tables ((sync_round c source s ^^ n) r) = replay c (hist s) empty_tables"
proof -
  have at_head: "checkpoint ((sync_round c source s ^^ n) r) = head s"
    and "synced c (hist s) ((sync_round c source s ^^ n) r)"
    using rounds_synced [OF assms(1-4), of n] assms(5) by auto
  moreover have "filter (\<lambda>a. a_seq a \<le> head s) (hist s) = hist s" using assms(6) by simp
  ultimately show ?thesis by (simp add: synced_def)
qed

end


lemma foldr_max_ge: "(m :: int) \<le> foldr (\<lambda>a m. max (a_seq a) m) as m"
  by (induction as) auto

lemma foldr_max_upper: "a \<in> set as \<Longrightarrow> a_seq a \<le> foldr (\<lambda>a m. max (a_seq a) m) as m"
  by (induction as) auto

lemma foldr_max_le: "m \<le> (b :: int) \<Longrightarrow> \<forall>a \<in> set as. a_seq a \<le> b \<Longrightarrow> foldr (\<lambda>a m. max (a_seq a) m) as m \<le> b"
  by (induction as) auto

lemma foldr_max_in: "foldr (\<lambda>a m. max (a_seq a) m) as m = m \<or> (\<exists>a \<in> set as. foldr (\<lambda>a m. max (a_seq a) m) as m = a_seq a)"
  by (induction as) (auto simp: max_def)

lemma log_okD:
  assumes "log_ok sv" "a \<in> set (sv_log sv)"
  shows "0 < a_seq a" and "a_seq a \<le> sv_head sv" and "keeps_seq (sv_see sv) a"
proof -
  have "\<forall>a \<in> set (sv_log sv). 0 < a_seq a \<and> a_seq a \<le> sv_head sv \<and> keeps_seq (sv_see sv) a"
    using assms(1) unfolding log_ok_def by blast
  with assms(2) show "0 < a_seq a" "a_seq a \<le> sv_head sv" "keeps_seq (sv_see sv) a" by blast+
qed

lemma log_ok_limit: "log_ok sv \<Longrightarrow> 0 < sv_limit sv"
  by (simp add: log_ok_def)

lemma log_ok_distinct: "log_ok sv \<Longrightarrow> distinct (map a_seq (sv_log sv))"
  by (simp add: log_ok_def)

lemma log_ok_head:
  assumes "log_ok sv" shows "0 \<le> sv_head sv" "0 < sv_head sv \<Longrightarrow> \<exists>a \<in> set (sv_log sv). a_seq a = sv_head sv"
proof -
  have h: "sv_head sv = foldr (\<lambda>a m. max (a_seq a) m) (sv_log sv) 0"
    using assms unfolding log_ok_def by blast
  show "0 \<le> sv_head sv" unfolding h by (rule foldr_max_ge)
  show "0 < sv_head sv \<Longrightarrow> \<exists>a \<in> set (sv_log sv). a_seq a = sv_head sv"
    using foldr_max_in [of "sv_log sv" 0] unfolding h by force
qed

lemma history_mem: "a \<in> set (history sv) \<Longrightarrow> \<exists>b \<in> set (sv_log sv). sv_see sv b = Some a"
  by (auto simp: history_def List.map_filter_def)

lemma history_bounds:
  assumes "log_ok sv" "a \<in> set (history sv)"
  shows "0 < a_seq a" "a_seq a \<le> sv_head sv"
proof -
  obtain b where b: "b \<in> set (sv_log sv)" "sv_see sv b = Some a" using history_mem [OF assms(2)] by blast
  have "a_seq a = a_seq b" using log_okD(3) [OF assms(1) b(1)] b(2) by (rule keeps_seqD)
  then show "0 < a_seq a" "a_seq a \<le> sv_head sv" using log_okD(1,2) [OF assms(1) b(1)] by simp_all
qed

lemma page_end_bounds:
  assumes ok: "log_ok sv" and since: "0 \<le> since" "since < sv_head sv"
  shows "since < page_end (sv_log sv) since (sv_limit sv) \<and> page_end (sv_log sv) since (sv_limit sv) \<le> sv_head sv"
proof -
  let ?rest = "filter (\<lambda>a. since < a_seq a) (sort_key a_seq (sv_log sv))"
  obtain a where "a \<in> set (sv_log sv)" "a_seq a = sv_head sv"
    using log_ok_head(2) [OF ok] since by auto
  with since(2) have "a \<in> set ?rest" by simp
  then obtain x xs where rest: "?rest = x # xs" by (cases ?rest) auto
  obtain n where "sv_limit sv = Suc n" using log_ok_limit [OF ok] gr0_conv_Suc by auto
  with rest have x: "x \<in> set (scanned (sv_log sv) since (sv_limit sv))"
    by (simp add: scanned_def)
  have "x \<in> set ?rest" using rest by simp
  then have "since < a_seq x" by simp
  with foldr_max_upper [OF x, of since] have "since < page_end (sv_log sv) since (sv_limit sv)"
    by (simp add: page_end_def)
  moreover have "\<forall>b \<in> set (scanned (sv_log sv) since (sv_limit sv)). a_seq b \<le> sv_head sv"
    using log_okD(2) [OF ok] by (auto simp: scanned_def dest!: in_set_takeD)
  then have "page_end (sv_log sv) since (sv_limit sv) \<le> sv_head sv"
    unfolding page_end_def using since(2) by (intro foldr_max_le) auto
  ultimately show ?thesis ..
qed

lemma map_filter_filter:
  assumes "\<And>a b. a_seq b = a_seq a \<Longrightarrow> P b = P a"
  shows "\<forall>a \<in> set xs. keeps_seq f a \<Longrightarrow>
    List.map_filter f (filter P xs) = filter P (List.map_filter f xs)"
proof (induction xs)
  case (Cons x xs)
  then have IH: "List.map_filter f (filter P xs) = filter P (List.map_filter f xs)" by simp
  have "keeps_seq f x" using Cons.prems by simp
  then have same: "f x = Some y \<Longrightarrow> P y = P x" for y by (rule assms [OF keeps_seqD])
  show ?case
  proof (cases "f x")
    case None
    with IH show ?thesis by (simp add: List.map_filter_simps)
  next
    case (Some y)
    with IH same [OF Some] show ?thesis by (simp add: List.map_filter_simps)
  qed
qed (simp add: List.map_filter_simps)

lemma map_filter_strict:
  "\<forall>a \<in> set xs. keeps_seq f a \<Longrightarrow> sorted_wrt (<) (map a_seq xs) \<Longrightarrow>
   sorted_wrt (<) (map a_seq (List.map_filter f xs)) \<and>
   a_seq ` set (List.map_filter f xs) \<subseteq> a_seq ` set xs"
proof (induction xs)
  case (Cons x xs)
  then have IH: "sorted_wrt (<) (map a_seq (List.map_filter f xs))"
    "a_seq ` set (List.map_filter f xs) \<subseteq> a_seq ` set xs" by auto
  show ?case
  proof (cases "f x")
    case None
    with IH show ?thesis by (auto simp: List.map_filter_simps)
  next
    case (Some y)
    have "keeps_seq f x" using Cons.prems(1) by simp
    then have y: "a_seq y = a_seq x" using Some by (rule keeps_seqD)
    have "\<forall>z \<in> set (List.map_filter f xs). a_seq x < a_seq z"
      using IH(2) Cons.prems(2) by fastforce
    with IH Some y show ?thesis by (auto simp: List.map_filter_simps)
  qed
qed (simp add: List.map_filter_simps)

lemma history_sorted:
  assumes ok: "log_ok sv" shows "sorted_wrt (<) (map a_seq (history sv))"
proof -
  have "distinct (map a_seq (sort_key a_seq (sv_log sv)))"
    using log_ok_distinct [OF ok] by (simp add: distinct_map)
  then have strict: "sorted_wrt (<) (map a_seq (sort_key a_seq (sv_log sv)))"
    by (simp add: strict_sorted_iff)
  have "\<forall>a \<in> set (sort_key a_seq (sv_log sv)). keeps_seq (sv_see sv) a"
    using log_okD(3) [OF ok] by simp
  from map_filter_strict [OF this strict] show ?thesis by (simp add: history_def)
qed

interpretation zzira: sync_source serve history sv_head log_ok
proof
  fix s :: "'p server" and since :: int
  show "log_ok s \<Longrightarrow> sv_head s \<le> since \<Longrightarrow> serve s since = Reply 304 None"
    by (simp add: serve_def sync_reply_for_def)
next
  fix s :: "'p server" and since :: int
  assume ok: "log_ok s" and since: "0 \<le> since" "since < sv_head s"
  let ?to = "page_end (sv_log s) since (sv_limit s)"
  note bounds = page_end_bounds [OF ok since]
  have acts: "List.map_filter (sv_see s) (filter (\<lambda>a. since < a_seq a \<and> a_seq a \<le> ?to) (sort_key a_seq (sv_log s))) =
      filter (\<lambda>a. since < a_seq a \<and> a_seq a \<le> ?to) (history s)"
    unfolding history_def
    by (rule map_filter_filter) (use log_okD(3) [OF ok] in simp_all)
  have "serve s since = Reply 200 (Some \<lparr>s_from = since, s_to = ?to, s_head = sv_head s,
      s_actions = filter (\<lambda>a. since < a_seq a \<and> a_seq a \<le> ?to) (history s)\<rparr>)"
    using bounds since by (simp add: serve_def sync_reply_for_def ActionPageSince_def acts Let_def)
  with bounds show "\<exists>to > since. to \<le> sv_head s \<and> serve s since = Reply 200 (Some \<lparr>s_from = since,
      s_to = to, s_head = sv_head s, s_actions = filter (\<lambda>a. since < a_seq a \<and> a_seq a \<le> to) (history s)\<rparr>)"
    by blast
next
  fix s :: "'p server"
  show "log_ok s \<Longrightarrow> sorted_wrt (<) (map a_seq (history s))" by (rule history_sorted)
qed

lemma checkpoint_fresh [simp]: "checkpoint fresh_replica = 0"
  by (simp add: fresh_replica_def checkpoint_def)

lemma synced_fresh:
  assumes "log_ok sv" shows "synced c (history sv) fresh_replica"
proof -
  have "filter (\<lambda>a. a_seq a \<le> 0) (history sv) = []"
    using history_bounds(1) [OF assms] by (force simp: filter_empty_conv)
  then show ?thesis by (simp add: synced_def) (simp add: fresh_replica_def replay_def)
qed

text \<open>Property C1: a fresh replica that keeps syncing against the server holds, after every round,
  exactly the reader's part of the log replayed up to its checkpoint; after as many rounds as the
  head is high it is at the head with the whole history replayed.\<close>

theorem replica_converges:
  assumes "log_ok sv" and "\<forall>a \<in> set (history sv). readable c a"
    and "r = (sync_round c serve sv ^^ n) fresh_replica"
  shows "synced c (history sv) r \<and>
    (sv_head sv \<le> int n \<longrightarrow> checkpoint r = sv_head sv \<and> r_tables r = replay c (history sv) empty_tables)"
  unfolding assms(3)
  using zzira.rounds_synced [OF assms(1,2) synced_fresh [OF assms(1)], of n]
    zzira.rounds_catch_up [OF assms(1,2) synced_fresh [OF assms(1)], of n]
    history_bounds(2) [OF assms(1)] log_ok_head(1) [OF assms(1)]
  by simp

definition demo_server :: "string server" where
  "demo_server = \<lparr>sv_log = [demo_watch 1 ''i1'', demo_watch 2 ''i2'', demo_watch 3 ''i3''], sv_head = 3,
     sv_see = (\<lambda>a. if a_seq a = 2 then None else Some a), sv_limit = 2\<rparr>"

lemma demo_server_ok: "log_ok demo_server"
  by (simp add: log_ok_def demo_server_def demo_watch_def keeps_seq_def)

lemma demo_server_readable: "\<forall>a \<in> set (history demo_server). readable demo_codec a"
  by (simp add: history_def demo_server_def demo_watch_def readable_def demo_codec_def apply_action_def
      applyWatcher_def List.map_filter_simps Let_def)

theorem replica_converges_witness:
  "checkpoint ((sync_round demo_codec serve demo_server ^^ 3) fresh_replica) = 3"
  using replica_converges [OF demo_server_ok demo_server_readable refl, of 3]
  by (simp add: demo_server_def)

end
