(* ===== verification/Outbox.thy ===== *)
theory Outbox
  imports ReplicaProofs
begin

text \<open>
  The outbox as a state machine, the maintenance pass that drives it (\<open>maintenancePass\<close>,
  \<open>bootstrapIfEmpty\<close> in \<open>cmd/client/main.go\<close>), and how a revoked reader's replica is emptied.
  A run keeps two ghost lists beside the replica: the commands the server accepted, in order, and
  the requests ever enqueued.
\<close>

section \<open>Model of the maintenance pass\<close>

text \<open>\<open>bootstrapIfEmpty\<close>: \<open>issue_count\<close> is what \<open>SELECT COUNT(*) FROM issues\<close> answers, and
  \<open>snapshot\<close> the sequence number and the upserts of the decoded reply to \<open>GET /bootstrap\<close>, None
  when there is no usable reply. The upserts carry sequence number 0.\<close>

fun apply_all :: "'p codec \<Rightarrow> 'p action list \<Rightarrow> 'p tables \<Rightarrow> 'p tables option" where
  "apply_all c [] t = Some t"
| "apply_all c (a # as) t =
     (case apply_action c a t of Inl _ \<Rightarrow> None | Inr (t', _) \<Rightarrow> apply_all c as t')"

definition bootstrapIfEmpty ::
  "'p codec \<Rightarrow> nat \<Rightarrow> (int \<times> 'p action list) option \<Rightarrow> 'p replica \<Rightarrow> 'p replica" where
  "bootstrapIfEmpty c issue_count snapshot r =
     (if 0 < checkpoint r \<or> 0 < issue_count then r
      else case snapshot of
        None \<Rightarrow> r
      | Some (seq, as) \<Rightarrow> (case apply_all c as (r_tables r) of
            None \<Rightarrow> r
          | Some t \<Rightarrow> r\<lparr>r_tables := t, r_checkpoint := Some seq, r_server_head := Some seq\<rparr>))"

text \<open>The draining loop, against the replies the network gives; when they run out the request has
  no answer. The flag says whether any command was drained.\<close>

fun drain_loop :: "bool \<Rightarrow> int option list \<Rightarrow> bool \<Rightarrow> 'p replica \<Rightarrow> bool \<times> 'p replica" where
  "drain_loop drainAll [] drainedAny r = (drainedAny, snd (snd (drainOutbox None r)))"
| "drain_loop drainAll (reply # replies) drainedAny r =
     (case drainOutbox reply r of
        (draining, remaining, r') \<Rightarrow>
          if \<not> draining then (drainedAny, r')
          else if \<not> drainAll \<or> remaining = 0 then (True, r')
          else drain_loop drainAll replies True r')"

definition maintenancePass ::
  "'p codec \<Rightarrow> bool \<Rightarrow> bool \<Rightarrow> nat \<Rightarrow> (int \<times> 'p action list) option \<Rightarrow> 'p sync_reply \<Rightarrow> int option list \<Rightarrow>
   'p sync_reply \<Rightarrow> 'p replica \<Rightarrow> 'p replica" where
  "maintenancePass c online drainAll issue_count snapshot reply1 replies reply2 r =
     (if \<not> online then r
      else case syncOnce c reply1 (bootstrapIfEmpty c issue_count snapshot r) of
        (d, r1) \<Rightarrow>
          if d \<noteq> SyncAccepted then r1
          else case drain_loop drainAll replies False r1 of
            (drainedAny, r2) \<Rightarrow> if drainedAny then snd (syncOnce c reply2 r2) else r2)"

section \<open>The outbox as a queue\<close>

definition ids_ok :: "'p replica \<Rightarrow> bool" where
  "ids_ok r \<longleftrightarrow> sorted_wrt (<) (map c_id (r_outbox r)) \<and> (\<forall>x \<in> set (r_outbox r). c_id x < r_next_id r)"

text \<open>Only the head of the queue may be marked as refused.\<close>

definition head_only_refused :: "'p replica \<Rightarrow> bool" where
  "head_only_refused r \<longleftrightarrow> (\<forall>x \<in> set (tl (r_outbox r)). c_refused x = 0)"

lemma oldest_sorted: "sorted_wrt (<) (map c_id (x # xs)) \<Longrightarrow> oldest (x # xs) = Some x"
proof (induction xs arbitrary: x)
  case (Cons y ys)
  then have "oldest (y # ys) = Some y" by simp
  with Cons.prems show ?case by simp
qed simp

lemma filter_head: "sorted_wrt (<) (map c_id (x # xs)) \<Longrightarrow> filter (\<lambda>y. c_id y \<noteq> c_id x) (x # xs) = xs"
  by (auto simp: filter_id_conv)

lemma map_head: "sorted_wrt (<) (map c_id (x # xs)) \<Longrightarrow>
  map (\<lambda>y. if c_id y = c_id x then f y else y) (x # xs) = f x # xs"
  by (induction xs) auto

text \<open>The three things \<open>drainOutbox\<close> can do to a queue in good order.\<close>

lemma drainOutbox_Nil: "r_outbox r = [] \<Longrightarrow> drainOutbox reply r = (False, 0, r)"
  by (simp add: drainOutbox_def)

lemma drainOutbox_Cons:
  assumes "ids_ok r" "r_outbox r = x # xs"
  shows "drainOutbox reply r =
    (if c_refused x \<noteq> 0 then (False, Suc (length xs), r)
     else case map_option DispositionForStatus reply of
       Some OutboxAccepted \<Rightarrow> (True, length xs, r\<lparr>r_outbox := xs\<rparr>)
     | Some OutboxRejected \<Rightarrow> (False, Suc (length xs), r\<lparr>r_outbox := x\<lparr>c_refused := the reply\<rparr> # xs\<rparr>)
     | _ \<Rightarrow> (False, Suc (length xs), r))"
proof -
  have s: "sorted_wrt (<) (map c_id (x # xs))" using assms by (simp add: ids_ok_def)
  show ?thesis
    using assms(2) oldest_sorted [OF s] filter_head [OF s] map_head [OF s]
    by (auto simp: drainOutbox_def outboxSize_def split: option.splits outbox_disposition.splits)
qed

lemma retryOutbox_Cons:
  assumes "ids_ok r" "r_outbox r = x # xs"
  shows "retryOutbox r = r\<lparr>r_outbox := x\<lparr>c_refused := 0\<rparr> # xs\<rparr>"
proof -
  have s: "sorted_wrt (<) (map c_id (x # xs))" using assms by (simp add: ids_ok_def)
  show ?thesis using assms(2) oldest_sorted [OF s] map_head [OF s] by (simp add: retryOutbox_def)
qed

section \<open>Runs\<close>

type_synonym request = "string \<times> string \<times> string"

definition request_of :: "command \<Rightarrow> request" where
  "request_of x = (c_method x, c_path x, c_body x)"

inductive outbox_step ::
  "'p replica \<times> request list \<times> request list \<Rightarrow> 'p replica \<times> request list \<times> request list \<Rightarrow> bool" where
  do_enqueue: "outbox_step (r, sent, issued) (enqueue m p b r, sent, issued @ [(m, p, b)])"
| do_send: "drainOutbox reply r = (True, n, r') \<Longrightarrow> oldest (r_outbox r) = Some x \<Longrightarrow>
    outbox_step (r, sent, issued) (r', sent @ [request_of x], issued)"
| do_keep: "drainOutbox reply r = (False, n, r') \<Longrightarrow> outbox_step (r, sent, issued) (r', sent, issued)"
| do_retry: "outbox_step (r, sent, issued) (retryOutbox r, sent, issued)"
| do_sync: "syncOnce c reply' r = (d, r') \<Longrightarrow> d \<noteq> SyncRevoked \<Longrightarrow>
    outbox_step (r, sent, issued) (r', sent, issued)"

inductive_cases outbox_stepE: "outbox_step (r, sent, issued) s"

inductive outbox_run :: "'p replica \<times> request list \<times> request list \<Rightarrow> bool" where
  run_start: "outbox_run (fresh_replica, [], [])"
| run_step: "outbox_run s \<Longrightarrow> outbox_step s s' \<Longrightarrow> outbox_run s'"

definition outbox_inv :: "'p replica \<times> request list \<times> request list \<Rightarrow> bool" where
  "outbox_inv s \<longleftrightarrow> (case s of (r, sent, issued) \<Rightarrow>
     ids_ok r \<and> head_only_refused r \<and> issued = sent @ map request_of (r_outbox r))"

lemma enqueue_inv: "outbox_inv (r, sent, issued) \<Longrightarrow> outbox_inv (enqueue m p b r, sent, issued @ [(m, p, b)])"
  by (cases "r_outbox r")
    (auto simp: outbox_inv_def enqueue_def ids_ok_def head_only_refused_def request_of_def
      sorted_wrt_append less_Suc_eq)

lemma drain_inv:
  assumes "outbox_inv (r, sent, issued)" "drainOutbox reply r = (d, n, r')"
  shows "outbox_inv (r', if d then sent @ [request_of (the (oldest (r_outbox r)))] else sent, issued)"
proof (cases "r_outbox r")
  case Nil
  with assms show ?thesis by (simp add: drainOutbox_Nil)
next
  case (Cons x xs)
  from assms(1) have ids: "ids_ok r" by (simp add: outbox_inv_def)
  then have "oldest (r_outbox r) = Some x" using oldest_sorted [of x xs] Cons by (simp add: ids_ok_def)
  with assms Cons drainOutbox_Cons [OF ids Cons, of reply] show ?thesis
    by (cases xs) (auto simp: outbox_inv_def ids_ok_def head_only_refused_def request_of_def
        split: if_splits option.splits outbox_disposition.splits)
qed

lemma retry_inv: "outbox_inv (r, sent, issued) \<Longrightarrow> outbox_inv (retryOutbox r, sent, issued)"
proof (cases "r_outbox r")
  case Nil
  then show "outbox_inv (r, sent, issued) \<Longrightarrow> ?thesis" by (simp add: retryOutbox_def)
next
  case (Cons x xs)
  assume inv: "outbox_inv (r, sent, issued)"
  then have "ids_ok r" by (simp add: outbox_inv_def)
  with inv Cons show ?thesis
    by (simp add: retryOutbox_Cons) (simp add: outbox_inv_def ids_ok_def head_only_refused_def request_of_def)
qed

lemma sync_outbox:
  assumes "syncOnce c reply r = (d, r')" "d \<noteq> SyncRevoked"
  shows "r_outbox r' = r_outbox r \<and> r_next_id r' = r_next_id r"
  using syncOnce_cases [OF assms(1)] assms(2) by auto

lemma outbox_step_inv: "outbox_step s s' \<Longrightarrow> outbox_inv s \<Longrightarrow> outbox_inv s'"
proof (induction rule: outbox_step.induct)
  case (do_send reply r n r' x sent issued)
  then show ?case using drain_inv [of r sent issued reply True n r'] by simp
next
  case (do_keep reply r n r' sent issued)
  then show ?case using drain_inv [of r sent issued reply False n r'] by simp
next
  case (do_sync c reply' r d r' sent issued)
  with sync_outbox [OF do_sync(1,2)] show ?case
    by (simp add: outbox_inv_def ids_ok_def head_only_refused_def)
qed (simp_all add: enqueue_inv retry_inv)

lemma outbox_run_inv: "outbox_run s \<Longrightarrow> outbox_inv s"
proof (induction rule: outbox_run.induct)
  case run_start
  show ?case by (simp add: outbox_inv_def ids_ok_def head_only_refused_def fresh_replica_def)
next
  case (run_step s s')
  then show ?case by (blast intro: outbox_step_inv)
qed


lemma demo_run:
  "outbox_run ((enqueue ''PUT'' ''/b'' ''2'' (fresh_replica\<lparr>r_next_id := 2\<rparr>)) :: string replica,
     [(''POST'', ''/a'', ''1'')], [(''POST'', ''/a'', ''1''), (''PUT'', ''/b'', ''2'')])"
proof -
  have "outbox_run ((enqueue ''POST'' ''/a'' ''1'' fresh_replica) :: string replica, [], [] @ [(''POST'', ''/a'', ''1'')])"
    by (rule run_step [OF run_start do_enqueue])
  then have "outbox_run ((fresh_replica\<lparr>r_next_id := 2\<rparr>) :: string replica,
      [] @ [request_of \<lparr>c_id = 1, c_method = ''POST'', c_path = ''/a'', c_body = ''1'', c_refused = 0\<rparr>],
      [] @ [(''POST'', ''/a'', ''1'')])"
    by (rule run_step [OF _ do_send [of "Some 204" _ 0]])
      (simp_all add: drainOutbox_def enqueue_def fresh_replica_def outboxSize_def DispositionForStatus_def)
  from run_step [OF this do_enqueue [of _ _ _ "''PUT''" "''/b''" "''2''"]] show ?thesis
    by (simp add: request_of_def)
qed



text \<open>Property C32: a command the server refuses for good (4xx other than 408, 425 and 429) stays at
  the head of the queue, marked; while it is marked nothing is sent whatever the server would
  answer; the page's retry clears the mark and leaves the queue's requests unchanged.\<close>

theorem refused_command_holds_the_queue:
  assumes "ids_ok r" and "r_outbox r = x # xs" and "c_refused x = 0"
    and "DispositionForStatus status = OutboxRejected"
    and "drainOutbox (Some status) r = (d, n, r')"
  shows "\<not> d \<and> r_outbox r' = x\<lparr>c_refused := status\<rparr> # xs \<and>
    (\<forall>reply. drainOutbox reply r' = (False, Suc (length xs), r')) \<and>
    r_outbox (retryOutbox r') = x # xs"
proof -
  have r': "\<not> d" "r' = r\<lparr>r_outbox := x\<lparr>c_refused := status\<rparr> # xs\<rparr>"
    using assms(3-5) drainOutbox_Cons [OF assms(1,2), of "Some status"] by auto
  have box: "r_outbox r' = x\<lparr>c_refused := status\<rparr> # xs" using r' by simp
  have ids: "ids_ok r'" using assms(1,2) r' by (simp add: ids_ok_def)
  have "status \<noteq> 0" using assms(4) by (auto simp: DispositionForStatus_def)
  with drainOutbox_Cons [OF ids box] retryOutbox_Cons [OF ids box] r'(1) box assms(3) show ?thesis
    by simp
qed

theorem refused_command_holds_the_queue_witness:
  "r_outbox (retryOutbox (snd (snd (drainOutbox (Some 422)
      ((enqueue ''POST'' ''/a'' ''1'' fresh_replica) :: string replica))))) =
    r_outbox ((enqueue ''POST'' ''/a'' ''1'' fresh_replica) :: string replica)"
proof -
  let ?r = "(enqueue ''POST'' ''/a'' ''1'' fresh_replica) :: string replica"
  have ids: "ids_ok ?r" by (simp add: enqueue_def fresh_replica_def ids_ok_def)
  have box: "r_outbox ?r = \<lparr>c_id = 1, c_method = ''POST'', c_path = ''/a'', c_body = ''1'', c_refused = 0\<rparr> # []"
    by (simp add: enqueue_def fresh_replica_def)
  have status: "DispositionForStatus 422 = OutboxRejected" by (simp add: DispositionForStatus_def)
  obtain d n r' where drain: "drainOutbox (Some 422) ?r = (d, n, r')" by (metis prod_cases3)
  from refused_command_holds_the_queue [OF ids box _ status drain] box drain show ?thesis by simp
qed

text \<open>When the server accepts, a full drain empties the queue: with no command marked
  as refused and a 2xx reply for each, \<open>drainAll\<close> leaves no command behind.\<close>

theorem drain_all_empties:
  assumes "ids_ok r" and "\<forall>x \<in> set (r_outbox r). c_refused x = 0"
    and "length (r_outbox r) \<le> length replies"
    and "\<forall>reply \<in> set replies. \<exists>status. reply = Some status \<and> DispositionForStatus status = OutboxAccepted"
    and "r_outbox r \<noteq> [] \<or> replies = []"
  shows "r_outbox (snd (drain_loop True replies drained r)) = []"
  using assms
proof (induction replies arbitrary: r drained)
  case Nil
  then show ?case by (simp add: drainOutbox_Nil)
next
  case (Cons reply replies)
  then obtain x xs where box: "r_outbox r = x # xs" by (cases "r_outbox r") auto
  with Cons.prems drainOutbox_Cons [OF Cons.prems(1) box, of reply]
  have drain: "drainOutbox reply r = (True, length xs, r\<lparr>r_outbox := xs\<rparr>)" by auto
  show ?case
  proof (cases "xs = []")
    case True
    with drain show ?thesis by simp
  next
    case False
    have "r_outbox (snd (drain_loop True replies True (r\<lparr>r_outbox := xs\<rparr>))) = []"
      using Cons.prems box False by (intro Cons.IH) (auto simp: ids_ok_def)
    with drain False show ?thesis by simp
  qed
qed

theorem drain_all_empties_witness:
  "r_outbox (snd (drain_loop True [Some 200, Some 204, Some 201] False
     ((enqueue ''PUT'' ''/b'' ''2'' (enqueue ''POST'' ''/a'' ''1'' fresh_replica)) :: string replica))) = []"
  by (rule drain_all_empties)
    (auto simp: enqueue_def fresh_replica_def ids_ok_def DispositionForStatus_def)

text \<open>Property C33: a reader who lost the workspace keeps no copy: the server answers 401 to an
  unidentified caller and 403 to one who may not see the workspace, and on either reply the client
  empties every table, its checkpoint and its outbox.\<close>

theorem revoked_reader_keeps_nothing:
  assumes "user = None \<or> (workspace_known \<and> (\<exists>u. user = Some u \<and> member u = Some False))"
    and "syncOnce c (ServeSync True user workspace_known member see log head1 head2 since limit) r = (d, r')"
  shows "d = SyncRevoked \<and> r_tables r' = empty_tables \<and> checkpoint r' = 0 \<and> r_outbox r' = []"
proof -
  have "ServeSync True user workspace_known member see log head1 head2 since limit \<in> {Reply 401 None, Reply 403 None}"
    using assms(1) by (auto simp: ServeSync_def)
  then have "(d, r') = (SyncRevoked, purgePrivateReplica r)"
    using assms(2) by (auto simp: syncOnce_def DispositionForSyncStatus_def)
  then show ?thesis by (simp add: checkpoint_def)
qed

theorem revoked_reader_keeps_nothing_witness:
  "r_outbox (snd (syncOnce demo_codec
     (ServeSync True (Some ''u1'') True (\<lambda>u. Some (u = ''u2'')) (\<lambda>u a. Some a) [] (Some 0) (Some 0) 0 None)
     (enqueue ''POST'' ''/a'' ''1'' fresh_replica))) = []"
proof -
  let ?s = "syncOnce demo_codec
     (ServeSync True (Some ''u1'') True (\<lambda>u. Some (u = ''u2'')) (\<lambda>u a. Some a) [] (Some 0) (Some 0) 0 None)
     (enqueue ''POST'' ''/a'' ''1'' fresh_replica)"
  have denied: "Some ''u1'' = None \<or> (True \<and> (\<exists>u. Some ''u1'' = Some u \<and> Some (u = ''u2'') = Some False))" by simp
  have run: "?s = (fst ?s, snd ?s)" by simp
  from revoked_reader_keeps_nothing [OF denied run] show ?thesis by blast
qed

text \<open>Actions that touch neither the comment named \<open>i\<close> nor its issue's existence.\<close>

definition spares_comment :: "'p codec \<Rightarrow> string \<Rightarrow> string \<Rightarrow> 'p action \<Rightarrow> bool" where
  "spares_comment c i issue a \<longleftrightarrow>
     (case a_entity a of
        EntityIssue \<Rightarrow> a_op a \<noteq> OpDelete \<or> a_entity_id a \<noteq> issue
      | EntityTombstone \<Rightarrow> dec_tombstone c (a_payload a) \<noteq> Some issue
      | EntityComment \<Rightarrow> (case a_op a of
            OpUpsert \<Rightarrow> (case dec_comment c (a_payload a) of None \<Rightarrow> True | Some (j, _) \<Rightarrow> j \<noteq> i)
          | OpDelete \<Rightarrow> (case dec_comment_delete c (a_payload a) of None \<Rightarrow> True | Some (j, _) \<Rightarrow> j \<noteq> i)
          | _ \<Rightarrow> True)
      | _ \<Rightarrow> True)"

lemma spared_comment:
  assumes "apply_action c a t = Inr (t', ids)" "spares_comment c i (cr_issue_id row) a"
    and "t_comments t i = Some row"
  shows "t_comments t' i = Some row"
  using assms
  by (cases "a_entity a"; cases "a_op a")
    (auto simp: apply_action_def handler_defs Let_def log_action_def drop_issue_def spares_comment_def
      split: option.splits if_splits)

lemma replay_spares:
  "\<forall>a \<in> set as. spares_comment c i (cr_issue_id row) a \<Longrightarrow> t_comments t i = Some row \<Longrightarrow>
   t_comments (replay c as t) i = Some row"
proof (induction as arbitrary: t)
  case (Cons a as)
  have "t_comments (case apply_action c a t of Inr (t', _) \<Rightarrow> t' | Inl _ \<Rightarrow> t) i = Some row"
    using Cons.prems spared_comment [of c a t] by (auto split: sum.splits)
  with Cons show ?case by (simp add: replay_def)
qed (simp add: replay_def)


lemma demo_server_spares: "\<forall>a \<in> set (history demo_server). spares_comment demo_codec i issue a"
  by (simp add: history_def demo_server_def demo_watch_def spares_comment_def List.map_filter_simps)


end
