(* ===== verification/GoJson.thy ===== *)
theory GoJson
  imports GoPrelude
begin

text \<open>
  What the code takes from \<open>encoding/json\<close>, \<open>regexp\<close>, \<open>time\<close> and the floating point part of
  \<open>strconv\<close>. A decoded JSON value is the datatype \<open>json\<close>, with \<open>float64\<close> as the type variable
  \<open>'f\<close>; an object is the list of its members with distinct names, as a Go map. The library calls
  themselves are the record \<open>golib\<close>, an argument of the definitions that use them.
\<close>

datatype 'f json =
    JNull
  | JBool bool
  | JNumber 'f
  | JString string
  | JArray "'f json list"
  | JObject "(string \<times> 'f json) list"

text \<open>
  \<open>unmarshal\<close> is \<open>json.Unmarshal\<close> into \<open>any\<close>; \<open>format_float\<close> is \<open>FormatFloat(x, 'f', -1, 64)\<close>;
  \<open>parse_float\<close> is \<open>ParseFloat(s, 64)\<close>; times are instants in nanoseconds, \<open>parse_rfc3339\<close> and
  \<open>parse_date\<close> being \<open>time.Parse\<close> with those layouts and \<open>add_days\<close> being \<open>AddDate(0, 0, days)\<close>;
  \<open>regexp\<close> is \<open>regexp.Compile\<close> with the compiled pattern's \<open>MatchString\<close>; \<open>sprint\<close> is
  \<open>fmt.Sprint\<close> of a decoded array; \<open>marshal_string\<close> and \<open>marshal_strings\<close> are \<open>json.Marshal\<close>;
  \<open>struct_type\<close> is \<open>json.Unmarshal\<close> into a struct whose only field is \<open>type\<close>.
\<close>

record 'f golib =
  unmarshal :: "string \<Rightarrow> 'f json option"
  format_float :: "'f \<Rightarrow> string"
  parse_float :: "string \<Rightarrow> 'f option"
  float_less :: "'f \<Rightarrow> 'f \<Rightarrow> bool"
  parse_rfc3339 :: "string \<Rightarrow> int option"
  parse_date :: "string \<Rightarrow> int option"
  add_days :: "int \<Rightarrow> int \<Rightarrow> int"
  regexp :: "string \<Rightarrow> (string \<Rightarrow> bool) option"
  sprint :: "'f json list \<Rightarrow> string"
  marshal_string :: "string \<Rightarrow> string"
  marshal_strings :: "string list \<Rightarrow> string"
  struct_type :: "string \<Rightarrow> string option"

text \<open>An error built by \<open>errors.New\<close> or \<open>fmt.Errorf\<close>: its format and arguments, or a format that
  wraps another error.\<close>

datatype go_error = Errorf string "string list" | Wrapf string go_error

end
