(* ===== verification/Workflow.thy ===== *)
theory Workflow
  imports GoJson
begin

text \<open>
  \<open>internal/workflow/workflow.go\<close>, the part that decides which transitions a work item may take:
  the data types, \<open>Default\<close>, the statuses of a workflow, \<open>Available\<close>, \<open>Validate\<close>, approvals and
  \<open>NextTransitionID\<close>. A Go \<open>map[string]string\<close> is the list of its entries. The records hold the fields the
  package's operations read; designer layout, ports, versions and timestamps are left out.
\<close>

section \<open>Data\<close>

record rule =
  rule_id :: string
  rule_key :: string
  rule_params :: "(string \<times> string) list"

definition look :: "(string \<times> string) list \<Rightarrow> string \<Rightarrow> string" where
  "look m k = (case map_of m k of None \<Rightarrow> [] | Some v \<Rightarrow> v)"

abbreviation param :: "rule \<Rightarrow> string \<Rightarrow> string" where
  "param r k \<equiv> look (rule_params r) k"

definition param_count :: "rule \<Rightarrow> nat" where
  "param_count r = length (remdups (map fst (rule_params r)))"

datatype condition_group = ConditionGroup
  (operation: string) (conditions: "rule list") (condition_groups: "condition_group list")

record transition =
  t_id :: string
  t_name :: string
  t_type :: string
  t_from :: "string list"
  t_to :: string
  t_actions :: "rule list"
  t_validators :: "rule list"
  t_triggers :: "rule list"
  t_conditions :: "condition_group option"
  t_screen :: "rule option"

record ApprovalConfiguration =
  ac_active :: string
  ac_condition_type :: string
  ac_condition_value :: string
  ac_exclude :: "string list"
  ac_field :: string
  ac_prepopulated :: string
  ac_approved :: string
  ac_rejected :: string

record status_layout =
  status_reference :: string
  status_properties :: "(string \<times> string) list"
  approval_configuration :: "ApprovalConfiguration option"

record workflow =
  w_id :: string
  w_name :: string
  w_statuses :: "status_layout list"
  w_transitions :: "transition list"

section \<open>Transitions and statuses\<close>

definition TransitionDirected :: string where "TransitionDirected = ''DIRECTED''"
definition TransitionGlobal :: string where "TransitionGlobal = ''GLOBAL''"
definition TransitionInitial :: string where "TransitionInitial = ''INITIAL''"

definition plain_transition :: "string \<Rightarrow> string \<Rightarrow> string \<Rightarrow> string list \<Rightarrow> string \<Rightarrow> transition" where
  "plain_transition i name ty from to =
     \<lparr>t_id = i, t_name = name, t_type = ty, t_from = from, t_to = to, t_actions = [], t_validators = [],
      t_triggers = [], t_conditions = None, t_screen = None\<rparr>"

definition Default :: workflow where
  "Default = \<lparr>w_id = ''wf_default'', w_name = ''Default'', w_statuses = [], w_transitions = [
     plain_transition ''1'' ''Create'' TransitionInitial [] ''st_todo'',
     plain_transition ''11'' ''To Do'' [] [''st_inprogress'', ''st_done''] ''st_todo'',
     plain_transition ''21'' ''In Progress'' [] [''st_todo'', ''st_done''] ''st_inprogress'',
     plain_transition ''31'' ''Done'' [] [''st_todo'', ''st_inprogress''] ''st_done'']\<rparr>"

definition Kind :: "transition \<Rightarrow> string" where
  "Kind t = (if t_type t = [] then TransitionDirected else t_type t)"

text \<open>The closure \<open>add\<close> of \<open>StatusIDs\<close>; its \<open>seen\<close> map holds what the list holds.\<close>

definition add_status :: "string \<Rightarrow> string list \<Rightarrow> string list" where
  "add_status i ids = (if i \<noteq> [] \<and> i \<notin> set ids then ids @ [i] else ids)"

definition StatusIDs :: "workflow \<Rightarrow> string list" where
  "StatusIDs w =
     (let ids = fold (\<lambda>s. add_status (status_reference s)) (w_statuses w) []
      in fold (\<lambda>t ids. add_status (t_to t) (fold add_status (t_from t) ids)) (w_transitions w) ids)"

definition runsFrom :: "workflow \<Rightarrow> transition \<Rightarrow> string \<Rightarrow> bool" where
  "runsFrom w t status =
     (if Kind t = TransitionInitial then False
      else if Kind t = TransitionGlobal then status \<in> set (StatusIDs w)
      else status \<in> set (t_from t))"

definition Available :: "workflow \<Rightarrow> string \<Rightarrow> transition list" where
  "Available w status = filter (\<lambda>t. runsFrom w t status) (w_transitions w)"

definition Initial :: "workflow \<Rightarrow> transition option" where
  "Initial w = find (\<lambda>t. Kind t = TransitionInitial) (w_transitions w)"

definition InitialStatus :: "workflow \<Rightarrow> string" where
  "InitialStatus w =
     (case Initial w of
        Some t \<Rightarrow> t_to t
      | None \<Rightarrow>
          (case StatusIDs w of
             [] \<Rightarrow> ''st_todo''
           | i # ids \<Rightarrow> if ''st_todo'' \<in> set (i # ids) then ''st_todo'' else i))"

definition Find :: "workflow \<Rightarrow> string \<Rightarrow> transition option" where
  "Find w i = find (\<lambda>t. t_id t = i) (w_transitions w)"

fun validate_from :: "workflow \<Rightarrow> transition list \<Rightarrow> string \<Rightarrow> string \<Rightarrow> transition option \<times> bool" where
  "validate_from w [] i status = (None, False)"
| "validate_from w (t # ts) i status =
     (if t_id t \<noteq> i then validate_from w ts i status else (Some t, runsFrom w t status))"

definition Validate :: "workflow \<Rightarrow> string \<Rightarrow> string \<Rightarrow> transition option \<times> bool" where
  "Validate w i status = validate_from w (w_transitions w) i status"

section \<open>Approvals and status properties\<close>

definition StatusApproval :: "workflow \<Rightarrow> string \<Rightarrow> ApprovalConfiguration option" where
  "StatusApproval w status =
     (case find (\<lambda>s. status_reference s = status \<and>
             (case approval_configuration s of None \<Rightarrow> False | Some c \<Rightarrow> ac_active c = ''true'')) (w_statuses w) of
        None \<Rightarrow> None
      | Some s \<Rightarrow> approval_configuration s)"

definition transitionLeaves :: "transition list \<Rightarrow> string \<Rightarrow> string \<Rightarrow> bool" where
  "transitionLeaves ts i status \<longleftrightarrow>
     (\<exists>t \<in> set ts. i \<noteq> [] \<and> t_id t = i \<and> (Kind t = TransitionGlobal \<or> status \<in> set (t_from t)))"

definition has_prefix :: "string \<Rightarrow> string \<Rightarrow> bool" where
  "has_prefix p s \<longleftrightarrow> take (length p) s = p"

definition approval_limit :: "string \<Rightarrow> int option" where
  "approval_limit ty =
     (if ty = ''number'' \<or> ty = ''numberPerPrincipal'' then Some 20
      else if ty = ''percent'' then Some 100 else None)"

definition ValidateApprovalConfiguration ::
  "string \<Rightarrow> ApprovalConfiguration \<Rightarrow> transition list \<Rightarrow> go_error option" where
  "ValidateApprovalConfiguration status c ts =
     (if ac_active c \<noteq> ''true'' \<and> ac_active c \<noteq> ''false'' then
        Some (Errorf ''approval configuration active must be true or false'' [])
      else case approval_limit (ac_condition_type c) of
        None \<Rightarrow> Some (Errorf ''approval condition type must be number, percent or numberPerPrincipal'' [])
      | Some limit \<Rightarrow>
        (if (case atoi (ac_condition_value c) of None \<Rightarrow> True | Some v \<Rightarrow> v < 1 \<or> v > limit) then
           Some (Errorf ''approval condition value must be a whole number from 1 to %d'' [itoa limit])
         else if \<exists>role \<in> set (ac_exclude c). role \<noteq> ''assignee'' \<and> role \<noteq> ''reporter'' then
           Some (Errorf ''approval exclusions must be assignee or reporter'' [])
         else if \<not> has_prefix ''customfield_'' (ac_field c) then
           Some (Errorf ''approval configuration fieldId must name the approvers custom field'' [])
         else if ac_prepopulated c \<noteq> [] \<and> \<not> has_prefix ''customfield_'' (ac_prepopulated c) then
           Some (Errorf ''approval configuration prePopulatedFieldId must name a custom field'' [])
         else case find (\<lambda>i. \<not> transitionLeaves ts i status) [ac_approved c, ac_rejected c] of
           Some i \<Rightarrow> Some (Errorf ''approval transition %q must be a transition out of the status'' [i])
         | None \<Rightarrow> None))"

fun editable_key :: "(string \<times> string) list \<Rightarrow> string list \<Rightarrow> bool option" where
  "editable_key ps [] = None"
| "editable_key ps (k # ks) =
     (case map_of ps k of
        Some v \<Rightarrow> Some (\<not> equal_fold (trim_space v) ''false'')
      | None \<Rightarrow> editable_key ps ks)"

fun editable_in :: "status_layout list \<Rightarrow> string \<Rightarrow> bool" where
  "editable_in [] status = True"
| "editable_in (s # ss) status =
     (if status_reference s \<noteq> status then editable_in ss status
      else case editable_key (status_properties s) [''jira.issue.editable'', ''issueEditable''] of
        Some e \<Rightarrow> e
      | None \<Rightarrow> editable_in ss status)"

definition StatusEditable :: "workflow \<Rightarrow> string \<Rightarrow> bool" where
  "StatusEditable w status = editable_in (w_statuses w) status"

section \<open>Numbering\<close>

definition highest_id :: "transition list \<Rightarrow> int" where
  "highest_id ts = fold (\<lambda>t h. case atoi (t_id t) of Some i \<Rightarrow> if i > h then i else h | None \<Rightarrow> h) ts 1"

definition NextTransitionID :: "transition list \<Rightarrow> string" where
  "NextTransitionID ts = itoa (wrap64 (wrap64 ((highest_id ts div 10 + 1) * 10) + 1))"

section \<open>Statuses of a workflow\<close>

lemma set_add_status: "set (add_status i ids) = set ids \<union> ({i} - {[]})"
  by (auto simp: add_status_def)

lemma distinct_add_status: "distinct ids \<Longrightarrow> distinct (add_status i ids)"
  by (simp add: add_status_def)

lemma set_fold_add: "set (fold add_status xs ids) = set ids \<union> (set xs - {[]})"
  by (induction xs arbitrary: ids) (auto simp: set_add_status)

lemma distinct_fold_add: "distinct ids \<Longrightarrow> distinct (fold add_status xs ids)"
  by (induction xs arbitrary: ids) (auto simp: distinct_add_status)

lemma set_fold_statuses:
  "set (fold (\<lambda>s. add_status (status_reference s)) ss ids) = set ids \<union> (status_reference ` set ss - {[]})"
  by (induction ss arbitrary: ids) (auto simp: set_add_status)

lemma distinct_fold_statuses:
  "distinct ids \<Longrightarrow> distinct (fold (\<lambda>s. add_status (status_reference s)) ss ids)"
  by (induction ss arbitrary: ids) (auto simp: distinct_add_status)

definition named_statuses :: "transition \<Rightarrow> string set" where
  "named_statuses t = insert (t_to t) (set (t_from t)) - {[]}"

lemma set_fold_transitions:
  "set (fold (\<lambda>t ids. add_status (t_to t) (fold add_status (t_from t) ids)) ts ids) =
     set ids \<union> \<Union> (named_statuses ` set ts)"
  by (induction ts arbitrary: ids) (auto simp: set_add_status set_fold_add named_statuses_def)

lemma distinct_fold_transitions:
  "distinct ids \<Longrightarrow> distinct (fold (\<lambda>t ids. add_status (t_to t) (fold add_status (t_from t) ids)) ts ids)"
  by (induction ts arbitrary: ids) (auto simp: distinct_add_status distinct_fold_add)

lemma set_StatusIDs:
  "set (StatusIDs w) =
     (status_reference ` set (w_statuses w) - {[]}) \<union> \<Union> (named_statuses ` set (w_transitions w))"
  by (simp add: StatusIDs_def set_fold_transitions set_fold_statuses)

lemma distinct_StatusIDs: "distinct (StatusIDs w)"
  by (simp add: StatusIDs_def distinct_fold_transitions distinct_fold_statuses)

lemma StatusIDs_nonblank: "[] \<notin> set (StatusIDs w)"
  by (auto simp: set_StatusIDs named_statuses_def)

lemma Validate_Some:
  "Validate w i s = (Some t, ok) \<Longrightarrow> t \<in> set (w_transitions w) \<and> t_id t = i \<and> ok = runsFrom w t s"
proof -
  have "validate_from w ts i s = (Some t, ok) \<Longrightarrow> t \<in> set ts \<and> t_id t = i \<and> ok = runsFrom w t s" for ts
    by (induction ts) (auto split: if_splits)
  then show "Validate w i s = (Some t, ok) \<Longrightarrow> ?thesis" by (simp add: Validate_def)
qed

lemma Validate_Find: "fst (Validate w i s) = Find w i"
proof -
  have "fst (validate_from w ts i s) = find (\<lambda>t. t_id t = i) ts" for ts
    by (induction ts) auto
  then show ?thesis by (simp add: Validate_def Find_def)
qed

lemma Validate_first:
  "t \<in> set (w_transitions w) \<Longrightarrow> distinct (map t_id (w_transitions w)) \<Longrightarrow>
   Validate w (t_id t) s = (Some t, runsFrom w t s)"
proof -
  have "t \<in> set ts \<Longrightarrow> distinct (map t_id ts) \<Longrightarrow> validate_from w ts (t_id t) s = (Some t, runsFrom w t s)" for ts
    by (induction ts) (auto simp: rev_image_eqI)
  then show "t \<in> set (w_transitions w) \<Longrightarrow> distinct (map t_id (w_transitions w)) \<Longrightarrow> ?thesis"
    by (simp add: Validate_def)
qed

text \<open>Property C16: a workflow whose transition ids are distinct offers exactly the transitions that
  \<open>Validate\<close> accepts: a transition is in \<open>Available\<close> from a status iff asking for its id from that
  status finds it and allows it.\<close>

theorem available_iff_validates:
  assumes "distinct (map t_id (w_transitions w))"
  shows "t \<in> set (Available w s) \<longleftrightarrow> Validate w (t_id t) s = (Some t, True)"
proof
  assume "t \<in> set (Available w s)"
  then show "Validate w (t_id t) s = (Some t, True)"
    using Validate_first [OF _ assms] by (auto simp: Available_def)
next
  assume "Validate w (t_id t) s = (Some t, True)"
  from Validate_Some [OF this] show "t \<in> set (Available w s)" by (auto simp: Available_def)
qed

lemma available_iff_validates_witness:
  "plain_transition ''31'' ''Done'' [] [''st_todo'', ''st_inprogress''] ''st_done'' \<in> set (Available Default ''st_todo'') \<and>
   Validate Default ''31'' ''st_todo'' =
     (Some (plain_transition ''31'' ''Done'' [] [''st_todo'', ''st_inprogress''] ''st_done''), True)"
proof -
  have d: "distinct (map t_id (w_transitions Default))"
    by (simp add: Default_def plain_transition_def)
  have "Validate Default ''31'' ''st_todo'' =
     (Some (plain_transition ''31'' ''Done'' [] [''st_todo'', ''st_inprogress''] ''st_done''), True)"
    by (simp add: Validate_def Default_def plain_transition_def runsFrom_def Kind_def TransitionInitial_def
        TransitionGlobal_def TransitionDirected_def)
  then show ?thesis
    using available_iff_validates [OF d, of "plain_transition ''31'' ''Done'' [] [''st_todo'', ''st_inprogress''] ''st_done''" "''st_todo''"]
    by (simp add: plain_transition_def)
qed

section \<open>Where a work item can be\<close>

text \<open>A work item starts in \<open>InitialStatus\<close> and moves by transitions that \<open>Validate\<close> accepts.\<close>

inductive item_status :: "workflow \<Rightarrow> string \<Rightarrow> bool" for w where
  created: "item_status w (InitialStatus w)"
| moved: "item_status w s \<Longrightarrow> Validate w i s = (Some t, True) \<Longrightarrow> item_status w (t_to t)"

inductive_cases item_statusE: "item_status w s"

lemma InitialStatus_listed:
  assumes "StatusIDs w \<noteq> []" "\<And>t. t \<in> set (w_transitions w) \<Longrightarrow> t_to t \<noteq> []"
  shows "InitialStatus w \<in> set (StatusIDs w)"
proof (cases "Initial w")
  case None
  with assms(1) show ?thesis by (auto simp: InitialStatus_def split: list.splits)
next
  case (Some t)
  then have "t \<in> set (w_transitions w)" by (auto simp: Initial_def find_Some_iff)
  with assms(2) Some show ?thesis by (auto simp: InitialStatus_def set_StatusIDs named_statuses_def)
qed

text \<open>Property C15: a work item never leaves its workflow. When every transition names a destination
  and the workflow has a status at all, every status a work item can reach from its creation, by any
  sequence of transitions the engine allows, is one of \<open>StatusIDs\<close>, which lists each
  status once and no blank one; and no allowed transition is the initial one.\<close>

theorem items_stay_in_workflow:
  assumes "StatusIDs w \<noteq> []" "\<forall>t \<in> set (w_transitions w). t_to t \<noteq> []" "item_status w s"
  shows "s \<in> set (StatusIDs w) \<and> distinct (StatusIDs w) \<and> [] \<notin> set (StatusIDs w) \<and>
    (\<forall>i t. Validate w i s = (Some t, True) \<longrightarrow> Kind t \<noteq> TransitionInitial \<and> t_to t \<in> set (StatusIDs w))"
proof -
  have to: "t_to t \<in> set (StatusIDs w)" if "Validate w i r = (Some t, True)" for i r t
    using Validate_Some [OF that] assms(2) by (auto simp: set_StatusIDs named_statuses_def)
  have "s \<in> set (StatusIDs w)"
    using assms(3)
    by (induction rule: item_status.induct) (use InitialStatus_listed assms(1,2) to in auto)
  moreover have "Kind t \<noteq> TransitionInitial" if "Validate w i s = (Some t, True)" for i t
    using Validate_Some [OF that] by (auto simp: runsFrom_def)
  ultimately show ?thesis using distinct_StatusIDs StatusIDs_nonblank to by blast
qed

lemma default_reaches_done: "item_status Default ''st_done''"
proof -
  have start: "InitialStatus Default = ''st_todo''"
    by (simp add: InitialStatus_def Initial_def Default_def plain_transition_def Kind_def TransitionInitial_def)
  have "Validate Default ''31'' ''st_todo'' =
     (Some (plain_transition ''31'' ''Done'' [] [''st_todo'', ''st_inprogress''] ''st_done''), True)"
    by (simp add: Validate_def Default_def plain_transition_def runsFrom_def Kind_def TransitionInitial_def
        TransitionGlobal_def TransitionDirected_def)
  from moved [OF created [of Default, unfolded start] this] show ?thesis by (simp add: plain_transition_def)
qed

lemma items_stay_in_workflow_witness: "''st_done'' \<in> set (StatusIDs Default)"
proof -
  have "StatusIDs Default \<noteq> []"
    by (simp add: StatusIDs_def Default_def plain_transition_def add_status_def)
  moreover have "\<forall>t \<in> set (w_transitions Default). t_to t \<noteq> []"
    by (simp add: Default_def plain_transition_def)
  ultimately show ?thesis using items_stay_in_workflow default_reaches_done by blast
qed

section \<open>New transition ids\<close>

definition higher :: "transition \<Rightarrow> int \<Rightarrow> int" where
  "higher t h = (case atoi (t_id t) of Some i \<Rightarrow> if i > h then i else h | None \<Rightarrow> h)"

lemma higher_ge: "h \<le> higher t h" "atoi (t_id t) = Some i \<Longrightarrow> i \<le> higher t h"
  by (auto simp: higher_def split: option.split)

lemma fold_higher_ge: "h \<le> fold higher ts h"
  by (induction ts arbitrary: h) (auto intro: order_trans [OF higher_ge(1)])

lemma fold_higher_bound: "t \<in> set ts \<Longrightarrow> atoi (t_id t) = Some i \<Longrightarrow> i \<le> fold higher ts h"
proof (induction ts arbitrary: h)
  case (Cons u ts)
  show ?case
  proof (cases "t = u")
    case True
    with Cons.prems have "i \<le> higher u h" by (simp add: higher_ge(2))
    also have "\<dots> \<le> fold higher ts (higher u h)" by (rule fold_higher_ge)
    finally show ?thesis by simp
  next
    case False
    with Cons show ?thesis by simp
  qed
qed simp

lemma highest_id_higher: "highest_id ts = fold higher ts 1"
  by (simp add: highest_id_def higher_def [abs_def])

lemma highest_id_ge: "1 \<le> highest_id ts"
  by (simp add: highest_id_higher fold_higher_ge)

lemma highest_id_bound: "t \<in> set ts \<Longrightarrow> atoi (t_id t) = Some i \<Longrightarrow> i \<le> highest_id ts"
  by (simp add: highest_id_higher fold_higher_bound)

text \<open>Below the overflow of Go's \<open>int\<close>, a new transition id is the number ending in 1
  at most 11 above the highest numeric id, and no transition of the workflow has it.\<close>

theorem new_transition_id_is_fresh:
  assumes "highest_id ts < 2 ^ 63 - 20"
  shows "(\<forall>t \<in> set ts. t_id t \<noteq> NextTransitionID ts) \<and>
    (\<exists>n. atoi (NextTransitionID ts) = Some n \<and> n mod 10 = 1 \<and> highest_id ts < n \<and> n \<le> highest_id ts + 11)"
proof -
  define h where "h = highest_id ts"
  define n where "n = (h div 10 + 1) * 10 + 1"
  have h: "1 \<le> h" by (simp add: h_def highest_id_ge)
  have lo: "h < n" and hi: "n \<le> h + 11" unfolding n_def by presburger+
  have small: "n < 2 ^ 63" using hi assms by (simp add: h_def)
  have "wrap64 (n - 1) = n - 1" by (rule wrap64_id) (use h lo small in simp_all)
  moreover have "wrap64 n = n" by (rule wrap64_id) (use h lo small in simp_all)
  moreover have "(h div 10 + 1) * 10 = n - 1" by (simp add: n_def)
  ultimately have next_eq: "NextTransitionID ts = itoa n"
    by (simp only: NextTransitionID_def h_def [symmetric]) simp
  have parsed: "atoi (itoa n) = Some n"
    by (rule atoi_itoa) (use h lo small in simp_all)
  have "t_id t \<noteq> itoa n" if "t \<in> set ts" for t
  proof
    assume "t_id t = itoa n"
    with parsed have "n \<le> highest_id ts" by (intro highest_id_bound [OF that]) simp
    with lo show False by (simp add: h_def)
  qed
  moreover have "n mod 10 = 1" unfolding n_def by presburger
  ultimately show ?thesis
    using next_eq parsed lo hi unfolding h_def by (intro conjI ballI exI [of _ n]) simp_all
qed

lemma new_transition_id_is_fresh_witness:
  "highest_id (w_transitions Default) = 31 \<and>
   NextTransitionID (w_transitions Default) \<notin> t_id ` set (w_transitions Default) \<and>
   (\<exists>n. atoi (NextTransitionID (w_transitions Default)) = Some n \<and> n mod 10 = 1 \<and> 31 < n \<and> n \<le> 42)"
proof -
  have "atoi ''1'' = Some 1" "atoi ''11'' = Some 11" "atoi ''21'' = Some 21" "atoi ''31'' = Some 31"
    by (simp_all add: atoi_def is_digit_def)
  then have h: "highest_id (w_transitions Default) = 31"
    by (simp add: highest_id_def Default_def plain_transition_def)
  then have "highest_id (w_transitions Default) < 2 ^ 63 - 20" by simp
  from new_transition_id_is_fresh [OF this] h show ?thesis by auto
qed

end
