(* ===== verification/Adf.thy ===== *)
theory Adf
  imports GoJson
begin

text \<open>
  \<open>internal/adf/adf.go\<close>: Atlassian Document Format trees, the text they hold, the accounts they
  mention, and the ingest filter \<open>Normalize\<close>. Decoding a document from JSON is the argument
  \<open>decode\<close> (\<open>json.Unmarshal\<close> into \<open>Node\<close>). Rendering to HTML and storage format is not modelled.
\<close>

section \<open>Model\<close>

datatype 'f mark = Mark (mark_type: string) (mark_attrs: "(string \<times> 'f json) list")

datatype 'f node = Node
  (n_type: string) (n_version: int) (n_attrs: "(string \<times> 'f json) list")
  (n_content: "'f node list") (n_text: string) (n_marks: "'f mark list")

definition supportedNode :: "string \<Rightarrow> bool" where
  "supportedNode t \<longleftrightarrow> t \<in> set [''doc'', ''paragraph'', ''heading'', ''bulletList'', ''orderedList'', ''listItem'',
     ''codeBlock'', ''blockquote'', ''hardBreak'', ''table'', ''tableRow'', ''tableHeader'', ''tableCell'',
     ''mention'', ''emoji'', ''text'', ''taskList'', ''taskItem'', ''date'', ''rule'', ''panel'', ''status'']"

definition supportedMark :: "string \<Rightarrow> bool" where
  "supportedMark t \<longleftrightarrow> t \<in> set [''strong'', ''em'', ''code'', ''link'', ''underline'', ''strike'']"

definition TextNode :: "string \<Rightarrow> 'f node" where
  "TextNode s = Node ''text'' 0 [] [] s []"

definition empty_node :: "'f node" where
  "empty_node = Node [] 0 [] [] [] []"

fun collectText :: "'f node \<Rightarrow> string" where
  "collectText (Node t v ats cs tx ms) =
     (if tx \<noteq> [] then tx @ [CHR 0x0A] else []) @ concat (map collectText cs)"

fun collectTextNodes :: "'f node \<Rightarrow> 'f node list" where
  "collectTextNodes (Node t v ats cs tx ms) =
     (if tx \<noteq> [] then [TextNode tx] else []) @ concat (map collectTextNodes cs)"

fun trim_newlines_tail :: "string \<Rightarrow> string" where
  "trim_newlines_tail [] = []"
| "trim_newlines_tail (c # s) = (if c = CHR 0x0A then trim_newlines_tail s else c # s)"

definition PlainText :: "(string \<Rightarrow> 'f node option) \<Rightarrow> string \<Rightarrow> string" where
  "PlainText decode raw =
     (if raw = [] then []
      else case decode raw of None \<Rightarrow> [] | Some doc \<Rightarrow> rev (trim_newlines_tail (rev (collectText doc))))"

text \<open>\<open>n.Attrs["id"].(string)\<close>, empty when missing or of another type.\<close>

definition mention_id :: "'f node \<Rightarrow> string" where
  "mention_id n = (case map_of (n_attrs n) ''id'' of Some (JString s) \<Rightarrow> s | _ \<Rightarrow> [])"

text \<open>The walk of \<open>MentionedAccounts\<close>, which threads the accounts found so far (the \<open>seen\<close> map holds
  the same ids).\<close>

fun walk_mentions :: "'f node \<Rightarrow> string list \<Rightarrow> string list" where
  "walk_mentions (Node t v ats cs tx ms) accounts =
     (let i = mention_id (Node t v ats cs tx ms);
          accounts' = (if t = ''mention'' \<and> i \<noteq> [] \<and> i \<notin> set accounts then accounts @ [i] else accounts)
      in fold walk_mentions cs accounts')"

definition MentionedAccounts :: "(string \<Rightarrow> 'f node option) \<Rightarrow> string \<Rightarrow> string list" where
  "MentionedAccounts decode raw =
     (if raw = [] then [] else case decode raw of None \<Rightarrow> [] | Some doc \<Rightarrow> walk_mentions doc [])"

fun normalizeNode :: "'f node \<Rightarrow> 'f node \<times> bool" where
  "normalizeNode (Node t v ats cs tx ms) =
     (if \<not> supportedNode t \<and> t \<noteq> ''doc'' then
        (let texts = collectTextNodes (Node t v ats cs tx ms)
         in if texts = [] then (empty_node, True) else (Node ''paragraph'' 0 [] texts [] [], True))
      else
        (let marks = filter (\<lambda>m. supportedMark (mark_type m)) ms;
             dropped = (\<exists>m \<in> set ms. \<not> supportedMark (mark_type m));
             children = map normalizeNode cs
         in (Node t v ats (filter (\<lambda>c. n_type c \<noteq> []) (map fst children)) tx marks,
             dropped \<or> (\<exists>c \<in> set children. snd c))))"

text \<open>\<open>encode\<close> is \<open>json.Marshal\<close> of a node (None is an error).\<close>

definition Normalize :: "(string \<Rightarrow> 'f node option) \<Rightarrow> ('f node \<Rightarrow> string option) \<Rightarrow> string \<Rightarrow> string" where
  "Normalize decode encode raw =
     (if raw = [] then raw
      else case decode raw of
        None \<Rightarrow> raw
      | Some doc \<Rightarrow> (case normalizeNode doc of
          (out, changed) \<Rightarrow> if \<not> changed then raw
            else case encode out of None \<Rightarrow> raw | Some b \<Rightarrow> b))"

section \<open>The ingest guarantee\<close>

text \<open>Every node and mark of a tree is in the supported subset.\<close>

fun all_supported :: "'f node \<Rightarrow> bool" where
  "all_supported (Node t v ats cs tx ms) \<longleftrightarrow>
     supportedNode t \<and> (\<forall>m \<in> set ms. supportedMark (mark_type m)) \<and> (\<forall>c \<in> set cs. all_supported c)"

lemma text_supported [simp]: "supportedNode ''text''" "supportedNode ''paragraph''" "supportedNode ''doc''"
  by (simp_all add: supportedNode_def)

lemma not_supported_Nil [simp]: "\<not> supportedNode []"
  by (simp add: supportedNode_def)

lemma collectTextNodes_supported: "m \<in> set (collectTextNodes n) \<Longrightarrow> all_supported m \<and> n_type m = ''text''"
  by (induction n rule: collectTextNodes.induct) (auto simp: TextNode_def split: if_splits)

lemma collectText_nodes: "concat (map collectText (collectTextNodes n)) = collectText n"
proof (induction n rule: collectTextNodes.induct)
  case (1 t v ats cs tx ms)
  have "concat (map collectText (concat (map collectTextNodes cs))) = concat (map collectText cs)"
    using 1 by (induction cs) auto
  then show ?case by (simp add: TextNode_def)
qed

lemma collectText_empty [simp]: "collectText empty_node = []"
  by (simp add: empty_node_def)

lemma all_supported_typed: "all_supported n \<Longrightarrow> n_type n \<noteq> []"
  by (cases n) auto

lemma normalizeNode_supported: "all_supported (fst (normalizeNode n)) \<or> fst (normalizeNode n) = empty_node"
proof (induction n rule: normalizeNode.induct)
  case (1 t v ats cs tx ms)
  show ?case
  proof (cases "supportedNode t")
    case False
    then have "t \<noteq> ''doc''" by auto
    with False show ?thesis
      using collectTextNodes_supported [of _ "Node t v ats cs tx ms"]
      by (simp add: Let_def del: collectTextNodes.simps)
  next
    case True
    have "all_supported c" if "c \<in> set (filter (\<lambda>c. n_type c \<noteq> []) (map fst (map normalizeNode cs)))" for c
      using that 1 [OF _ refl refl] True by (fastforce simp: empty_node_def)
    with True show ?thesis by (auto simp: Let_def)
  qed
qed

lemma concat_filter_empty:
  "(\<And>x. x \<in> set xs \<Longrightarrow> \<not> P x \<Longrightarrow> f x = []) \<Longrightarrow> concat (map f (filter P xs)) = concat (map f xs)"
  by (induction xs) auto

lemma normalizeNode_text: "collectText (fst (normalizeNode n)) = collectText n"
proof (induction n rule: normalizeNode.induct)
  case (1 t v ats cs tx ms)
  show ?case
  proof (cases "supportedNode t")
    case False
    then have "t \<noteq> ''doc''" by auto
    with False collectText_nodes [of "Node t v ats cs tx ms"] show ?thesis
      by (auto simp: Let_def simp del: collectText.simps collectTextNodes.simps) auto
  next
    case True
    let ?kids = "map fst (map normalizeNode cs)"
    have gone: "collectText x = []" if "x \<in> set ?kids" "\<not> n_type x \<noteq> []" for x
    proof -
      from that(1) obtain c where "x = fst (normalizeNode c)" by (auto simp del: normalizeNode.simps)
      with normalizeNode_supported [of c] that(2) have "x = empty_node"
        using all_supported_typed by blast
      then show ?thesis by simp
    qed
    have "concat (map collectText (filter (\<lambda>c. n_type c \<noteq> []) ?kids)) = concat (map collectText ?kids)"
      using gone by (rule concat_filter_empty)
    also have "\<dots> = concat (map collectText cs)"
      using 1 True by (induction cs) auto
    finally show ?thesis using True by (simp add: Let_def)
  qed
qed

lemma normalizeNode_unchanged: "\<not> snd (normalizeNode n) \<Longrightarrow> fst (normalizeNode n) = n"
proof (induction n rule: normalizeNode.induct)
  case (1 t v ats cs tx ms)
  then have sup: "supportedNode t \<or> t = ''doc''" by (auto simp: Let_def split: if_splits)
  then have t: "supportedNode t" by auto
  with 1(2) have kids: "\<forall>c \<in> set cs. \<not> snd (normalizeNode c)" and ms: "\<forall>m \<in> set ms. supportedMark (mark_type m)"
    by (auto simp: Let_def)
  have same: "fst (normalizeNode c) = c" if "c \<in> set cs" for c
    using 1(1) [OF _ refl refl that] t kids that by auto
  have typed: "n_type c \<noteq> []" if "c \<in> set cs" for c
  proof
    assume "n_type c = []"
    then have "snd (normalizeNode c)" by (cases c) (auto simp: Let_def)
    with kids that show False by blast
  qed
  have "filter (\<lambda>c. n_type c \<noteq> []) (map fst (map normalizeNode cs)) = cs"
    using same typed by (simp add: map_idI filter_id_conv o_def)
  with t ms show ?case by (simp add: Let_def filter_id_conv)
qed

text \<open>Property C38: what \<open>Normalize\<close> accepts holds only supported nodes and marks unless the whole
  document is dropped, keeps every piece of text in order, and reports no change exactly by
  leaving the tree as it was.\<close>

theorem normalize_is_safe_and_keeps_text:
  "(all_supported (fst (normalizeNode n)) \<or> fst (normalizeNode n) = empty_node \<and> collectText n = []) \<and>
   collectText (fst (normalizeNode n)) = collectText n \<and>
   (snd (normalizeNode n) \<or> fst (normalizeNode n) = n)"
  using normalizeNode_supported [of n] normalizeNode_text [of n] normalizeNode_unchanged [of n]
  by (metis collectText_empty)

end
