(* ===== verification/WorkflowEval.thy ===== *)
theory WorkflowEval
  imports Workflow Adf
begin

text \<open>
  \<open>internal/workflow/workflow.go\<close> and \<open>issue.go\<close>, what rules compute on a work item: the comparison of
  JSON field values, condition groups, validators, and the effects of post-functions. \<open>encoding/json\<close>,
  \<open>regexp\<close>, \<open>time\<close> and \<open>float64\<close> are the argument \<open>lib\<close>, decoding an ADF document the argument
  \<open>decode\<close>. A nil or missing \<open>json.RawMessage\<close> is the empty string, and a map read is a function with Go's
  zero value for missing keys.
\<close>

section \<open>Rule keys\<close>

definition RuleRestrictIssueTransition :: string where "RuleRestrictIssueTransition = ''system:restrict-issue-transition''"
definition RuleRestrictFromAllUsers :: string where "RuleRestrictFromAllUsers = ''system:restrict-from-all-users''"
definition RuleCheckFieldValue :: string where "RuleCheckFieldValue = ''system:check-field-value''"
definition RulePreviousStatusCondition :: string where "RulePreviousStatusCondition = ''system:previous-status-condition''"
definition RulePreviousStatusValidator :: string where "RulePreviousStatusValidator = ''system:previous-status-validator''"
definition RuleSeparationOfDuties :: string where "RuleSeparationOfDuties = ''system:separation-of-duties''"
definition RuleParentChildCondition :: string where "RuleParentChildCondition = ''system:parent-or-child-blocking-condition''"
definition RuleParentChildValidator :: string where "RuleParentChildValidator = ''system:parent-or-child-blocking-validator''"
definition RuleFormsAttachedValidator :: string where "RuleFormsAttachedValidator = ''system:proforma-forms-attached''"
definition RuleFormsSubmittedValidator :: string where "RuleFormsSubmittedValidator = ''system:proforma-forms-submitted''"
definition RuleCheckPermissionValidator :: string where "RuleCheckPermissionValidator = ''system:check-permission-validator''"
definition RuleValidateFieldValue :: string where "RuleValidateFieldValue = ''system:validate-field-value''"
definition RuleChangeAssignee :: string where "RuleChangeAssignee = ''system:change-assignee''"
definition RuleUpdateField :: string where "RuleUpdateField = ''system:update-field''"
definition RuleCopyFieldValue :: string where "RuleCopyFieldValue = ''system:copy-value-from-other-field''"
definition RuleTriggerWebhook :: string where "RuleTriggerWebhook = ''system:trigger-webhook''"
definition RuleDevelopmentTrigger :: string where "RuleDevelopmentTrigger = ''system:development-triggers''"
definition DevelopmentBranchCreated :: string where
  "DevelopmentBranchCreated = ''com.atlassian.jira.plugins.jira-development-integration-plugin:branch-created-trigger''"
definition RuleTransitionScreen :: string where "RuleTransitionScreen = ''system:transition-screen''"
definition RuleBlockInProgressApproval :: string where "RuleBlockInProgressApproval = ''system:block-in-progress-approval''"
definition RuleApprovalsBlockUntilApproved :: string where
  "RuleApprovalsBlockUntilApproved = ''system:jsd-approvals-block-until-approved''"
definition RuleApprovalsBlockUntilRejected :: string where
  "RuleApprovalsBlockUntilRejected = ''system:jsd-approvals-block-until-rejected''"
definition RuleRemindToUpdateFields :: string where "RuleRemindToUpdateFields = ''system:remind-people-to-update-fields''"
definition RuleTriggerAgent :: string where "RuleTriggerAgent = ''system:trigger-agent''"

lemmas rule_keys = RuleRestrictIssueTransition_def RuleRestrictFromAllUsers_def RuleCheckFieldValue_def
  RulePreviousStatusCondition_def RulePreviousStatusValidator_def RuleSeparationOfDuties_def
  RuleParentChildCondition_def RuleParentChildValidator_def RuleFormsAttachedValidator_def
  RuleFormsSubmittedValidator_def RuleCheckPermissionValidator_def RuleValidateFieldValue_def
  RuleChangeAssignee_def RuleUpdateField_def RuleCopyFieldValue_def RuleTriggerWebhook_def
  RuleDevelopmentTrigger_def DevelopmentBranchCreated_def RuleTransitionScreen_def
  RuleBlockInProgressApproval_def RuleApprovalsBlockUntilApproved_def RuleApprovalsBlockUntilRejected_def
  RuleRemindToUpdateFields_def RuleTriggerAgent_def

definition IsAppRule :: "string \<Rightarrow> bool" where
  "IsAppRule key \<longleftrightarrow> has_prefix ''connect:'' key \<or> has_prefix ''forge:'' key"

definition commaValues :: "string \<Rightarrow> string list" where
  "commaValues s = filter (\<lambda>p. p \<noteq> []) (map trim_space (split_on CHR '','' s))"

definition stringSet :: "string \<Rightarrow> string set" where
  "stringSet s = set (commaValues s)"

section \<open>The facts rules may use\<close>

record transition_history =
  h_from :: string
  h_to :: string
  h_actor :: string

record evaluation =
  c_actor :: string
  c_assignee :: string
  c_reporter :: string
  c_present :: "string \<Rightarrow> bool"
  c_changed :: "string \<Rightarrow> bool"
  c_values :: "string \<rightharpoonup> string"
  c_history :: "string list"
  c_status :: string
  c_transitions :: "transition_history list"
  c_permissions :: "string \<Rightarrow> bool"
  c_parent_status :: string
  c_child_statuses :: "string list"
  c_forms_attached :: int
  c_forms_submitted :: bool
  c_is_api :: bool
  c_groups :: "string list"
  c_approvals :: "string list"

definition empty_evaluation :: evaluation where
  "empty_evaluation = \<lparr>c_actor = [], c_assignee = [], c_reporter = [], c_present = (\<lambda>_. False),
     c_changed = (\<lambda>_. False), c_values = Map.empty, c_history = [], c_status = [], c_transitions = [],
     c_permissions = (\<lambda>_. False), c_parent_status = [], c_child_statuses = [], c_forms_attached = 0,
     c_forms_submitted = False, c_is_api = False, c_groups = [], c_approvals = []\<rparr>"

definition raw_value :: "evaluation \<Rightarrow> string \<Rightarrow> string" where
  "raw_value c field = (case c_values c field of None \<Rightarrow> [] | Some v \<Rightarrow> v)"

definition workflowActorExempt :: "evaluation \<Rightarrow> string \<Rightarrow> bool" where
  "workflowActorExempt c exempt \<longleftrightarrow>
     (\<exists>g \<in> set (commaValues exempt). \<exists>held \<in> set (c_groups c). equal_fold (trim_space g) (trim_space held))"

definition approvalState :: "string list \<Rightarrow> nat \<times> nat \<times> nat" where
  "approvalState ds =
     fold (\<lambda>d (p, a, r). if d = ''pending'' then (Suc p, a, r)
                          else if d = ''approved'' then (p, Suc a, r)
                          else if d = ''declined'' then (p, a, Suc r)
                          else (p, a, r)) ds (0, 0, 0)"

section \<open>Comparing field values\<close>

definition bool_text :: "bool \<Rightarrow> string" where
  "bool_text b = (if b then ''true'' else ''false'')"

definition scalar_keys :: "string \<Rightarrow> string list" where
  "scalar_keys ty =
     (if ty = ''OPTIONID'' then [''id'', ''value'', ''key'', ''accountId'', ''name'']
      else [''value'', ''name'', ''key'', ''accountId'', ''id''])"

text \<open>The first of the keys an object has decides, so the scalars of the members are computed beside them.\<close>

fun first_member :: "(string \<times> 'a) list \<Rightarrow> string list \<Rightarrow> 'a option" where
  "first_member ms [] = None"
| "first_member ms (k # ks) = (case map_of ms k of Some v \<Rightarrow> Some v | None \<Rightarrow> first_member ms ks)"

fun workflowScalar :: "('f, 'z) golib_scheme \<Rightarrow> string \<Rightarrow> 'f json \<Rightarrow> string" where
  "workflowScalar lib ty (JObject ms) =
     (case first_member (map (\<lambda>(k, v). (k, workflowScalar lib ty v)) ms) (scalar_keys ty) of
        Some s \<Rightarrow> s | None \<Rightarrow> [])"
| "workflowScalar lib ty (JString s) = s"
| "workflowScalar lib ty (JNumber x) = format_float lib x"
| "workflowScalar lib ty (JBool b) = bool_text b"
| "workflowScalar lib ty JNull = []"
| "workflowScalar lib ty (JArray xs) = sprint lib xs"

definition parseWorkflowDate :: "('f, 'z) golib_scheme \<Rightarrow> string \<Rightarrow> bool \<Rightarrow> int option" where
  "parseWorkflowDate lib s include_time =
     (if include_time then
        (case parse_rfc3339 lib s of Some t \<Rightarrow> Some t | None \<Rightarrow> parse_date lib s)
      else parse_date lib (if length s \<ge> 10 then take 10 s else s))"

definition holds :: "string \<Rightarrow> bool \<Rightarrow> bool \<Rightarrow> bool" where
  "holds comparator lt gt =
     (if comparator = ''='' then \<not> lt \<and> \<not> gt
      else if comparator = ''!='' then lt \<or> gt
      else if comparator = ''>'' then gt
      else if comparator = ''>='' then \<not> lt
      else if comparator = ''<'' then lt
      else if comparator = ''<='' then \<not> gt
      else False)"

definition compareWorkflowValues ::
  "('f, 'z) golib_scheme \<Rightarrow> 'f json \<Rightarrow> 'f json \<Rightarrow> string \<Rightarrow> string \<Rightarrow> bool" where
  "compareWorkflowValues lib l r comparator ty =
     (let lv = workflowScalar lib ty l; rv = workflowScalar lib ty r
      in if ty = ''NUMBER'' then
           (case (parse_float lib lv, parse_float lib rv) of
              (Some x, Some y) \<Rightarrow>
                holds comparator (float_less lib x y) (\<not> float_less lib x y \<and> float_less lib y x)
            | _ \<Rightarrow> False)
         else if ty = ''DATE'' \<or> ty = ''DATE_WITHOUT_TIME'' then
           (case (parseWorkflowDate lib lv (ty = ''DATE''), parseWorkflowDate lib rv (ty = ''DATE'')) of
              (Some x, Some y) \<Rightarrow> holds comparator (x < y) (x > y)
            | _ \<Rightarrow> False)
         else holds comparator (lv < rv) (rv < lv))"

definition comparableJSONValues :: "('f, 'z) golib_scheme \<Rightarrow> string \<Rightarrow> 'f json list" where
  "comparableJSONValues lib raw =
     (case unmarshal lib raw of None \<Rightarrow> [] | Some (JArray xs) \<Rightarrow> xs | Some v \<Rightarrow> [v])"

definition comparisonValues :: "('f, 'z) golib_scheme \<Rightarrow> string \<Rightarrow> 'f json list option" where
  "comparisonValues lib s =
     (case unmarshal lib s of Some (JArray xs) \<Rightarrow> (if xs = [] then None else Some xs) | _ \<Rightarrow> None)"

definition jsonValuePresent :: "('f, 'z) golib_scheme \<Rightarrow> (string \<Rightarrow> 'f node option) \<Rightarrow> string \<Rightarrow> bool" where
  "jsonValuePresent lib decode raw =
     (let s = trim_space raw
      in if s = [] \<or> s = ''null'' \<or> s = [CHR 0x22, CHR 0x22] \<or> s = ''[]'' \<or> s = ''{}'' then False
         else if has_prefix ''{'' s \<and> struct_type lib raw = Some ''doc'' then
           trim_space (PlainText decode raw) \<noteq> []
         else True)"

definition checkFieldValue ::
  "('f, 'z) golib_scheme \<Rightarrow> (string \<Rightarrow> 'f node option) \<Rightarrow> rule \<Rightarrow> evaluation \<Rightarrow> bool" where
  "checkFieldValue lib decode r c =
     (case c_values c (param r ''fieldId'') of
        None \<Rightarrow> False
      | Some actual \<Rightarrow>
        (if \<not> jsonValuePresent lib decode actual then False
         else case comparisonValues lib (param r ''fieldValue'') of
           None \<Rightarrow> False
         | Some expected \<Rightarrow>
           (let values = comparableJSONValues lib actual; ty = param r ''comparisonType''
            in if values = [] then False
               else if param r ''comparator'' = ''!='' then
                 \<not> (\<exists>l \<in> set values. \<exists>x \<in> set expected. compareWorkflowValues lib l x ''='' ty)
               else \<exists>l \<in> set values. \<exists>x \<in> set expected.
                 compareWorkflowValues lib l x (param r ''comparator'') ty)))"

definition previousStatusMatches :: "rule \<Rightarrow> evaluation \<Rightarrow> bool" where
  "previousStatusMatches r c =
     (let wanted = set (commaValues (param r ''previousStatusIds''));
          past = c_history c @
            (if param r ''includeCurrentStatus'' = ''true'' \<and> c_status c \<noteq> [] then [c_status c] else [])
      in if past = [] then False
         else if param r ''mostRecentStatusOnly'' = ''true'' then last past \<in> wanted
         else \<exists>s \<in> set past. s \<in> wanted)"

section \<open>Conditions\<close>

definition evaluateCondition ::
  "('f, 'z) golib_scheme \<Rightarrow> (string \<Rightarrow> 'f node option) \<Rightarrow> rule \<Rightarrow> evaluation \<Rightarrow> bool" where
  "evaluateCondition lib decode r c =
     (if IsAppRule (rule_key r) then True
      else if rule_key r = RuleCheckFieldValue then checkFieldValue lib decode r c
      else if rule_key r = RulePreviousStatusCondition then
        (if param r ''not'' = ''true'' then \<not> previousStatusMatches r c else previousStatusMatches r c)
      else if rule_key r = RuleSeparationOfDuties then
        \<not> (\<exists>h \<in> set (c_transitions c). h_actor h = c_actor c \<and> h_from h = param r ''fromStatusId'' \<and>
             h_to h = param r ''toStatusId'')
      else if rule_key r = RuleParentChildCondition then
        \<not> (\<exists>s \<in> set (c_child_statuses c). s \<in> stringSet (param r ''statusIds''))
      else if rule_key r = RuleRestrictFromAllUsers then
        param r ''restrictMode'' = ''users'' \<and> c_is_api c
      else if rule_key r = RuleBlockInProgressApproval then
        (case approvalState (c_approvals c) of (pending, _, _) \<Rightarrow> pending = 0)
      else if rule_key r = RuleApprovalsBlockUntilApproved then
        (case approvalState (c_approvals c) of (pending, approved, _) \<Rightarrow> pending = 0 \<and> approved > 0)
      else if rule_key r = RuleApprovalsBlockUntilRejected then
        (case approvalState (c_approvals c) of (pending, _, declined) \<Rightarrow> pending = 0 \<and> declined > 0)
      else if rule_key r = RuleRestrictIssueTransition then
        (\<exists>v \<in> set (commaValues (param r ''accountIds'')). c_actor c \<noteq> [] \<and>
           c_actor c = (if v = ''allow-assignee'' then c_assignee c
                        else if v = ''allow-reporter'' then c_reporter c else v))
      else False)"

fun evaluateConditionGroup ::
  "('f, 'z) golib_scheme \<Rightarrow> (string \<Rightarrow> 'f node option) \<Rightarrow> condition_group \<Rightarrow> evaluation \<Rightarrow> bool" where
  "evaluateConditionGroup lib decode (ConditionGroup op cs gs) c =
     (let results = map (\<lambda>r. evaluateCondition lib decode r c) cs @
                    map (\<lambda>g. evaluateConditionGroup lib decode g c) gs
      in if results = [] then True
         else if equal_fold op ''ANY'' then True \<in> set results
         else False \<notin> set results)"

definition ConditionsAllow ::
  "('f, 'z) golib_scheme \<Rightarrow> (string \<Rightarrow> 'f node option) \<Rightarrow> transition \<Rightarrow> evaluation \<Rightarrow> bool" where
  "ConditionsAllow lib decode t c =
     (case t_conditions t of None \<Rightarrow> True | Some g \<Rightarrow> evaluateConditionGroup lib decode g c)"

definition AvailableFor ::
  "('f, 'z) golib_scheme \<Rightarrow> (string \<Rightarrow> 'f node option) \<Rightarrow> workflow \<Rightarrow> string \<Rightarrow> evaluation \<Rightarrow> transition list" where
  "AvailableFor lib decode w status c = filter (\<lambda>t. ConditionsAllow lib decode t c) (Available w status)"

section \<open>Validators\<close>

definition PermissionKeys :: "transition \<Rightarrow> string list" where
  "PermissionKeys t =
     map (\<lambda>r. param r ''permissionKey'')
       (filter (\<lambda>r. rule_key r = RuleCheckPermissionValidator \<and> param r ''permissionKey'' \<noteq> []) (t_validators t))"

definition or_default :: "string \<Rightarrow> string \<Rightarrow> string \<Rightarrow> go_error" where
  "or_default message fmt field =
     (let m = trim_space message in if m = [] then Errorf fmt [field] else Errorf ''%s'' [m])"

definition workflowFieldMatches :: "('f, 'z) golib_scheme \<Rightarrow> (string \<Rightarrow> bool) \<Rightarrow> string \<Rightarrow> bool" where
  "workflowFieldMatches lib pattern raw \<longleftrightarrow>
     (\<exists>v \<in> set (comparableJSONValues lib raw). pattern (workflowScalar lib ''STRING'' v))"

definition workflowFieldHasSingleValue ::
  "('f, 'z) golib_scheme \<Rightarrow> (string \<Rightarrow> 'f node option) \<Rightarrow> string \<Rightarrow> bool" where
  "workflowFieldHasSingleValue lib decode raw =
     (if \<not> jsonValuePresent lib decode raw then False
      else case unmarshal lib raw of
        None \<Rightarrow> False | Some (JArray xs) \<Rightarrow> length xs = 1 | Some _ \<Rightarrow> True)"

definition workflowFieldsCompare ::
  "('f, 'z) golib_scheme \<Rightarrow> string \<Rightarrow> string \<Rightarrow> string \<Rightarrow> string \<Rightarrow> bool" where
  "workflowFieldsCompare lib left_raw right_raw comparator ty \<longleftrightarrow>
     (\<exists>l \<in> set (comparableJSONValues lib left_raw). \<exists>r \<in> set (comparableJSONValues lib right_raw).
        compareWorkflowValues lib l r comparator ty)"

definition workflowFieldsWithinDays ::
  "('f, 'z) golib_scheme \<Rightarrow> string \<Rightarrow> string \<Rightarrow> int \<Rightarrow> bool" where
  "workflowFieldsWithinDays lib date_raw reference_raw days \<longleftrightarrow>
     (\<exists>d \<in> set (comparableJSONValues lib date_raw).
        case parseWorkflowDate lib (workflowScalar lib ''DATE_WITHOUT_TIME'' d) False of
          None \<Rightarrow> False
        | Some date \<Rightarrow>
            (\<exists>r \<in> set (comparableJSONValues lib reference_raw).
               case parseWorkflowDate lib (workflowScalar lib ''DATE_WITHOUT_TIME'' r) False of
                 None \<Rightarrow> False
               | Some reference \<Rightarrow> \<not> date > add_days lib reference days))"

definition unsupported_validator :: "rule \<Rightarrow> go_error" where
  "unsupported_validator r = Errorf ''unsupported workflow validator %q'' [rule_key r]"

text \<open>\<open>days, _ := strconv.Atoi(s)\<close>: on a syntax error the value is 0, out of range it is the nearest bound.\<close>

definition atoi_value :: "string \<Rightarrow> int" where
  "atoi_value s =
     (case atoi s of
        Some i \<Rightarrow> i
      | None \<Rightarrow>
          (let (neg, ds) = (case s of
              c # r \<Rightarrow> if c = CHR ''-'' then (True, r) else if c = CHR ''+'' then (False, r) else (False, s)
            | [] \<Rightarrow> (False, []))
           in if ds = [] \<or> digits_value 0 ds = None then 0
              else if neg then - (2 ^ 63) else 2 ^ 63 - 1))"

definition field_rule_error ::
  "('f, 'z) golib_scheme \<Rightarrow> (string \<Rightarrow> 'f node option) \<Rightarrow> evaluation \<Rightarrow> rule \<Rightarrow> go_error option" where
  "field_rule_error lib decode c r =
     (let ty = param r ''ruleType''; field = param r ''fieldKey''
      in if ty = ''fieldRequired'' then
           (case find (\<lambda>f. \<not> c_present c f) (commaValues (param r ''fieldsRequired'')) of
              None \<Rightarrow> None
            | Some f \<Rightarrow> Some (or_default (param r ''errorMessage'') ''%s is required'' f))
         else if ty = ''fieldChanged'' then
           (if workflowActorExempt c (param r ''groupsExemptFromValidation'') then None
            else if \<not> c_changed c field then
              Some (or_default (param r ''errorMessage'') ''%s must be changed during the transition'' field)
            else None)
         else if ty = ''fieldMatchesRegularExpression'' then
           (if (case regexp lib (param r ''regexp'') of
                  None \<Rightarrow> True | Some p \<Rightarrow> \<not> workflowFieldMatches lib p (raw_value c field)) then
              Some (or_default (param r ''errorMessage'') ''%s does not match the required pattern'' field)
            else None)
         else if ty = ''fieldHasSingleValue'' then
           (if \<not> workflowFieldHasSingleValue lib decode (raw_value c field) then
              Some (Errorf ''%s must contain exactly one value'' [field])
            else None)
         else if ty = ''dateFieldComparison'' then
           (if \<not> workflowFieldsCompare lib (raw_value c (param r ''date1FieldKey'')) (raw_value c (param r ''date2FieldKey''))
                (param r ''conditionSelected'')
                (if param r ''includeTime'' = ''true'' then ''DATE'' else ''DATE_WITHOUT_TIME'') then
              Some (Errorf ''workflow date fields do not satisfy %s'' [param r ''conditionSelected''])
            else None)
         else if ty = ''windowDateComparison'' then
           (let days = atoi_value (param r ''numberOfDays'')
            in if \<not> workflowFieldsWithinDays lib (raw_value c (param r ''date1FieldKey''))
                   (raw_value c (param r ''date2FieldKey'')) days then
                 Some (Errorf ''workflow date field exceeds the %d-day window'' [itoa days])
               else None)
         else Some (unsupported_validator r))"

definition validator_error ::
  "('f, 'z) golib_scheme \<Rightarrow> (string \<Rightarrow> 'f node option) \<Rightarrow> evaluation \<Rightarrow> rule \<Rightarrow> go_error option" where
  "validator_error lib decode c r =
     (if IsAppRule (rule_key r) then None
      else if rule_key r = RuleValidateFieldValue then field_rule_error lib decode c r
      else if rule_key r = RulePreviousStatusValidator then
        (if \<not> previousStatusMatches r c then
           Some (Errorf ''issue has not passed through the required status'' []) else None)
      else if rule_key r = RuleCheckPermissionValidator then
        (if \<not> c_permissions c (param r ''permissionKey'') then
           Some (Errorf ''permission %s is required to perform this transition'' [param r ''permissionKey'']) else None)
      else if rule_key r = RuleParentChildValidator then
        (if c_parent_status c \<in> stringSet (param r ''statusIds'') then
           Some (Errorf ''parent status blocks this transition'' []) else None)
      else if rule_key r = RuleFormsAttachedValidator then
        (if c_forms_attached c = 0 then
           Some (Errorf ''at least one form must be attached before this transition'' []) else None)
      else if rule_key r = RuleFormsSubmittedValidator then
        (if c_forms_attached c = 0 \<or> \<not> c_forms_submitted c then
           Some (Errorf ''all attached forms must be submitted before this transition'' []) else None)
      else Some (unsupported_validator r))"

definition ValidateRules ::
  "('f, 'z) golib_scheme \<Rightarrow> (string \<Rightarrow> 'f node option) \<Rightarrow> transition \<Rightarrow> evaluation \<Rightarrow> go_error option" where
  "ValidateRules lib decode t c = first_error (map (validator_error lib decode c) (t_validators t))"

end
