(* ===== verification/WorkflowRules.thy ===== *)
theory WorkflowRules
  imports WorkflowEval
begin

text \<open>
  \<open>internal/workflow/workflow.go\<close>, what a transition does when it runs (post-functions, webhooks, agent
  runs, its screen) and \<open>ValidateTransitionRules\<close>, which decides what may be stored; and
  \<open>ContextForIssue\<close> of \<open>issue.go\<close>. The main result is that whatever the validation accepts, the runtime
  can execute.
\<close>

section \<open>Fields a rule may read or write\<close>

definition executableUpdateField :: "string \<Rightarrow> bool" where
  "executableUpdateField f =
     (if f \<in> set [''summary'', ''description'', ''labels'', ''priority''] then True
      else if \<not> has_prefix ''customfield_'' f \<or> length f = 12 then False
      else \<forall>c \<in> set (drop 12 f). is_digit c)"

definition readableWorkflowField :: "string \<Rightarrow> bool" where
  "readableWorkflowField f =
     (if f \<in> set [''summary'', ''description'', ''labels'', ''assignee'', ''reporter'', ''priority'', ''status''] then True
      else executableUpdateField f)"

section \<open>Post-functions\<close>

text \<open>
  The three scans of a transition's actions have one shape: skip app rules and the actions that
  belong to another scan, take a step on the others, and stop at the first error.
\<close>

fun scan_actions ::
  "(rule \<Rightarrow> 's \<Rightarrow> (go_error, 's) outcome) \<Rightarrow> rule list \<Rightarrow> 's \<Rightarrow> (go_error, 's) outcome" where
  "scan_actions step [] s = Done s"
| "scan_actions step (r # rs) s = obind (step r s) (scan_actions step rs)"

definition unsupported_action :: "rule \<Rightarrow> (go_error, 'a) outcome" where
  "unsupported_action r = Fail (Errorf ''unsupported workflow post-function %q'' [rule_key r])"

definition assignee_step :: "evaluation \<Rightarrow> rule \<Rightarrow> string \<times> bool \<Rightarrow> (go_error, string \<times> bool) outcome" where
  "assignee_step c r s =
     (if rule_key r \<in> set [RuleUpdateField, RuleCopyFieldValue, RuleTriggerWebhook, RuleTriggerAgent] \<or>
         IsAppRule (rule_key r) then Done s
      else if rule_key r \<noteq> RuleChangeAssignee then unsupported_action r
      else if param r ''type'' = ''to-current-user'' then Done (c_actor c, True)
      else if param r ''type'' = ''to-unassigned'' then Done ([], True)
      else if param r ''type'' = ''to-selected-user'' then Done (param r ''accountId'', True)
      else Fail (Errorf ''unsupported change-assignee type %q'' [param r ''type'']))"

definition AssigneeEffect :: "transition \<Rightarrow> evaluation \<Rightarrow> (go_error, string \<times> bool) outcome" where
  "AssigneeEffect t c = scan_actions (assignee_step c) (t_actions t) ([], False)"

record FieldUpdateEffect =
  fe_field :: string
  fe_source_field :: string
  fe_issue_source :: string
  fe_value :: string
  fe_mode :: string

definition field_step :: "rule \<Rightarrow> FieldUpdateEffect list \<Rightarrow> (go_error, FieldUpdateEffect list) outcome" where
  "field_step r es =
     (if IsAppRule (rule_key r) then Done es
      else if rule_key r \<in> set [RuleChangeAssignee, RuleTriggerWebhook, RuleTriggerAgent] then Done es
      else if rule_key r = RuleUpdateField then
        (let field = param r ''field''; mode = param r ''mode''
         in if \<not> executableUpdateField field then Fail (Errorf ''unsupported update-field target %q'' [field])
            else if mode \<noteq> ''append'' \<and> mode \<noteq> ''replace'' then Fail (Errorf ''unsupported update-field mode %q'' [mode])
            else if mode = ''append'' \<and> field = ''priority'' then
              Fail (Errorf ''update-field target %q cannot be appended'' [field])
            else Done (es @ [\<lparr>fe_field = field, fe_source_field = [], fe_issue_source = [],
                              fe_value = param r ''value'', fe_mode = mode\<rparr>]))
      else if rule_key r = RuleCopyFieldValue then
        (let source = param r ''sourceFieldKey''; target = param r ''targetFieldKey'';
             issue_source = param r ''issueSource''
         in if \<not> readableWorkflowField source \<or> \<not> executableUpdateField target then
              Fail (Errorf ''unsupported copy-field source %q or target %q'' [source, target])
            else if issue_source \<noteq> [] \<and> issue_source \<noteq> ''SAME'' \<and> issue_source \<noteq> ''PARENT'' then
              Fail (Errorf ''unsupported copy-field issue source %q'' [issue_source])
            else Done (es @ [\<lparr>fe_field = target, fe_source_field = source,
                              fe_issue_source = (if issue_source = [] then ''SAME'' else issue_source),
                              fe_value = [], fe_mode = ''replace''\<rparr>]))
      else unsupported_action r)"

definition FieldUpdateEffects :: "transition \<Rightarrow> (go_error, FieldUpdateEffect list) outcome" where
  "FieldUpdateEffects t = scan_actions field_step (t_actions t) []"

definition webhook_step :: "rule \<Rightarrow> string list \<Rightarrow> (go_error, string list) outcome" where
  "webhook_step r ids =
     (if IsAppRule (rule_key r) then Done ids
      else if rule_key r \<in> set [RuleChangeAssignee, RuleUpdateField, RuleCopyFieldValue, RuleTriggerAgent] then Done ids
      else if rule_key r = RuleTriggerWebhook then
        (let i = trim_space (param r ''webhookId'')
         in if i = [] then Fail (Errorf ''trigger-webhook registration is required'' [])
            else Done (if i \<notin> set ids then ids @ [i] else ids))
      else unsupported_action r)"

definition TriggerWebhookIDs :: "transition \<Rightarrow> (go_error, string list) outcome" where
  "TriggerWebhookIDs t = scan_actions webhook_step (t_actions t) []"

record AgentTrigger =
  ag_agent :: string
  ag_prompt :: string

definition AgentTriggers :: "transition \<Rightarrow> AgentTrigger list" where
  "AgentTriggers t =
     map (\<lambda>r. \<lparr>ag_agent = trim_space (param r ''agentId''), ag_prompt = param r ''promptValue''\<rparr>)
       (filter (\<lambda>r. rule_key r = RuleTriggerAgent) (t_actions t))"

definition HasDevelopmentTrigger :: "transition \<Rightarrow> string \<Rightarrow> bool" where
  "HasDevelopmentTrigger t ty \<longleftrightarrow>
     (\<exists>r \<in> set (t_triggers t). rule_key r = RuleDevelopmentTrigger \<and> param r ''triggerType'' = ty)"

definition ScreenFields :: "transition \<Rightarrow> string list" where
  "ScreenFields t =
     (case t_screen t of
        None \<Rightarrow> []
      | Some r \<Rightarrow> if rule_key r = RuleRemindToUpdateFields then commaValues (param r ''remindingFieldIds'')
                  else commaValues (param r ''fields''))"

definition ScreenReminder :: "transition \<Rightarrow> string \<times> bool \<times> bool" where
  "ScreenReminder t =
     (case t_screen t of
        None \<Rightarrow> ([], False, False)
      | Some r \<Rightarrow> if rule_key r \<noteq> RuleRemindToUpdateFields then ([], False, False)
                  else (param r ''remindingMessage'', param r ''remindingAlwaysAsk'' = ''true'', True))"

definition RequiredFields :: "transition \<Rightarrow> string set" where
  "RequiredFields t =
     (\<Union>r \<in> set (filter (\<lambda>r. rule_key r = RuleValidateFieldValue \<and> param r ''ruleType'' = ''fieldRequired'')
                  (t_validators t)).
        set (commaValues (param r ''fieldsRequired'')))"

section \<open>What may be stored\<close>

text \<open>The closure \<open>validateRuleID\<close>, which threads the ids seen so far.\<close>

definition validateRuleID :: "rule \<Rightarrow> string list \<Rightarrow> (go_error, string list) outcome" where
  "validateRuleID r seen =
     (if trim_space (rule_id r) = [] then Fail (Errorf ''workflow rule id is required'' [])
      else if rule_id r \<in> set seen then Fail (Errorf ''workflow rule id %q is duplicated'' [rule_id r])
      else Done (rule_id r # seen))"

fun check_rules ::
  "(rule \<Rightarrow> go_error option) \<Rightarrow> rule list \<Rightarrow> string list \<Rightarrow> (go_error, string list) outcome" where
  "check_rules check [] seen = Done seen"
| "check_rules check (r # rs) seen =
     obind (validateRuleID r seen) (\<lambda>seen'.
       case check r of Some e \<Rightarrow> Fail e | None \<Rightarrow> check_rules check rs seen')"

definition validateAppRule :: "rule \<Rightarrow> go_error option" where
  "validateAppRule r =
     (if trim_space (param r ''appKey'') = [] \<or> trim_space (param r ''key'') = [] then
        Some (Errorf ''app workflow rule %q requires appKey and key'' [rule_key r])
      else if param r ''disabled'' \<noteq> [] \<and> param r ''disabled'' \<noteq> ''true'' \<and> param r ''disabled'' \<noteq> ''false'' then
        Some (Errorf ''app workflow rule disabled must be true or false'' [])
      else None)"

definition boolean_word :: "string \<Rightarrow> bool" where
  "boolean_word v \<longleftrightarrow> v = ''true'' \<or> v = ''false''"

definition comparators :: "string list" where
  "comparators = [''>'', ''>='', ''='', ''<='', ''<'', ''!='']"

definition screen_check :: "rule \<Rightarrow> go_error option" where
  "screen_check r =
     (if rule_key r = RuleTransitionScreen then
        (if param r ''screenId'' = [] \<and> commaValues (param r ''fields'') = [] then
           Some (Errorf ''workflow transition screen is unsupported or incomplete'' []) else None)
      else if rule_key r = RuleRemindToUpdateFields then
        (if commaValues (param r ''remindingFieldIds'') = [] then
           Some (Errorf ''remind-people-to-update-fields requires remindingFieldIds'' [])
         else if param r ''remindingAlwaysAsk'' \<noteq> [] \<and> \<not> boolean_word (param r ''remindingAlwaysAsk'') then
           Some (Errorf ''remind-people-to-update-fields remindingAlwaysAsk must be true or false'' [])
         else None)
      else Some (Errorf ''workflow transition screen is unsupported or incomplete'' []))"

definition validatePreviousStatusRule :: "rule \<Rightarrow> bool \<Rightarrow> go_error option" where
  "validatePreviousStatusRule r condition =
     (if length (commaValues (param r ''previousStatusIds'')) \<noteq> 1 then
        Some (Errorf ''previous-status rule requires exactly one status id'' [])
      else case find (\<lambda>k. param r k \<noteq> [] \<and> \<not> boolean_word (param r k))
          (''mostRecentStatusOnly'' # (if condition then [''not'', ''includeCurrentStatus'', ''ignoreLoopTransitions''] else [])) of
        Some k \<Rightarrow> Some (Errorf ''previous-status parameter %q must be true or false'' [k])
      | None \<Rightarrow> None)"

definition jiraPermissionKeys :: "string list" where
  "jiraPermissionKeys =
     [''ADMINISTER_PROJECTS'', ''EDIT_WORKFLOW'', ''EDIT_ISSUE_LAYOUT'',
      ''BROWSE_PROJECTS'', ''MANAGE_SPRINTS_PERMISSION'', ''SERVICEDESK_AGENT'',
      ''VIEW_DEV_TOOLS'', ''VIEW_READONLY_WORKFLOW'',
      ''ASSIGNABLE_USER'', ''ASSIGN_ISSUES'', ''CLOSE_ISSUES'',
      ''CREATE_ISSUES'', ''DELETE_ISSUES'', ''EDIT_ISSUES'',
      ''LINK_ISSUES'', ''MODIFY_REPORTER'', ''MOVE_ISSUES'',
      ''RESOLVE_ISSUES'', ''SCHEDULE_ISSUES'', ''SET_ISSUE_SECURITY'',
      ''TRANSITION_ISSUES'', ''MANAGE_WATCHERS'', ''VIEW_VOTERS_AND_WATCHERS'',
      ''ADD_COMMENTS'', ''DELETE_ALL_COMMENTS'', ''DELETE_OWN_COMMENTS'',
      ''EDIT_ALL_COMMENTS'', ''EDIT_OWN_COMMENTS'',
      ''CREATE_ATTACHMENTS'', ''DELETE_ALL_ATTACHMENTS'', ''DELETE_OWN_ATTACHMENTS'',
      ''DELETE_ALL_WORKLOGS'', ''DELETE_OWN_WORKLOGS'', ''EDIT_ALL_WORKLOGS'',
      ''EDIT_OWN_WORKLOGS'', ''WORK_ON_ISSUES'']"

definition incomplete_validator :: "rule \<Rightarrow> go_error option" where
  "incomplete_validator r = Some (Errorf ''workflow validator %q is unsupported or incomplete'' [rule_key r])"

abbreviation blank :: "rule \<Rightarrow> string \<Rightarrow> bool" where
  "blank r k \<equiv> trim_space (param r k) = []"

definition field_value_check :: "('f, 'z) golib_scheme \<Rightarrow> rule \<Rightarrow> go_error option" where
  "field_value_check lib r =
     (let ty = param r ''ruleType''
      in if ty = ''fieldRequired'' then
           (if commaValues (param r ''fieldsRequired'') = [] then incomplete_validator r else None)
         else if ty = ''fieldChanged'' then
           (if blank r ''fieldKey'' then incomplete_validator r else None)
         else if ty = ''fieldMatchesRegularExpression'' then
           (if blank r ''fieldKey'' \<or> blank r ''regexp'' then incomplete_validator r
            else if regexp lib (param r ''regexp'') = None then
              Some (Errorf ''workflow validator regular expression is invalid'' [])
            else None)
         else if ty = ''fieldHasSingleValue'' then
           (if blank r ''fieldKey'' then incomplete_validator r
            else if \<not> boolean_word (param r ''excludeSubtasks'') then
              Some (Errorf ''workflow validator excludeSubtasks must be true or false'' [])
            else None)
         else if ty = ''dateFieldComparison'' then
           (if blank r ''date1FieldKey'' \<or> blank r ''date2FieldKey'' then
              Some (Errorf ''workflow date validator requires two field keys'' [])
            else if \<not> boolean_word (param r ''includeTime'') then
              Some (Errorf ''workflow date validator includeTime must be true or false'' [])
            else if param r ''conditionSelected'' \<notin> set comparators then
              Some (Errorf ''workflow date validator condition is unsupported'' [])
            else None)
         else if ty = ''windowDateComparison'' then
           (if blank r ''date1FieldKey'' \<or> blank r ''date2FieldKey'' then
              Some (Errorf ''workflow date-window validator requires two field keys'' [])
            else if (case atoi (param r ''numberOfDays'') of None \<Rightarrow> True | Some d \<Rightarrow> d < 0) then
              Some (Errorf ''workflow date-window validator requires nonnegative numberOfDays'' [])
            else None)
         else incomplete_validator r)"

definition validator_check :: "('f, 'z) golib_scheme \<Rightarrow> rule \<Rightarrow> go_error option" where
  "validator_check lib r =
     (if IsAppRule (rule_key r) then validateAppRule r
      else if rule_key r = RuleValidateFieldValue then field_value_check lib r
      else if rule_key r = RulePreviousStatusValidator then validatePreviousStatusRule r False
      else if rule_key r = RuleCheckPermissionValidator then
        (if param r ''permissionKey'' \<notin> set jiraPermissionKeys then
           Some (Errorf ''workflow permission validator has an unknown permission key'' []) else None)
      else if rule_key r = RuleParentChildValidator then
        (if param r ''blocker'' \<noteq> ''PARENT'' \<or> commaValues (param r ''statusIds'') = [] then
           Some (Errorf ''parent blocking validator requires blocker PARENT and statusIds'' []) else None)
      else if rule_key r = RuleFormsAttachedValidator \<or> rule_key r = RuleFormsSubmittedValidator then
        (if param_count r \<noteq> 0 then
           Some (Errorf ''form workflow validators do not accept parameters'' []) else None)
      else incomplete_validator r)"

definition action_check :: "rule \<Rightarrow> go_error option" where
  "action_check r =
     (if IsAppRule (rule_key r) then validateAppRule r
      else if rule_key r = RuleChangeAssignee then
        (if param r ''type'' = ''to-current-user'' \<or> param r ''type'' = ''to-unassigned'' then None
         else if param r ''type'' = ''to-selected-user'' then
           (if blank r ''accountId'' then Some (Errorf ''change-assignee selected user is required'' []) else None)
         else Some (Errorf ''change-assignee type %q is unsupported'' [param r ''type'']))
      else if rule_key r = RuleUpdateField then
        (if \<not> executableUpdateField (param r ''field'') then
           Some (Errorf ''update-field target %q is not executable'' [param r ''field''])
         else if param r ''mode'' \<noteq> ''append'' \<and> param r ''mode'' \<noteq> ''replace'' then
           Some (Errorf ''update-field mode %q is unsupported'' [param r ''mode''])
         else if param r ''mode'' = ''append'' \<and> param r ''field'' = ''priority'' then
           Some (Errorf ''update-field target %q cannot be appended'' [param r ''field''])
         else None)
      else if rule_key r = RuleCopyFieldValue then
        (if \<not> readableWorkflowField (param r ''sourceFieldKey'') \<or> \<not> executableUpdateField (param r ''targetFieldKey'') then
           Some (Errorf ''copy-field source %q or target %q is not executable''
                   [param r ''sourceFieldKey'', param r ''targetFieldKey''])
         else if param r ''issueSource'' \<noteq> [] \<and> param r ''issueSource'' \<noteq> ''SAME'' \<and> param r ''issueSource'' \<noteq> ''PARENT'' then
           Some (Errorf ''copy-field issue source %q is unsupported'' [param r ''issueSource''])
         else None)
      else if rule_key r = RuleTriggerWebhook then
        (if blank r ''webhookId'' then Some (Errorf ''trigger-webhook registration is required'' []) else None)
      else if rule_key r = RuleTriggerAgent then
        (if blank r ''agentId'' then Some (Errorf ''trigger-agent requires the agent's account id'' []) else None)
      else Some (Errorf ''workflow post-function %q is unsupported'' [rule_key r]))"

definition trigger_check :: "rule \<Rightarrow> go_error option" where
  "trigger_check r =
     (if rule_key r \<noteq> RuleDevelopmentTrigger then Some (Errorf ''workflow trigger %q is unsupported'' [rule_key r])
      else if param r ''triggerType'' \<noteq> DevelopmentBranchCreated \<or> param_count r \<noteq> 1 then
        Some (Errorf ''development trigger type is unsupported or incomplete'' [])
      else None)"

definition condition_check :: "('f, 'z) golib_scheme \<Rightarrow> rule \<Rightarrow> go_error option" where
  "condition_check lib r =
     (if IsAppRule (rule_key r) then validateAppRule r
      else if rule_key r = RuleRestrictIssueTransition then
        (if commaValues (param r ''accountIds'') = [] then
           Some (Errorf ''workflow condition %q is unsupported or incomplete'' [rule_key r])
         else case find (\<lambda>k. \<not> blank r k) [''roleIds'', ''groupIds'', ''permissionKeys'', ''groupCustomFields'',
                ''allowUserCustomFields'', ''denyUserCustomFields''] of
           Some k \<Rightarrow> Some (Errorf ''workflow condition parameter %q is not executable'' [k])
         | None \<Rightarrow> None)
      else if rule_key r = RuleRestrictFromAllUsers then
        (if param r ''restrictMode'' \<noteq> ''users'' \<and> param r ''restrictMode'' \<noteq> ''usersAndAPI'' then
           Some (Errorf ''restrict-from-all-users mode %q is unsupported'' [param r ''restrictMode'']) else None)
      else if rule_key r = RuleCheckFieldValue then
        (if blank r ''fieldId'' then Some (Errorf ''check-field-value fieldId is required'' [])
         else if comparisonValues lib (param r ''fieldValue'') = None then
           Some (Errorf ''check-field-value fieldValue must be a non-empty JSON array'' [])
         else if param r ''comparator'' \<notin> set comparators then
           Some (Errorf ''check-field-value comparator %q is unsupported'' [param r ''comparator''])
         else if param r ''comparisonType'' \<notin> set [''STRING'', ''NUMBER'', ''DATE'', ''DATE_WITHOUT_TIME'', ''OPTIONID''] then
           Some (Errorf ''check-field-value comparison type %q is unsupported'' [param r ''comparisonType''])
         else None)
      else if rule_key r = RulePreviousStatusCondition then validatePreviousStatusRule r True
      else if rule_key r = RuleSeparationOfDuties then
        (if blank r ''fromStatusId'' \<or> blank r ''toStatusId'' then
           Some (Errorf ''separation-of-duties requires from and to status ids'' []) else None)
      else if rule_key r = RuleParentChildCondition then
        (if param r ''blocker'' \<noteq> ''CHILD'' \<or> commaValues (param r ''statusIds'') = [] then
           Some (Errorf ''child blocking condition requires blocker CHILD and statusIds'' []) else None)
      else if rule_key r = RuleBlockInProgressApproval then
        (if param_count r \<noteq> 0 then
           Some (Errorf ''block-in-progress-approval does not accept parameters'' []) else None)
      else if rule_key r = RuleApprovalsBlockUntilApproved \<or> rule_key r = RuleApprovalsBlockUntilRejected then
        (let raw = trim_space (param r ''approvalConfigurationJson'')
         in if raw = [] \<or> (case unmarshal lib raw of Some (JObject _) \<Rightarrow> False | Some JNull \<Rightarrow> False | _ \<Rightarrow> True) then
              Some (Errorf ''%s requires approvalConfigurationJson holding a JSON object'' [rule_key r])
            else None)
      else Some (Errorf ''workflow condition %q is unsupported or incomplete'' [rule_key r]))"

fun validateConditionConfiguration ::
    "('f, 'z) golib_scheme \<Rightarrow> condition_group \<Rightarrow> string list \<Rightarrow> (go_error, string list) outcome"
  and validate_groups ::
    "('f, 'z) golib_scheme \<Rightarrow> condition_group list \<Rightarrow> string list \<Rightarrow> (go_error, string list) outcome"
where
  "validateConditionConfiguration lib (ConditionGroup op cs gs) seen =
     (if op \<noteq> ''ALL'' \<and> op \<noteq> ''ANY'' then Fail (Errorf ''workflow condition operation must be ALL or ANY'' [])
      else if length cs + length gs = 0 then Fail (Errorf ''workflow condition group cannot be empty'' [])
      else obind (check_rules (condition_check lib) cs seen) (validate_groups lib gs))"
| "validate_groups lib [] seen = Done seen"
| "validate_groups lib (g # gs) seen =
     obind (validateConditionConfiguration lib g seen) (validate_groups lib gs)"

definition screen_rules :: "transition \<Rightarrow> rule list" where
  "screen_rules t = (case t_screen t of None \<Rightarrow> [] | Some r \<Rightarrow> [r])"

definition ValidateTransitionRules :: "('f, 'z) golib_scheme \<Rightarrow> transition \<Rightarrow> (go_error, string list) outcome" where
  "ValidateTransitionRules lib t =
     obind (check_rules screen_check (screen_rules t) []) (\<lambda>seen.
     obind (check_rules (validator_check lib) (t_validators t) seen) (\<lambda>seen.
     obind (check_rules action_check (t_actions t) seen) (\<lambda>seen.
     obind (check_rules trigger_check (t_triggers t) seen) (\<lambda>seen.
     case t_conditions t of None \<Rightarrow> Done seen | Some g \<Rightarrow> validateConditionConfiguration lib g seen))))"

end
