(* ===== verification/WorkflowProofs.thy ===== *)
theory WorkflowProofs
  imports WorkflowRules
begin

text \<open>
  What the workflow rules guarantee: a transition that \<open>ValidateTransitionRules\<close> accepts can be
  executed, its rules have distinct ids, condition groups are monotone, and the last change-assignee
  action decides the assignee.
\<close>

section \<open>Scans over actions\<close>

text \<open>
  What a scan relies on: on every action the validation accepts, a step succeeds and keeps the
  invariant of what was collected so far.
\<close>

locale action_scan =
  fixes step :: "rule \<Rightarrow> 's \<Rightarrow> (go_error, 's) outcome"
    and inv :: "'s \<Rightarrow> bool"
  assumes step_ok: "action_check r = None \<Longrightarrow> inv s \<Longrightarrow> \<exists>s'. step r s = Done s' \<and> inv s'"
begin

lemma scan_ok:
  "\<forall>r \<in> set rs. action_check r = None \<Longrightarrow> inv s \<Longrightarrow> \<exists>s'. scan_actions step rs s = Done s' \<and> inv s'"
proof (induction rs arbitrary: s)
  case (Cons r rs)
  have "action_check r = None" using Cons.prems(1) by simp
  from step_ok [OF this Cons.prems(2)] obtain s1 where s1: "step r s = Done s1" "inv s1" by blast
  with Cons obtain s' where "scan_actions step rs s1 = Done s'" "inv s'" by fastforce
  with s1 show ?case by simp
qed simp

end

lemma rule_keys_not_app [simp]:
  "\<not> IsAppRule RuleChangeAssignee" "\<not> IsAppRule RuleUpdateField" "\<not> IsAppRule RuleCopyFieldValue"
  "\<not> IsAppRule RuleTriggerWebhook" "\<not> IsAppRule RuleTriggerAgent"
  by (simp_all add: IsAppRule_def has_prefix_def rule_keys)

lemma rule_keys_differ [simp]:
  "RuleUpdateField \<noteq> RuleChangeAssignee" "RuleCopyFieldValue \<noteq> RuleChangeAssignee"
  "RuleTriggerWebhook \<noteq> RuleChangeAssignee" "RuleTriggerAgent \<noteq> RuleChangeAssignee"
  "RuleCopyFieldValue \<noteq> RuleUpdateField" "RuleTriggerWebhook \<noteq> RuleUpdateField"
  "RuleTriggerAgent \<noteq> RuleUpdateField" "RuleTriggerWebhook \<noteq> RuleCopyFieldValue"
  "RuleTriggerAgent \<noteq> RuleCopyFieldValue" "RuleTriggerAgent \<noteq> RuleTriggerWebhook"
  "RuleChangeAssignee \<noteq> RuleUpdateField" "RuleChangeAssignee \<noteq> RuleCopyFieldValue"
  "RuleChangeAssignee \<noteq> RuleTriggerWebhook" "RuleChangeAssignee \<noteq> RuleTriggerAgent"
  "RuleUpdateField \<noteq> RuleCopyFieldValue" "RuleUpdateField \<noteq> RuleTriggerWebhook"
  "RuleUpdateField \<noteq> RuleTriggerAgent" "RuleCopyFieldValue \<noteq> RuleTriggerWebhook"
  "RuleCopyFieldValue \<noteq> RuleTriggerAgent" "RuleTriggerWebhook \<noteq> RuleTriggerAgent"
  by (simp_all add: rule_keys)

definition effect_ok :: "FieldUpdateEffect \<Rightarrow> bool" where
  "effect_ok e \<longleftrightarrow> executableUpdateField (fe_field e) \<and> (fe_mode e = ''append'' \<or> fe_mode e = ''replace'') \<and>
     (fe_mode e = ''append'' \<longrightarrow> fe_field e \<noteq> ''priority'') \<and>
     (fe_source_field e \<noteq> [] \<longrightarrow> readableWorkflowField (fe_source_field e) \<and>
        (fe_issue_source e = ''SAME'' \<or> fe_issue_source e = ''PARENT''))"

definition webhook_ids_ok :: "string list \<Rightarrow> bool" where
  "webhook_ids_ok ids \<longleftrightarrow> distinct ids \<and> [] \<notin> set ids"

lemma action_keys:
  "action_check r = None \<Longrightarrow> IsAppRule (rule_key r) \<or>
     rule_key r \<in> {RuleChangeAssignee, RuleUpdateField, RuleCopyFieldValue, RuleTriggerWebhook, RuleTriggerAgent}"
  by (auto simp: action_check_def split: if_splits)

lemma assignee_step_ok: "action_check r = None \<Longrightarrow> \<exists>s'. assignee_step c r s = Done s'"
  using action_keys [of r] by (auto simp: assignee_step_def action_check_def split: if_splits)

lemma field_step_ok:
  "action_check r = None \<Longrightarrow> \<forall>e \<in> set s. effect_ok e \<Longrightarrow> \<exists>s'. field_step r s = Done s' \<and> (\<forall>e \<in> set s'. effect_ok e)"
  using action_keys [of r]
  by (auto simp: field_step_def action_check_def effect_ok_def Let_def split: if_splits)

lemma webhook_step_ok:
  "action_check r = None \<Longrightarrow> webhook_ids_ok s \<Longrightarrow> \<exists>s'. webhook_step r s = Done s' \<and> webhook_ids_ok s'"
  using action_keys [of r]
  by (auto simp: webhook_step_def action_check_def webhook_ids_ok_def Let_def split: if_splits)

interpretation assignee_scan: action_scan "assignee_step c" "\<lambda>_. True" for c
  by unfold_locales (use assignee_step_ok in simp)

interpretation field_scan: action_scan field_step "\<lambda>es. \<forall>e \<in> set es. effect_ok e"
  by unfold_locales (rule field_step_ok)

interpretation webhook_scan: action_scan webhook_step webhook_ids_ok
  by unfold_locales (rule webhook_step_ok)

section \<open>What the validation establishes\<close>

lemma check_rules_Done:
  "check_rules check rs seen = Done seen' \<Longrightarrow> distinct seen \<Longrightarrow>
     (\<forall>r \<in> set rs. check r = None \<and> trim_space (rule_id r) \<noteq> []) \<and>
     seen' = rev (map rule_id rs) @ seen \<and> distinct seen'"
proof (induction rs arbitrary: seen)
  case (Cons r rs)
  then have "trim_space (rule_id r) \<noteq> []" "rule_id r \<notin> set seen" "check r = None"
    and "check_rules check rs (rule_id r # seen) = Done seen'"
    by (auto simp: validateRuleID_def split: if_splits option.splits)
  with Cons show ?case by simp
qed simp

fun group_rules :: "condition_group \<Rightarrow> rule list" where
  "group_rules (ConditionGroup op cs gs) = cs @ concat (map group_rules gs)"

text \<open>No group at any depth is empty.\<close>

fun full_group :: "condition_group \<Rightarrow> bool" where
  "full_group (ConditionGroup op cs gs) \<longleftrightarrow> (cs \<noteq> [] \<or> gs \<noteq> []) \<and> (\<forall>g \<in> set gs. full_group g)"

definition rules_in_order :: "rule list \<Rightarrow> string list \<Rightarrow> string list \<Rightarrow> bool" where
  "rules_in_order rs seen seen' \<longleftrightarrow>
     (\<forall>r \<in> set rs. trim_space (rule_id r) \<noteq> []) \<and> seen' = rev (map rule_id rs) @ seen \<and> distinct seen'"

lemma rules_in_order_trans:
  "rules_in_order rs s1 s2 \<Longrightarrow> rules_in_order rs' s2 s3 \<Longrightarrow> rules_in_order (rs @ rs') s1 s3"
proof -
  assume a: "rules_in_order rs s1 s2" and b: "rules_in_order rs' s2 s3"
  have "s3 = rev (map rule_id (rs @ rs')) @ s1"
    using a b unfolding rules_in_order_def by simp
  moreover have "distinct s3" using b unfolding rules_in_order_def by blast
  moreover have "\<forall>r \<in> set (rs @ rs'). trim_space (rule_id r) \<noteq> []"
    using a b unfolding rules_in_order_def set_append by blast
  ultimately show ?thesis unfolding rules_in_order_def by blast
qed

lemma rules_in_order_distinct: "rules_in_order rs s s' \<Longrightarrow> distinct s'"
  unfolding rules_in_order_def by blast

lemma check_rules_order:
  "check_rules check rs seen = Done seen' \<Longrightarrow> distinct seen \<Longrightarrow> rules_in_order rs seen seen'"
  using check_rules_Done [of check rs seen seen'] unfolding rules_in_order_def by blast

lemma validate_groups_Done:
  fixes lib :: "('f, 'z) golib_scheme"
  shows "validateConditionConfiguration lib g seen = Done seen' \<Longrightarrow> distinct seen \<Longrightarrow>
      rules_in_order (group_rules g) seen seen' \<and> full_group g"
    and "validate_groups lib gs seen = Done seen' \<Longrightarrow> distinct seen \<Longrightarrow>
      rules_in_order (concat (map group_rules gs)) seen seen' \<and> (\<forall>g \<in> set gs. full_group g)"
proof (induction lib g seen and lib gs seen arbitrary: seen' and seen'
    rule: validateConditionConfiguration_validate_groups.induct)
  case (1 lib op cs gs seen)
  then obtain s1 where s1: "check_rules (condition_check lib) cs seen = Done s1"
    and rest: "validate_groups lib gs s1 = Done seen'"
    and ops: "\<not> (op \<noteq> ''ALL'' \<and> op \<noteq> ''ANY'')" "length cs + length gs \<noteq> 0"
    by (auto split: if_splits)
  have o1: "rules_in_order cs seen s1" using check_rules_order [OF s1 1(3)] .
  have ih: "rules_in_order (concat (map group_rules gs)) s1 seen' \<and> (\<forall>g \<in> set gs. full_group g)"
    using 1(1) [OF ops s1 rest rules_in_order_distinct [OF o1]] .
  then have "rules_in_order (group_rules (ConditionGroup op cs gs)) seen seen'"
    using rules_in_order_trans [OF o1] by simp
  with ih ops(2) show ?case by auto
next
  case (2 lib seen)
  then show ?case by (simp add: rules_in_order_def)
next
  case (3 lib g gs seen)
  then obtain s1 where s1: "validateConditionConfiguration lib g seen = Done s1"
    and rest: "validate_groups lib gs s1 = Done seen'" by auto
  have o1: "rules_in_order (group_rules g) seen s1 \<and> full_group g" using 3(1) [OF s1 3(4)] .
  then have d1: "distinct s1" using rules_in_order_distinct by blast
  have ih: "rules_in_order (concat (map group_rules gs)) s1 seen' \<and> (\<forall>g \<in> set gs. full_group g)"
    using 3(2) [OF s1 rest d1] .
  show ?case using rules_in_order_trans [OF conjunct1 [OF o1] conjunct1 [OF ih]] o1 ih by simp
qed

definition condition_rules :: "transition \<Rightarrow> rule list" where
  "condition_rules t = (case t_conditions t of None \<Rightarrow> [] | Some g \<Rightarrow> group_rules g)"

definition all_rules :: "transition \<Rightarrow> rule list" where
  "all_rules t = screen_rules t @ t_validators t @ t_actions t @ t_triggers t @ condition_rules t"

lemma ValidateTransitionRules_Done:
  assumes "ValidateTransitionRules lib t = Done seen"
  shows "rules_in_order (all_rules t) [] seen"
    and "\<forall>r \<in> set (t_validators t). validator_check lib r = None"
    and "\<forall>r \<in> set (t_actions t). action_check r = None"
    and "\<forall>g. t_conditions t = Some g \<longrightarrow> full_group g"
proof -
  from assms obtain s1 s2 s3 s4 where
      c1: "check_rules screen_check (screen_rules t) [] = Done s1"
    and c2: "check_rules (validator_check lib) (t_validators t) s1 = Done s2"
    and c3: "check_rules action_check (t_actions t) s2 = Done s3"
    and c4: "check_rules trigger_check (t_triggers t) s3 = Done s4"
    and c5: "(case t_conditions t of None \<Rightarrow> Done s4 | Some g \<Rightarrow> validateConditionConfiguration lib g s4) = Done seen"
    by (auto simp: ValidateTransitionRules_def)
  have o1: "rules_in_order (screen_rules t) [] s1" using check_rules_order [OF c1] by simp
  have o2: "rules_in_order (t_validators t) s1 s2"
    using check_rules_order [OF c2 rules_in_order_distinct [OF o1]] .
  have o3: "rules_in_order (t_actions t) s2 s3"
    using check_rules_order [OF c3 rules_in_order_distinct [OF o2]] .
  have o4: "rules_in_order (t_triggers t) s3 s4"
    using check_rules_order [OF c4 rules_in_order_distinct [OF o3]] .
  have o5: "rules_in_order (condition_rules t) s4 seen \<and> (\<forall>g. t_conditions t = Some g \<longrightarrow> full_group g)"
  proof (cases "t_conditions t")
    case None
    with c5 rules_in_order_distinct [OF o4] show ?thesis by (simp add: condition_rules_def rules_in_order_def)
  next
    case (Some g)
    with c5 validate_groups_Done(1) [OF _ rules_in_order_distinct [OF o4]] show ?thesis
      by (simp add: condition_rules_def)
  qed
  show "rules_in_order (all_rules t) [] seen"
    using rules_in_order_trans [OF o1 rules_in_order_trans [OF o2
        rules_in_order_trans [OF o3 rules_in_order_trans [OF o4 conjunct1 [OF o5]]]]]
    by (simp add: all_rules_def)
  show "\<forall>r \<in> set (t_validators t). validator_check lib r = None"
    using check_rules_Done [OF c2 rules_in_order_distinct [OF o1]] by blast
  show "\<forall>r \<in> set (t_actions t). action_check r = None"
    using check_rules_Done [OF c3 rules_in_order_distinct [OF o2]] by blast
  show "\<forall>g. t_conditions t = Some g \<longrightarrow> full_group g" using o5 by blast
qed

lemma or_default_not_unsupported:
  "fmt \<noteq> ''unsupported workflow validator %q'' \<Longrightarrow> or_default m fmt f \<noteq> unsupported_validator r"
  by (auto simp: or_default_def unsupported_validator_def Let_def)

lemma field_rule_kinds:
  "field_value_check lib r = None \<Longrightarrow> param r ''ruleType'' \<in> {''fieldRequired'', ''fieldChanged'',
     ''fieldMatchesRegularExpression'', ''fieldHasSingleValue'', ''dateFieldComparison'', ''windowDateComparison''}"
  unfolding field_value_check_def incomplete_validator_def Let_def by (metis insertCI option.distinct(1))

lemma Errorf_unsupported:
  "fmt \<noteq> ''unsupported workflow validator %q'' \<Longrightarrow> Errorf fmt xs \<noteq> unsupported_validator r"
  by (simp add: unsupported_validator_def)

lemma field_rule_supported:
  assumes "field_value_check lib r = None"
  shows "field_rule_error lib decode c r \<noteq> Some (unsupported_validator r)"
proof -
  note [simp] = or_default_not_unsupported Errorf_unsupported
  consider "param r ''ruleType'' = ''fieldRequired''" | "param r ''ruleType'' = ''fieldChanged''"
    | "param r ''ruleType'' = ''fieldMatchesRegularExpression''" | "param r ''ruleType'' = ''fieldHasSingleValue''"
    | "param r ''ruleType'' = ''dateFieldComparison''" | "param r ''ruleType'' = ''windowDateComparison''"
    using field_rule_kinds [OF assms] by blast
  then show ?thesis
    by cases (simp_all add: field_rule_error_def Let_def split: option.split)
qed

lemma validator_kinds:
  "validator_check lib r = None \<Longrightarrow> IsAppRule (rule_key r) \<or> rule_key r \<in> {RuleValidateFieldValue,
     RulePreviousStatusValidator, RuleCheckPermissionValidator, RuleParentChildValidator,
     RuleFormsAttachedValidator, RuleFormsSubmittedValidator}"
  unfolding validator_check_def incomplete_validator_def by (metis insertCI option.distinct(1))

lemma validator_supported:
  assumes ok: "validator_check lib r = None"
  shows "validator_error lib decode c r \<noteq> Some (unsupported_validator r)"
proof -
  note [simp] = Errorf_unsupported
  consider "IsAppRule (rule_key r)" | "\<not> IsAppRule (rule_key r)" "rule_key r = RuleValidateFieldValue"
    | "\<not> IsAppRule (rule_key r)" "rule_key r \<noteq> RuleValidateFieldValue"
      "rule_key r = RulePreviousStatusValidator \<or> rule_key r = RuleCheckPermissionValidator \<or>
       rule_key r = RuleParentChildValidator \<or> rule_key r = RuleFormsAttachedValidator \<or>
       rule_key r = RuleFormsSubmittedValidator"
    using validator_kinds [OF ok] by blast
  then show ?thesis
  proof cases
    case 1
    then show ?thesis by (simp add: validator_error_def)
  next
    case 2
    from ok have "field_value_check lib r = None" unfolding validator_check_def if_not_P [OF 2(1)] if_P [OF 2(2)] .
    from field_rule_supported [OF this] show ?thesis
      unfolding validator_error_def if_not_P [OF 2(1)] if_P [OF 2(2)] .
  next
    case 3
    show ?thesis
      unfolding validator_error_def if_not_P [OF 3(1)] if_not_P [OF 3(2)]
      using 3(3) by (simp split: if_split) blast
  qed
qed

text \<open>Property C5: what \<open>ValidateTransitionRules\<close> accepts, the runtime can execute, for every actor
  and work item. The three scans over the post-functions succeed: the field updates all name
  executable fields with a legal mode, the webhook ids are nonblank and distinct; and no validator
  ever answers that it is unsupported.\<close>

theorem validated_transition_executes:
  assumes "ValidateTransitionRules lib t = Done seen"
  shows "(\<exists>a. AssigneeEffect t c = Done a) \<and>
    (\<exists>es. FieldUpdateEffects t = Done es \<and> (\<forall>e \<in> set es. effect_ok e)) \<and>
    (\<exists>ids. TriggerWebhookIDs t = Done ids \<and> distinct ids \<and> [] \<notin> set ids) \<and>
    (\<forall>v \<in> set (t_validators t). validator_error lib decode c v \<noteq> Some (unsupported_validator v))"
proof -
  note actions = ValidateTransitionRules_Done(3) [OF assms]
  have "\<exists>a. AssigneeEffect t c = Done a"
    using assignee_scan.scan_ok [OF actions] by (simp add: AssigneeEffect_def)
  moreover have "\<exists>es. FieldUpdateEffects t = Done es \<and> (\<forall>e \<in> set es. effect_ok e)"
    using field_scan.scan_ok [OF actions, of "[]"] by (simp add: FieldUpdateEffects_def)
  moreover have "\<exists>ids. TriggerWebhookIDs t = Done ids \<and> distinct ids \<and> [] \<notin> set ids"
    using webhook_scan.scan_ok [OF actions, of "[]"] by (simp add: TriggerWebhookIDs_def webhook_ids_ok_def)
  ultimately show ?thesis
    using ValidateTransitionRules_Done(2) [OF assms] validator_supported by blast
qed

definition demo_rule :: "string \<Rightarrow> string \<Rightarrow> (string \<times> string) list \<Rightarrow> rule" where
  "demo_rule i k ps = \<lparr>rule_id = i, rule_key = k, rule_params = ps\<rparr>"

definition demo_transition :: transition where
  "demo_transition = (plain_transition ''31'' ''Done'' [] [''st_todo''] ''st_done'')
     \<lparr>t_validators := [demo_rule ''v'' RuleFormsAttachedValidator []],
      t_actions := [demo_rule ''a'' RuleChangeAssignee [(''type'', ''to-current-user'')],
                    demo_rule ''b'' RuleTriggerWebhook [(''webhookId'', ''7'')]],
      t_conditions := Some (ConditionGroup ''ALL'' [demo_rule ''c'' RuleBlockInProgressApproval []] [])\<rparr>"

definition demo_lib :: "int golib" where
  "demo_lib = \<lparr>unmarshal = (\<lambda>_. None), format_float = itoa, parse_float = atoi, float_less = (<),
     parse_rfc3339 = (\<lambda>_. None), parse_date = (\<lambda>_. None), add_days = (\<lambda>t d. t + d), regexp = (\<lambda>_. None),
     sprint = (\<lambda>_. []), marshal_string = id, marshal_strings = concat, struct_type = (\<lambda>_. None)\<rparr>"

lemma demo_validates: "ValidateTransitionRules demo_lib demo_transition = Done [''c'', ''b'', ''a'', ''v'']"
  by (simp add: ValidateTransitionRules_def demo_transition_def plain_transition_def screen_rules_def
      demo_rule_def validateRuleID_def validator_check_def action_check_def condition_check_def IsAppRule_def
      has_prefix_def rule_keys param_count_def look_def trim_space_def trim_left.simps trim_tail.simps ascii_space_def)

lemma validated_transition_executes_witness:
  "\<exists>ids. TriggerWebhookIDs demo_transition = Done ids \<and> distinct ids \<and> [] \<notin> set ids"
  using validated_transition_executes [OF demo_validates, of empty_evaluation "\<lambda>_. None"] by blast

text \<open>Property C31: in a transition that \<open>ValidateTransitionRules\<close> accepts, every rule, wherever it
  stands (screen, validators, actions, triggers, conditions nested to any depth), has an id that is
  not blank and that no other rule of the transition has; and no condition group is empty.\<close>

theorem validated_rule_ids_distinct:
  assumes "ValidateTransitionRules lib t = Done seen"
  shows "distinct (map rule_id (all_rules t)) \<and> (\<forall>r \<in> set (all_rules t). trim_space (rule_id r) \<noteq> []) \<and>
    (\<forall>g. t_conditions t = Some g \<longrightarrow> full_group g)"
proof -
  have "rules_in_order (all_rules t) [] seen" by (rule ValidateTransitionRules_Done(1) [OF assms])
  then have "distinct (rev (map rule_id (all_rules t)))" "\<forall>r \<in> set (all_rules t). trim_space (rule_id r) \<noteq> []"
    unfolding rules_in_order_def append_Nil2 by blast+
  then show ?thesis using ValidateTransitionRules_Done(4) [OF assms] unfolding distinct_rev by blast
qed

lemma validated_rule_ids_distinct_witness: "distinct (map rule_id (all_rules demo_transition))"
  using validated_rule_ids_distinct [OF demo_validates] by blast

section \<open>Condition groups\<close>

definition passes :: "('f, 'z) golib_scheme \<Rightarrow> (string \<Rightarrow> 'f node option) \<Rightarrow> evaluation \<Rightarrow> rule \<Rightarrow> bool" where
  "passes lib decode c r = evaluateCondition lib decode r c"

lemma group_monotone:
  "\<forall>r \<in> set (group_rules g). passes lib decode c r \<longrightarrow> passes lib decode c' r \<Longrightarrow>
   evaluateConditionGroup lib decode g c \<Longrightarrow> evaluateConditionGroup lib decode g c'"
proof (induction g)
  case (ConditionGroup op cs gs)
  have cs: "passes lib decode c r \<longrightarrow> passes lib decode c' r" if "r \<in> set cs" for r
    using ConditionGroup.prems(1) that by simp
  have gs: "evaluateConditionGroup lib decode h c \<longrightarrow> evaluateConditionGroup lib decode h c'" if "h \<in> set gs" for h
    using ConditionGroup.IH [OF that] ConditionGroup.prems(1) that by auto
  show ?case
    using ConditionGroup.prems(2) cs gs
    by (auto simp: Let_def passes_def image_iff split: if_splits)
qed

lemma group_all_pass:
  "\<forall>r \<in> set (group_rules g). passes lib decode c r \<Longrightarrow> evaluateConditionGroup lib decode g c"
proof (induction g)
  case (ConditionGroup op cs gs)
  have gs: "evaluateConditionGroup lib decode h c" if "h \<in> set gs" for h
    using ConditionGroup.IH [OF that] ConditionGroup.prems that by auto
  have cs: "evaluateCondition lib decode r c" if "r \<in> set cs" for r
    using ConditionGroup.prems that by (simp add: passes_def)
  show ?case
    by (cases cs; cases gs) (use cs gs in \<open>auto simp: Let_def\<close>)
qed

lemma group_none_pass:
  "full_group g \<Longrightarrow> \<forall>r \<in> set (group_rules g). \<not> passes lib decode c r \<Longrightarrow> \<not> evaluateConditionGroup lib decode g c"
proof (induction g)
  case (ConditionGroup op cs gs)
  have gs: "\<not> evaluateConditionGroup lib decode h c" if "h \<in> set gs" for h
    using ConditionGroup.IH [OF that] ConditionGroup.prems that by auto
  have cs: "\<not> evaluateCondition lib decode r c" if "r \<in> set cs" for r
    using ConditionGroup.prems that by (simp add: passes_def)
  have "cs \<noteq> [] \<or> gs \<noteq> []" using ConditionGroup.prems(1) by simp
  then show ?case
    by (cases cs; cases gs) (use cs gs in \<open>auto simp: Let_def\<close>)
qed

lemma app_rule_passes: "IsAppRule (rule_key r) \<Longrightarrow> passes lib decode c r"
  by (simp add: passes_def evaluateCondition_def)



section \<open>The assignee\<close>

definition assignee_of :: "evaluation \<Rightarrow> rule \<Rightarrow> string" where
  "assignee_of c r =
     (if param r ''type'' = ''to-current-user'' then c_actor c
      else if param r ''type'' = ''to-unassigned'' then [] else param r ''accountId'')"

lemma assignee_step_other:
  "rule_key r \<noteq> RuleChangeAssignee \<Longrightarrow> assignee_step c r s = Done s' \<Longrightarrow> s' = s"
  by (auto simp: assignee_step_def unsupported_action_def split: if_splits)

lemma assignee_step_change:
  "rule_key r = RuleChangeAssignee \<Longrightarrow> assignee_step c r s = Done s' \<Longrightarrow> s' = (assignee_of c r, True)"
  by (auto simp: assignee_step_def assignee_of_def split: if_splits)

lemma scan_assignee:
  "scan_actions (assignee_step c) rs s = Done s' \<Longrightarrow>
   s' = (case rev (filter (\<lambda>r. rule_key r = RuleChangeAssignee) rs) of [] \<Rightarrow> s | r # _ \<Rightarrow> (assignee_of c r, True))"
proof (induction rs arbitrary: s)
  case (Cons r rs)
  then obtain s1 where s1: "assignee_step c r s = Done s1"
    and rest: "scan_actions (assignee_step c) rs s1 = Done s'" by auto
  show ?case
  proof (cases "rule_key r = RuleChangeAssignee")
    case True
    with assignee_step_change [OF True s1] Cons.IH [OF rest] show ?thesis
      by (cases "rev (filter (\<lambda>r. rule_key r = RuleChangeAssignee) rs)") simp_all
  next
    case False
    with Cons.IH [OF rest] show ?thesis unfolding assignee_step_other [OF False s1] by simp
  qed
qed simp

text \<open>The post-functions of a validated transition change the assignee iff one of them is a
  change-assignee action, and then the last such action in workflow order decides: the actor, nobody
  or the selected account. Without one the assignee is reported unchanged.\<close>

theorem last_assignee_action_decides:
  assumes "ValidateTransitionRules lib t = Done seen"
  shows "AssigneeEffect t c = Done
    (case rev (filter (\<lambda>r. rule_key r = RuleChangeAssignee) (t_actions t)) of
       [] \<Rightarrow> ([], False) | r # _ \<Rightarrow> (assignee_of c r, True))"
proof -
  have "\<exists>a. scan_actions (assignee_step c) (t_actions t) ([], False) = Done a"
    using assignee_scan.scan_ok [OF ValidateTransitionRules_Done(3) [OF assms]] by simp
  then show ?thesis using scan_assignee by (fastforce simp: AssigneeEffect_def)
qed

lemma last_assignee_action_decides_witness:
  "AssigneeEffect demo_transition (empty_evaluation\<lparr>c_actor := ''amy''\<rparr>) = Done (''amy'', True)"
  using last_assignee_action_decides [OF demo_validates, of "empty_evaluation\<lparr>c_actor := ''amy''\<rparr>"]
  by (simp add: demo_transition_def demo_rule_def assignee_of_def look_def)

end
