(* ===== verification/Cbor.thy ===== *)
theory Cbor
  imports GoJson
begin

text \<open>
  \<open>internal/webauthn/cbor.go\<close>: the reader of the CBOR a WebAuthn message uses. A byte is an
  \<open>8 word\<close>; a \<open>cborValue\<close>, in Go a struct with a kind, is a datatype with one constructor per
  kind. The recursion of \<open>decodeCBOR\<close> is bounded by a nesting depth; one more than the length of the
  message is proved enough. The contract is the relation \<open>cbor_enc\<close>: which bytes stand for a
  value in RFC 8949, in the part of it the reader accepts.
\<close>

section \<open>The reader\<close>

type_synonym byte = "8 word"

datatype cborValue =
    CborUnsigned int
  | CborNegative int
  | CborBytes "byte list"
  | CborText string
  | CborList "cborValue list"
  | CborMap "(cborValue \<times> cborValue) list"
  | CborSimple bool

definition cborMaxItems :: nat where
  "cborMaxItems = 2 ^ 16"

definition maxInt64 :: nat where
  "maxInt64 = 2 ^ 63 - 1"

text \<open>\<open>binary.BigEndian\<close> and \<open>string\<close> of a byte slice.\<close>

definition big_endian :: "byte list \<Rightarrow> nat" where
  "big_endian bs = foldl (\<lambda>n b. n * 256 + unat b) 0 bs"

definition text_of :: "byte list \<Rightarrow> string" where
  "text_of bs = map (\<lambda>b. char_of (unat b)) bs"

definition argument_after :: "nat \<Rightarrow> byte list \<Rightarrow> (go_error, nat \<times> byte list) outcome" where
  "argument_after n post =
     (if length post < n then Fail (Errorf ''the message ends inside a value'' [])
      else Done (big_endian (take n post), drop n post))"

definition cborArgument :: "byte list \<Rightarrow> (go_error, nat \<times> byte list) outcome" where
  "cborArgument data =
     (case data of
        [] \<Rightarrow> Crash
      | b # post \<Rightarrow>
         (let low = take_bit 5 b
          in if low < 24 then Done (unat low, post)
             else if low = 24 then argument_after 1 post
             else if low = 25 then argument_after 2 post
             else if low = 26 then argument_after 4 post
             else if low = 27 then argument_after 8 post
             else Fail (Errorf ''the message carries a length this does not read'' [])))"

definition unread_value :: "byte \<Rightarrow> (go_error, 'a) outcome" where
  "unread_value b = Fail (Errorf ''the message carries a value this does not read (0x%02x)'' [itoa (uint b)])"

fun decode_value :: "nat \<Rightarrow> byte list \<Rightarrow> (go_error, cborValue \<times> byte list) outcome"
  and decode_items :: "nat \<Rightarrow> nat \<Rightarrow> byte list \<Rightarrow> (go_error, cborValue list \<times> byte list) outcome"
  and decode_entries :: "nat \<Rightarrow> nat \<Rightarrow> byte list \<Rightarrow> (go_error, (cborValue \<times> cborValue) list \<times> byte list) outcome"
where
  "decode_value 0 data = Crash"
| "decode_value (Suc depth) data =
     (case data of
        [] \<Rightarrow> Fail (Errorf ''the message ends where a value was expected'' [])
      | b # _ \<Rightarrow> obind (cborArgument data) (\<lambda>(argument, rest).
         (let major = drop_bit 5 b
          in if major = 0 then
               (if argument > maxInt64 then Fail (Errorf ''a number in the message is too large'' [])
                else Done (CborUnsigned (int argument), rest))
             else if major = 1 then
               (if argument > maxInt64 then Fail (Errorf ''a number in the message is too large'' [])
                else Done (CborNegative (- 1 - int argument), rest))
             else if major = 2 \<or> major = 3 then
               (if argument > length rest then Fail (Errorf ''the message says it is longer than it is'' [])
                else if major = 2 then Done (CborBytes (take argument rest), drop argument rest)
                else Done (CborText (text_of (take argument rest)), drop argument rest))
             else if major = 4 \<or> major = 5 then
               (if argument > cborMaxItems then Fail (Errorf ''the message holds more than this reads'' [])
                else if major = 4 then
                  obind (decode_items depth argument rest) (\<lambda>(vs, rest'). Done (CborList vs, rest'))
                else obind (decode_entries depth argument rest) (\<lambda>(es, rest'). Done (CborMap es, rest')))
             else if major = 7 then
               (if take_bit 5 b = 20 then Done (CborSimple False, rest)
                else if take_bit 5 b = 21 then Done (CborSimple True, rest)
                else if take_bit 5 b = 22 \<or> take_bit 5 b = 23 then Done (CborSimple False, rest)
                else unread_value b)
             else unread_value b)))"
| "decode_items depth 0 data = Done ([], data)"
| "decode_items depth (Suc n) data =
     obind (decode_value depth data) (\<lambda>(v, rest).
     obind (decode_items depth n rest) (\<lambda>(vs, rest'). Done (v # vs, rest')))"
| "decode_entries depth 0 data = Done ([], data)"
| "decode_entries depth (Suc n) data =
     obind (decode_value depth data) (\<lambda>(k, rest).
     obind (decode_value depth rest) (\<lambda>(v, rest').
     obind (decode_entries depth n rest') (\<lambda>(es, rest''). Done ((k, v) # es, rest''))))"

definition decodeCBOR :: "byte list \<Rightarrow> (go_error, cborValue \<times> byte list) outcome" where
  "decodeCBOR data = decode_value (Suc (length data)) data"

text \<open>\<open>value\<close> and \<open>label\<close>: what a map holds under a text key and under a numeric label.\<close>

definition entries_of :: "cborValue \<Rightarrow> (cborValue \<times> cborValue) list" where
  "entries_of v = (case v of CborMap es \<Rightarrow> es | _ \<Rightarrow> [])"

definition cbor_value :: "cborValue \<Rightarrow> string \<Rightarrow> cborValue option" where
  "cbor_value v key = map_option snd (find (\<lambda>(k, _). k = CborText key) (entries_of v))"

definition cbor_label :: "cborValue \<Rightarrow> int \<Rightarrow> cborValue option" where
  "cbor_label v key =
     map_option snd (find (\<lambda>(k, _). k = CborUnsigned key \<or> k = CborNegative key) (entries_of v))"

section \<open>The contract\<close>

text \<open>
  The first byte of an item holds its major type and either its argument or how many bytes
  of argument follow (\<open>item_head major argument bytes\<close>).
\<close>

definition item_head :: "nat \<Rightarrow> nat \<Rightarrow> byte list \<Rightarrow> bool" where
  "item_head m a bs \<longleftrightarrow>
     (\<exists>b post. bs = b # post \<and> unat b div 32 = m \<and>
        (unat b mod 32 < 24 \<and> post = [] \<and> a = unat b mod 32 \<or>
         unat b mod 32 \<in> {24..27} \<and> length post = 2 ^ (unat b mod 32 - 24) \<and> a = big_endian post))"

inductive cbor_enc :: "cborValue \<Rightarrow> byte list \<Rightarrow> bool"
  and cbor_encs :: "cborValue list \<Rightarrow> byte list \<Rightarrow> bool"
  and cbor_pairs :: "(cborValue \<times> cborValue) list \<Rightarrow> byte list \<Rightarrow> bool"
where
  enc_unsigned: "item_head 0 a h \<Longrightarrow> a \<le> maxInt64 \<Longrightarrow> cbor_enc (CborUnsigned (int a)) h"
| enc_negative: "item_head 1 a h \<Longrightarrow> a \<le> maxInt64 \<Longrightarrow> cbor_enc (CborNegative (- 1 - int a)) h"
| enc_bytes: "item_head 2 (length bs) h \<Longrightarrow> cbor_enc (CborBytes bs) (h @ bs)"
| enc_text: "item_head 3 (length bs) h \<Longrightarrow> cbor_enc (CborText (text_of bs)) (h @ bs)"
| enc_list: "item_head 4 (length vs) h \<Longrightarrow> length vs \<le> cborMaxItems \<Longrightarrow> cbor_encs vs bs \<Longrightarrow>
    cbor_enc (CborList vs) (h @ bs)"
| enc_map: "item_head 5 (length es) h \<Longrightarrow> length es \<le> cborMaxItems \<Longrightarrow> cbor_pairs es bs \<Longrightarrow>
    cbor_enc (CborMap es) (h @ bs)"
| enc_false: "b \<in> {0xF4, 0xF6, 0xF7} \<Longrightarrow> cbor_enc (CborSimple False) [b]"
| enc_true: "cbor_enc (CborSimple True) [0xF5]"
| encs_nil: "cbor_encs [] []"
| encs_cons: "cbor_enc v bs \<Longrightarrow> cbor_encs vs cs \<Longrightarrow> cbor_encs (v # vs) (bs @ cs)"
| pairs_nil: "cbor_pairs [] []"
| pairs_cons: "cbor_enc k bs \<Longrightarrow> cbor_enc v cs \<Longrightarrow> cbor_pairs es ds \<Longrightarrow> cbor_pairs ((k, v) # es) (bs @ cs @ ds)"

section \<open>The first byte\<close>

lemma unat_take5: "unat (take_bit 5 (b :: byte)) = unat b mod 32"
  by (simp add: take_bit_eq_mod unat_mod)

lemma unat_drop5: "unat (drop_bit 5 (b :: byte)) = unat b div 32"
  by (simp add: drop_bit_eq_div unat_div)

lemma low_eq_iff: "take_bit 5 (b :: byte) = x \<longleftrightarrow> unat b mod 32 = unat x"
  by (metis unat_take5 word_unat_eq_iff)

lemma major_eq_iff: "drop_bit 5 (b :: byte) = x \<longleftrightarrow> unat b div 32 = unat x"
  by (metis unat_drop5 word_unat_eq_iff)

lemma low_less_24: "take_bit 5 (b :: byte) < 24 \<longleftrightarrow> unat b mod 32 < 24"
  by (simp add: word_less_nat_alt unat_take5)

lemma argument_after_Done:
  "argument_after n post = Done (a, rest) \<longleftrightarrow> (\<exists>bs. post = bs @ rest \<and> length bs = n \<and> a = big_endian bs)"
proof
  assume "argument_after n post = Done (a, rest)"
  then show "\<exists>bs. post = bs @ rest \<and> length bs = n \<and> a = big_endian bs"
    by (intro exI [of _ "take n post"]) (auto simp: argument_after_def split: if_splits)
qed (auto simp: argument_after_def)

lemma cborArgument_Done:
  "cborArgument (b # post) = Done (a, rest) \<longleftrightarrow> (\<exists>h. b # post = h @ rest \<and> item_head (unat b div 32) a h)"
  (is "?L \<longleftrightarrow> ?R")
proof -
  let ?low = "unat b mod 32"
  have L: "?L \<longleftrightarrow> (?low < 24 \<and> a = ?low \<and> rest = post) \<or>
     (?low \<in> {24..27} \<and> (\<exists>bs. post = bs @ rest \<and> length bs = 2 ^ (?low - 24) \<and> a = big_endian bs))"
  proof -
    consider "?low < 24" | "?low = 24" | "?low = 25" | "?low = 26" | "?low = 27" | "?low > 27" by linarith
    then show ?thesis
      by cases (auto simp: cborArgument_def Let_def low_eq_iff low_less_24 unat_take5 argument_after_Done)
  qed
  have R: "?R \<longleftrightarrow> (\<exists>bs. post = bs @ rest \<and> (?low < 24 \<and> bs = [] \<and> a = ?low \<or>
     ?low \<in> {24..27} \<and> length bs = 2 ^ (?low - 24) \<and> a = big_endian bs))"
  proof
    assume ?R
    then show "\<exists>bs. post = bs @ rest \<and> (?low < 24 \<and> bs = [] \<and> a = ?low \<or>
     ?low \<in> {24..27} \<and> length bs = 2 ^ (?low - 24) \<and> a = big_endian bs)"
      unfolding item_head_def by auto
  next
    assume "\<exists>bs. post = bs @ rest \<and> (?low < 24 \<and> bs = [] \<and> a = ?low \<or>
     ?low \<in> {24..27} \<and> length bs = 2 ^ (?low - 24) \<and> a = big_endian bs)"
    then obtain bs where "post = bs @ rest" "?low < 24 \<and> bs = [] \<and> a = ?low \<or>
     ?low \<in> {24..27} \<and> length bs = 2 ^ (?low - 24) \<and> a = big_endian bs" by blast
    then show ?R unfolding item_head_def by (intro exI [of _ "b # bs"]) simp
  qed
  show ?thesis unfolding L R by auto
qed

lemma cborArgument_no_crash: "cborArgument (b # post) \<noteq> Crash"
  by (simp add: cborArgument_def Let_def argument_after_def)

lemma item_head_Cons: "item_head m a h \<Longrightarrow> \<exists>b post. h = b # post \<and> unat b div 32 = m"
  by (auto simp: item_head_def)

lemma cborArgument_head: "item_head m a h \<Longrightarrow> cborArgument (h @ rest) = Done (a, rest)"
proof -
  assume h: "item_head m a h"
  then obtain b post where b: "h = b # post" "unat b div 32 = m" using item_head_Cons by blast
  then show ?thesis using cborArgument_Done [of b "post @ rest" a rest] h by auto
qed

section \<open>The reader reads exactly the encodings\<close>

lemma decode_sound:
  "decode_value d data = Done (v, rest) \<Longrightarrow> \<exists>bs. data = bs @ rest \<and> bs \<noteq> [] \<and> cbor_enc v bs"
  "decode_items d n data = Done (vs, rest) \<Longrightarrow> \<exists>bs. data = bs @ rest \<and> cbor_encs vs bs \<and> length vs = n"
  "decode_entries d n data = Done (es, rest) \<Longrightarrow> \<exists>bs. data = bs @ rest \<and> cbor_pairs es bs \<and> length es = n"
proof (induction d data and d n data and d n data arbitrary: v rest and vs rest and es rest
    rule: decode_value_decode_items_decode_entries.induct)
  case (2 depth data)
  from 2(3) obtain b post where data: "data = b # post" by (cases data) auto
  from 2(3) data obtain a r where arg: "cborArgument data = Done (a, r)" by auto
  from arg data obtain h where h: "data = h @ r" "item_head (unat b div 32) a h"
    using cborArgument_Done by blast
  have hne: "h \<noteq> []" using item_head_Cons [OF h(2)] by auto
  have ih_items: "\<exists>bs. r = bs @ rest' \<and> cbor_encs vs bs \<and> length vs = a"
    if "drop_bit 5 b = 4" "\<not> a > cborMaxItems" "decode_items depth a r = Done (vs, rest')" for vs rest'
    using 2(1) [OF data arg refl refl] that by simp
  have ih_entries: "\<exists>bs. r = bs @ rest' \<and> cbor_pairs es bs \<and> length es = a"
    if "drop_bit 5 b = 5" "\<not> a > cborMaxItems" "decode_entries depth a r = Done (es, rest')" for es rest'
    using 2(2) [OF data arg refl refl] that by simp
  have m: "unat b div 32 = unat (drop_bit 5 b)" by (simp add: unat_drop5)
  note step = 2(3) [unfolded decode_value.simps data list.case arg [unfolded data] obind.simps prod.case Let_def]
  show ?case
  proof (cases "drop_bit 5 b \<in> {0, 1, 2, 3, 4, 5}")
    case True
    then consider "drop_bit 5 b = 0" | "drop_bit 5 b = 1" | "drop_bit 5 b = 2" | "drop_bit 5 b = 3"
      | "drop_bit 5 b = 4" | "drop_bit 5 b = 5" by blast
    then show ?thesis
    proof cases
      case 1
      with step have "v = CborUnsigned (int a)" "rest = r" "a \<le> maxInt64" by (auto split: if_splits)
      with h hne m 1 show ?thesis by (intro exI [of _ h]) (auto intro: enc_unsigned)
    next
      case 2
      with step have "v = CborNegative (- 1 - int a)" "rest = r" "a \<le> maxInt64" by (auto split: if_splits)
      with h hne m 2 show ?thesis by (intro exI [of _ h]) (auto intro: enc_negative)
    next
      case 3
      with step have v: "v = CborBytes (take a r)" "rest = drop a r" "a \<le> length r" by (auto split: if_splits)
      with h m 3 have "cbor_enc v (h @ take a r)" using enc_bytes [of "take a r" h] by simp
      with h hne v show ?thesis by (intro exI [of _ "h @ take a r"]) auto
    next
      case 4
      with step have v: "v = CborText (text_of (take a r))" "rest = drop a r" "a \<le> length r"
        by (auto split: if_splits)
      with h m 4 have "cbor_enc v (h @ take a r)" using enc_text [of "take a r" h] by simp
      with h hne v show ?thesis by (intro exI [of _ "h @ take a r"]) auto
    next
      case 5
      with step obtain vs where v: "v = CborList vs" "decode_items depth a r = Done (vs, rest)"
        and cap: "\<not> a > cborMaxItems" by (auto split: if_splits)
      from ih_items [OF 5 cap v(2)] obtain bs where bs: "r = bs @ rest" "cbor_encs vs bs" "length vs = a" by blast
      with h m 5 cap v have "cbor_enc v (h @ bs)" using enc_list [of vs h bs] by simp
      with h hne bs show ?thesis by (intro exI [of _ "h @ bs"]) auto
    next
      case 6
      with step obtain es where v: "v = CborMap es" "decode_entries depth a r = Done (es, rest)"
        and cap: "\<not> a > cborMaxItems" by (auto split: if_splits)
      from ih_entries [OF 6 cap v(2)] obtain bs where bs: "r = bs @ rest" "cbor_pairs es bs" "length es = a" by blast
      with h m 6 cap v have "cbor_enc v (h @ bs)" using enc_map [of es h bs] by simp
      with h hne bs show ?thesis by (intro exI [of _ "h @ bs"]) auto
    qed
  next
    case False
    with step have seven: "drop_bit 5 b = 7" and simple:
      "take_bit 5 b \<in> {20, 22, 23} \<and> v = CborSimple False \<or> take_bit 5 b = 21 \<and> v = CborSimple True"
      and rest: "rest = r"
      by (auto simp: unread_value_def split: if_splits)
    from seven have hi: "unat b div 32 = 7" by (simp add: major_eq_iff)
    from simple have lo: "unat b mod 32 \<in> {20, 22, 23} \<and> v = CborSimple False \<or> unat b mod 32 = 21 \<and> v = CborSimple True"
      by (simp add: low_eq_iff)
    then have "h = [b]" using h data unfolding item_head_def by auto
    moreover have "cbor_enc v [b]"
    proof -
      have b: "unat b = 32 * 7 + unat b mod 32" using hi by (metis mult_div_mod_eq)
      from lo show ?thesis
      proof
        assume l: "unat b mod 32 \<in> {20, 22, 23} \<and> v = CborSimple False"
        with b have "unat b = unat (0xF4 :: byte) \<or> unat b = unat (0xF6 :: byte) \<or> unat b = unat (0xF7 :: byte)" by auto
        then have "b \<in> {0xF4, 0xF6, 0xF7}" by (simp only: word_unat_eq_iff [symmetric]) simp
        with l show ?thesis by (auto intro: enc_false)
      next
        assume l: "unat b mod 32 = 21 \<and> v = CborSimple True"
        with b have "unat b = unat (0xF5 :: byte)" by simp
        then have "b = 0xF5" by (simp only: word_unat_eq_iff)
        with l show ?thesis by (auto intro: enc_true)
      qed
    qed
    ultimately show ?thesis using h rest by (intro exI [of _ "[b]"]) auto
  qed
next
  case (4 depth n data)
  then obtain v r vs' where "decode_value depth data = Done (v, r)" "decode_items depth n r = Done (vs', rest)"
    and vs: "vs = v # vs'" by auto
  with 4 obtain bs cs where "data = bs @ r" "cbor_enc v bs" "r = cs @ rest" "cbor_encs vs' cs" "length vs' = n"
    by (metis prod.inject)
  with vs show ?case by (intro exI [of _ "bs @ cs"]) (auto intro: encs_cons)
next
  case (6 depth n data)
  then obtain k r v r' es' where d: "decode_value depth data = Done (k, r)" "decode_value depth r = Done (v, r')"
    "decode_entries depth n r' = Done (es', rest)" and es: "es = (k, v) # es'" by auto
  from 6(1) [OF d(1)] obtain bs where bs: "data = bs @ r" "cbor_enc k bs" by blast
  from 6(2) [OF d(1) refl d(2)] obtain cs where cs: "r = cs @ r'" "cbor_enc v cs" by blast
  from 6(3) [OF d(1) refl d(2) refl d(3)] obtain ds where "r' = ds @ rest" "cbor_pairs es' ds" "length es' = n" by blast
  with bs cs es show ?case by (intro exI [of _ "bs @ cs @ ds"]) (auto intro: pairs_cons)
qed (auto intro: encs_nil pairs_nil)

lemma major_of_head:
  assumes "item_head m a h"
  obtains b post where "h = b # post" "unat b div 32 = m"
  using item_head_Cons [OF assms] by blast

lemma decode_head:
  assumes "item_head m a h" "m \<le> 5"
  shows "decode_value (Suc d) (h @ rest) =
     (if m = 0 then (if a > maxInt64 then Fail (Errorf ''a number in the message is too large'' [])
                     else Done (CborUnsigned (int a), rest))
      else if m = 1 then (if a > maxInt64 then Fail (Errorf ''a number in the message is too large'' [])
                     else Done (CborNegative (- 1 - int a), rest))
      else if m = 2 \<or> m = 3 then
        (if a > length rest then Fail (Errorf ''the message says it is longer than it is'' [])
         else if m = 2 then Done (CborBytes (take a rest), drop a rest)
         else Done (CborText (text_of (take a rest)), drop a rest))
      else if a > cborMaxItems then Fail (Errorf ''the message holds more than this reads'' [])
      else if m = 4 then obind (decode_items d a rest) (\<lambda>(vs, rest'). Done (CborList vs, rest'))
      else obind (decode_entries d a rest) (\<lambda>(es, rest'). Done (CborMap es, rest')))"
proof -
  obtain b post where h: "h = b # post" "unat b div 32 = m" using major_of_head [OF assms(1)] .
  have arg: "cborArgument (b # post @ rest) = Done (a, rest)" using cborArgument_head [OF assms(1), of rest] h by simp
  consider "m = 0" | "m = 1" | "m = 2" | "m = 3" | "m = 4" | "m = 5" using assms(2) by linarith
  then show ?thesis by cases (simp_all add: h arg major_eq_iff Let_def)
qed

lemma decode_simple_byte:
  assumes "unat b = 224 + k" "k \<in> {20, 21, 22, 23}"
  shows "decode_value (Suc d) (b # rest) = Done (CborSimple (k = 21), rest)"
proof -
  have mods: "unat b mod 32 = k" "unat b div 32 = 7" using assms by auto
  have "k < 24" using assms(2) by auto
  with mods have arg: "cborArgument (b # rest) = Done (k, rest)"
    by (simp add: cborArgument_def Let_def low_less_24 unat_take5)
  show ?thesis using mods assms(2) by (simp add: arg Let_def low_eq_iff major_eq_iff) auto
qed

lemma decode_simple:
  shows "b \<in> {0xF4, 0xF6, 0xF7} \<Longrightarrow> decode_value (Suc d) (b # rest) = Done (CborSimple False, rest)"
    and "decode_value (Suc d) (0xF5 # rest) = Done (CborSimple True, rest)"
proof -
  have "decode_value (Suc d) (0xF4 # rest) = Done (CborSimple (20 = (21 :: nat)), rest)"
    "decode_value (Suc d) (0xF6 # rest) = Done (CborSimple (22 = (21 :: nat)), rest)"
    "decode_value (Suc d) (0xF7 # rest) = Done (CborSimple (23 = (21 :: nat)), rest)"
    "decode_value (Suc d) (0xF5 # rest) = Done (CborSimple (21 = (21 :: nat)), rest)"
    by (rule decode_simple_byte; simp)+
  then show "b \<in> {0xF4, 0xF6, 0xF7} \<Longrightarrow> decode_value (Suc d) (b # rest) = Done (CborSimple False, rest)"
    and "decode_value (Suc d) (0xF5 # rest) = Done (CborSimple True, rest)"
    by (simp_all del: decode_value.simps) blast
qed

lemma decode_nonempty:
  assumes "item_head m a h" "length (h @ bs) \<le> d"
  obtains d' where "d = Suc d'" "length bs \<le> d'"
proof -
  obtain b post where "h = b # post" using major_of_head [OF assms(1)] .
  with assms(2) have "d = Suc (d - 1)" "length bs \<le> d - 1" by simp_all
  then show thesis by (rule that)
qed

declare decode_value.simps(2) [simp del]

lemma decode_complete:
  "cbor_enc v bs \<Longrightarrow> length bs \<le> d \<Longrightarrow> decode_value d (bs @ rest) = Done (v, rest)"
  "cbor_encs vs bs \<Longrightarrow> length bs \<le> d \<Longrightarrow> decode_items d (length vs) (bs @ rest) = Done (vs, rest)"
  "cbor_pairs es bs \<Longrightarrow> length bs \<le> d \<Longrightarrow> decode_entries d (length es) (bs @ rest) = Done (es, rest)"
proof (induction arbitrary: d rest and d rest and d rest rule: cbor_enc_cbor_encs_cbor_pairs.inducts)
  case (enc_unsigned a h)
  then obtain d' where "d = Suc d'" by (auto elim: decode_nonempty [of _ _ h "[]"])
  with enc_unsigned show ?case by (simp add: decode_head [OF enc_unsigned(1)])
next
  case (enc_negative a h)
  then obtain d' where "d = Suc d'" by (auto elim: decode_nonempty [of _ _ h "[]"])
  with enc_negative show ?case by (simp add: decode_head [OF enc_negative(1)])
next
  case (enc_bytes bs h)
  then obtain d' where "d = Suc d'" by (auto elim: decode_nonempty)
  then show ?case by (simp add: decode_head [OF enc_bytes(1)])
next
  case (enc_text bs h)
  then obtain d' where "d = Suc d'" by (auto elim: decode_nonempty)
  then show ?case by (simp add: decode_head [OF enc_text(1)])
next
  case (enc_list vs h bs)
  obtain d' where d: "d = Suc d'" "length bs \<le> d'" using decode_nonempty [OF enc_list(1,5)] .
  have "decode_items d' (length vs) (bs @ rest) = Done (vs, rest)" by (rule enc_list.IH [OF d(2)])
  with enc_list.hyps d show ?case by (simp add: decode_head [OF enc_list(1)])
next
  case (enc_map es h bs)
  obtain d' where d: "d = Suc d'" "length bs \<le> d'" using decode_nonempty [OF enc_map(1,5)] .
  have "decode_entries d' (length es) (bs @ rest) = Done (es, rest)" by (rule enc_map.IH [OF d(2)])
  with enc_map.hyps d show ?case by (simp add: decode_head [OF enc_map(1)])
next
  case (enc_false b)
  then obtain d' where "d = Suc d'" by (cases d) auto
  with enc_false show ?case using decode_simple(1) [of b d' rest] by simp
next
  case enc_true
  then obtain d' where "d = Suc d'" by (cases d) auto
  then show ?case using decode_simple(2) [of d' rest] by simp
next
  case (encs_cons v bs vs cs)
  have "decode_value d (bs @ cs @ rest) = Done (v, cs @ rest)" using encs_cons by simp
  moreover have "decode_items d (length vs) (cs @ rest) = Done (vs, rest)" using encs_cons by simp
  ultimately show ?case by simp
next
  case (pairs_cons k bs v cs es ds)
  have "decode_value d (bs @ cs @ ds @ rest) = Done (k, cs @ ds @ rest)" using pairs_cons by simp
  moreover have "decode_value d (cs @ ds @ rest) = Done (v, ds @ rest)" using pairs_cons by simp
  moreover have "decode_entries d (length es) (ds @ rest) = Done (es, rest)" using pairs_cons by simp
  ultimately show ?case by simp
qed simp_all

lemma decode_total:
  "length data < d \<Longrightarrow> decode_value d data \<noteq> Crash"
  "length data < d \<Longrightarrow> decode_items d n data \<noteq> Crash"
  "length data < d \<Longrightarrow> decode_entries d n data \<noteq> Crash"
proof (induction d data and d n data and d n data rule: decode_value_decode_items_decode_entries.induct)
  case (2 depth data)
  show ?case
  proof (cases data)
    case Nil
    then show ?thesis by (simp add: decode_value.simps(2))
  next
    case (Cons b post)
    show ?thesis
    proof (cases "cborArgument data")
      case (Done p)
      obtain a r where p: "p = (a, r)" by (cases p)
      with Done have arg: "cborArgument data = Done (a, r)" by simp
      obtain h where h: "data = h @ r" "item_head (unat b div 32) a h"
        using arg cborArgument_Done Cons by metis
      obtain b' post' where "h = b' # post'" using item_head_Cons [OF h(2)] by blast
      with 2(3) h(1) have len: "length r < depth" by simp
      have items: "decode_items depth a r \<noteq> Crash" if "drop_bit 5 b = 4" "\<not> a > cborMaxItems"
        using 2(1) [OF Cons arg refl refl] that len by simp
      have entries: "decode_entries depth a r \<noteq> Crash" if "drop_bit 5 b = 5" "\<not> a > cborMaxItems"
        using 2(2) [OF Cons arg refl refl] that len by simp
      show ?thesis
        unfolding decode_value.simps Cons list.case arg [unfolded Cons] obind.simps prod.case Let_def
        using items entries by (auto simp: unread_value_def split: prod.splits if_splits)
    qed (use Cons cborArgument_no_crash in \<open>auto simp: decode_value.simps(2)\<close>)
  qed
next
  case (4 depth n data)
  then show ?case using decode_sound(1) by (fastforce split: prod.splits)
next
  case (6 depth n data)
  show ?case
  proof (cases "decode_value depth data")
    case (Done p)
    obtain k r where p: "p = (k, r)" by (cases p)
    with Done decode_sound(1) have len: "length r < depth" using 6(4) by fastforce
    show ?thesis
    proof (cases "decode_value depth r")
      case d2: (Done q)
      obtain v r' where q: "q = (v, r')" by (cases q)
      with d2 decode_sound(1) have len': "length r' < depth" using len by fastforce
      have "decode_entries depth n r' \<noteq> Crash"
        using 6(3) [OF Done [unfolded p] refl d2 [unfolded q] refl len'] .
      with Done p d2 q show ?thesis by (auto split: prod.splits)
    qed (use Done p 6(2) [OF Done [unfolded p] refl len] in auto)
  qed (use 6(1) [OF 6(4)] in auto)
qed simp_all

text \<open>Property C11: \<open>decodeCBOR\<close> reads exactly the encodings. It answers a value and what follows it
  iff the bytes before that encode the value (any argument width, numbers up to \<open>MaxInt64\<close>, lists
  and maps up to \<open>cborMaxItems\<close>), and on everything else it answers an error: it never runs past the
  message and the nesting depth it is given is enough.\<close>

theorem decodeCBOR_reads_encodings:
  "(decodeCBOR data = Done (v, rest) \<longleftrightarrow> (\<exists>bs. data = bs @ rest \<and> cbor_enc v bs)) \<and> decodeCBOR data \<noteq> Crash"
proof (intro conjI iffI)
  assume "decodeCBOR data = Done (v, rest)"
  from decode_sound(1) [OF this [unfolded decodeCBOR_def]]
  show "\<exists>bs. data = bs @ rest \<and> cbor_enc v bs" by blast
next
  assume "\<exists>bs. data = bs @ rest \<and> cbor_enc v bs"
  then show "decodeCBOR data = Done (v, rest)" by (auto simp: decodeCBOR_def intro!: decode_complete(1))
next
  show "decodeCBOR data \<noteq> Crash" unfolding decodeCBOR_def by (rule decode_total(1)) simp
qed

lemma decodeCBOR_no_crash: "decodeCBOR data \<noteq> Crash"
  unfolding decodeCBOR_def by (rule decode_total(1)) simp

lemma decodeCBOR_prefix:
  "decodeCBOR data = Done (v, rest) \<Longrightarrow> \<exists>bs. data = bs @ rest \<and> decodeCBOR bs = Done (v, [])"
proof -
  assume "decodeCBOR data = Done (v, rest)"
  then obtain bs where bs: "data = bs @ rest" "cbor_enc v bs"
    using decode_sound(1) unfolding decodeCBOR_def by blast
  have "decode_value (Suc (length bs)) (bs @ []) = Done (v, [])" by (rule decode_complete(1) [OF bs(2)]) simp
  with bs(1) show ?thesis by (auto simp: decodeCBOR_def)
qed

section \<open>What the reader reserves\<close>

text \<open>
  The list slots \<open>decodeCBOR\<close> reserves with \<open>make(..., 0, argument)\<close> before it reads the items, summed
  over the whole reading of a message.
\<close>

fun slots_value :: "nat \<Rightarrow> byte list \<Rightarrow> nat" and slots_items :: "nat \<Rightarrow> nat \<Rightarrow> byte list \<Rightarrow> nat"
  and slots_entries :: "nat \<Rightarrow> nat \<Rightarrow> byte list \<Rightarrow> nat"
where
  "slots_value 0 data = 0"
| "slots_value (Suc depth) data =
     (case data of
        [] \<Rightarrow> 0
      | b # _ \<Rightarrow>
         (case cborArgument data of
            Done (argument, rest) \<Rightarrow>
              (if drop_bit 5 b = 4 \<and> argument \<le> cborMaxItems then argument + slots_items depth argument rest
               else if drop_bit 5 b = 5 \<and> argument \<le> cborMaxItems then argument + slots_entries depth argument rest
               else 0)
          | _ \<Rightarrow> 0))"
| "slots_items depth 0 data = 0"
| "slots_items depth (Suc n) data =
     slots_value depth data +
     (case decode_value depth data of Done (v, rest) \<Rightarrow> slots_items depth n rest | _ \<Rightarrow> 0)"
| "slots_entries depth 0 data = 0"
| "slots_entries depth (Suc n) data =
     slots_value depth data +
     (case decode_value depth data of
        Done (k, rest) \<Rightarrow> slots_value depth rest +
          (case decode_value depth rest of Done (v, rest') \<Rightarrow> slots_entries depth n rest' | _ \<Rightarrow> 0)
      | _ \<Rightarrow> 0)"

definition reserved_slots :: "byte list \<Rightarrow> nat" where
  "reserved_slots data = slots_value (Suc (length data)) data"

definition nested_lists :: "nat \<Rightarrow> byte list" where
  "nested_lists n = concat (replicate n [0x9A, 0, 1, 0, 0])"

lemma nested_head: "item_head 4 65536 [0x9A, 0, 1, 0, 0]"
  by (simp add: item_head_def big_endian_def)

lemma nested_argument: "cborArgument (0x9A # 0 # 1 # 0 # 0 # rest) = Done (65536, rest)"
  using cborArgument_head [OF nested_head, of rest] by simp

lemma nested_not_done: "decode_value d (nested_lists n) \<noteq> Done (v, rest)"
proof (induction n arbitrary: d v rest)
  case 0
  show ?case by (cases d) (simp_all add: nested_lists_def decode_value.simps(2))
next
  case (Suc n)
  show ?case
  proof (cases d)
    case (Suc d')
    have "decode_items d' 65536 (nested_lists n) \<noteq> Done (vs, r)" for vs r
      using Suc.IH [of d'] decode_items.simps(2) [of d' 65535 "nested_lists n"] by auto
    then show ?thesis
      using Suc decode_head [OF nested_head, of d' "nested_lists n"]
      by (auto simp: nested_lists_def cborMaxItems_def)
  qed simp
qed

lemma nested_slots: "n < d \<Longrightarrow> slots_value d (nested_lists n) = n * 65536"
proof (induction n arbitrary: d)
  case 0
  then show ?case by (cases d) (simp_all add: nested_lists_def)
next
  case (Suc n)
  then obtain d' where d: "d = Suc d'" "n < d'" by (cases d) auto
  have "slots_items d' 65536 (nested_lists n) = n * 65536"
    using slots_items.simps(2) [of d' 65535 "nested_lists n"] Suc.IH [OF d(2)] nested_not_done [of d' n]
    by (auto split: outcome.splits)
  then show ?case
    using d(1) by (simp add: nested_lists_def nested_argument cborMaxItems_def major_eq_iff)
qed

text \<open>Property C39: the cap on items does not bound what a message can make the reader reserve, since
  every nested list reserves its claimed length before its first item is read: a message of
  \<open>5 * n\<close> bytes that ends in the middle of \<open>n\<close> nested lists reserves \<open>65536 * n\<close> slots, and is
  then refused.\<close>

theorem nested_lists_reserve_without_bound:
  "length (nested_lists n) = 5 * n \<and> reserved_slots (nested_lists n) = 65536 * n \<and>
   (\<forall>v rest. decodeCBOR (nested_lists n) \<noteq> Done (v, rest))"
proof -
  have len: "length (nested_lists n) = 5 * n" by (induction n) (simp_all add: nested_lists_def)
  then have "n < Suc (length (nested_lists n))" by simp
  from nested_slots [OF this] len nested_not_done show ?thesis
    by (simp add: reserved_slots_def decodeCBOR_def)
qed

end
