(* ===== verification/WebAuthn.thy ===== *)
theory WebAuthn
  imports Cbor
begin

unbundle bit_operations_syntax

text \<open>
  \<open>internal/webauthn/webauthn.go\<close>: registering a security key and verifying a sign-in; with the
  challenge and counter columns of \<open>internal/store/webauthn.go\<close> and the part of
  \<open>internal/web/passkeys.go\<close> that puts them together. The hash, the two signature schemes, base64url and
  \<open>encoding/json\<close> are the record \<open>crypto\<close>.
\<close>

section \<open>Model\<close>

record clientData =
  cd_type :: string
  cd_challenge :: string
  cd_origin :: string
  cd_cross_origin :: bool

datatype 'ec public_key = ECDSA 'ec | RSA nat int

record 'ec crypto =
  sha256 :: "byte list \<Rightarrow> byte list"
  base64url :: "string \<Rightarrow> byte list option"
  client_data :: "byte list \<Rightarrow> clientData option"
  client_challenge :: "byte list \<Rightarrow> string option"
  p256_point :: "byte list \<Rightarrow> 'ec option"
  ecdsa_verify :: "'ec \<Rightarrow> byte list \<Rightarrow> byte list \<Rightarrow> bool"
  rsa_verify :: "nat \<Rightarrow> int \<Rightarrow> byte list \<Rightarrow> byte list \<Rightarrow> bool"
  marshal_pkix :: "'ec public_key \<Rightarrow> byte list option"

record Credential =
  cr_id :: "byte list"
  cr_public_key :: "byte list"
  cr_sign_count :: nat
  cr_user_verified :: bool
  cr_aaguid :: "byte list"

record Expectation =
  ex_challenge :: "byte list"
  ex_origin :: string
  ex_rpid :: "byte list"
  ex_require_verification :: bool

record authenticatorData =
  ad_rpid_hash :: "byte list"
  ad_user_present :: bool
  ad_user_verified :: bool
  ad_sign_count :: nat
  ad_aaguid :: "byte list option"
  ad_credential_id :: "byte list option"
  ad_public_key :: "byte list option"

definition flagUserPresent :: byte where "flagUserPresent = 1"
definition flagUserVerified :: byte where "flagUserVerified = 4"
definition flagAttestedData :: byte where "flagAttestedData = 64"

definition algorithmES256 :: int where "algorithmES256 = -7"
definition algorithmRS256 :: int where "algorithmRS256 = -257"

definition Algorithms :: "int list" where
  "Algorithms = [algorithmES256, algorithmRS256]"

text \<open>The fields \<open>number\<close> and \<open>bytes\<close> of a decoded value, zero for the other kinds.\<close>

definition number_of :: "cborValue \<Rightarrow> int" where
  "number_of v = (case v of CborUnsigned n \<Rightarrow> n | CborNegative n \<Rightarrow> n | _ \<Rightarrow> 0)"

definition bytes_of :: "cborValue \<Rightarrow> byte list option" where
  "bytes_of v = (case v of CborBytes bs \<Rightarrow> Some bs | _ \<Rightarrow> None)"

definition is_map :: "cborValue \<Rightarrow> bool" where
  "is_map v = (case v of CborMap _ \<Rightarrow> True | _ \<Rightarrow> False)"

definition es256_key :: "('ec, 'z) crypto_scheme \<Rightarrow> cborValue \<Rightarrow> (go_error, 'ec public_key) outcome" where
  "es256_key lib key =
     (case (Option.bind (cbor_label key (-2)) bytes_of, Option.bind (cbor_label key (-3)) bytes_of, cbor_label key (-1)) of
        (Some x, Some y, Some curve) \<Rightarrow>
          (if number_of curve \<noteq> 1 then Fail (Errorf ''this site reads P-256 keys'' [])
           else if length x \<noteq> 32 \<or> length y \<noteq> 32 then
             Fail (Errorf ''the credential's key is the wrong size for P-256'' [])
           else case p256_point lib (4 # x @ y) of
             None \<Rightarrow> Fail (Errorf ''the credential's key is not a point on P-256'' [])
           | Some p \<Rightarrow> Done (ECDSA p))
      | _ \<Rightarrow> Fail (Errorf ''the credential's key is not a P-256 key'' []))"

definition rs256_key :: "cborValue \<Rightarrow> (go_error, 'ec public_key) outcome" where
  "rs256_key key =
     (case (Option.bind (cbor_label key (-1)) bytes_of, Option.bind (cbor_label key (-2)) bytes_of) of
        (Some modulus, Some e) \<Rightarrow>
          (if length modulus < 256 then Fail (Errorf ''the credential's RSA key is shorter than 2048 bits'' [])
           else (let E = wrap64 (int (big_endian e mod 2 ^ 64))
                 in if E < 3 then Fail (Errorf ''the credential's RSA key has no usable exponent'' [])
                    else Done (RSA (big_endian modulus) E)))
      | _ \<Rightarrow> Fail (Errorf ''the credential's key is not an RSA key'' []))"

definition publicKeyFrom :: "('ec, 'z) crypto_scheme \<Rightarrow> byte list \<Rightarrow> (go_error, 'ec public_key) outcome" where
  "publicKeyFrom lib raw =
     (case decodeCBOR raw of
        Crash \<Rightarrow> Crash
      | Fail _ \<Rightarrow> Fail (Errorf ''the credential's key cannot be read'' [])
      | Done (key, rest) \<Rightarrow>
         (if \<not> is_map key \<or> rest \<noteq> [] then Fail (Errorf ''the credential's key cannot be read'' [])
          else case cbor_label key 3 of
            None \<Rightarrow> Fail (Errorf ''the credential's key says nothing about its algorithm'' [])
          | Some algorithm \<Rightarrow>
             (if number_of algorithm = algorithmES256 then es256_key lib key
              else if number_of algorithm = algorithmRS256 then rs256_key key
              else Fail (Errorf ''this site registers keys that sign with ES256 or RS256, not %d''
                           [itoa (number_of algorithm)]))))"

definition PublicKeyDER :: "('ec, 'z) crypto_scheme \<Rightarrow> byte list \<Rightarrow> (go_error, byte list option) outcome" where
  "PublicKeyDER lib raw = omap (marshal_pkix lib) (publicKeyFrom lib raw)"

definition attested_data :: "authenticatorData \<Rightarrow> byte list \<Rightarrow> (go_error, authenticatorData) outcome" where
  "attested_data parsed rest =
     (if length rest < 18 then
        Fail (Errorf ''the authenticator data promises a credential it does not carry'' [])
      else
        (let n = big_endian (take 2 (drop 16 rest)); rest' = drop 18 rest
         in if n \<le> 0 \<or> n > length rest' \<or> n > 1023 then Fail (Errorf ''the credential id is not there'' [])
            else
              (let key_bytes = drop n rest'
               in case decodeCBOR key_bytes of
                    Crash \<Rightarrow> Crash
                  | Fail _ \<Rightarrow> Fail (Errorf ''the credential carries no key'' [])
                  | Done (key, remainder) \<Rightarrow>
                     (if \<not> is_map key then Fail (Errorf ''the credential carries no key'' [])
                      else Done (parsed\<lparr>ad_aaguid := Some (take 16 rest), ad_credential_id := Some (take n rest'),
                             ad_public_key := Some (take (length key_bytes - length remainder) key_bytes)\<rparr>)))))"

definition readAuthenticatorData :: "byte list \<Rightarrow> (go_error, authenticatorData) outcome" where
  "readAuthenticatorData data =
     (if length data < 37 then Fail (Errorf ''the authenticator data is too short to be one'' [])
      else
        (let parsed = \<lparr>ad_rpid_hash = take 32 data,
               ad_user_present = (data ! 32) AND flagUserPresent \<noteq> 0,
               ad_user_verified = (data ! 32) AND flagUserVerified \<noteq> 0,
               ad_sign_count = big_endian (take 4 (drop 33 data)),
               ad_aaguid = None, ad_credential_id = None, ad_public_key = None\<rparr>
         in if (data ! 32) AND flagAttestedData = 0 then Done parsed
            else attested_data parsed (drop 37 data)))"

definition checkAuthenticator :: "('ec, 'z) crypto_scheme \<Rightarrow> authenticatorData \<Rightarrow> Expectation \<Rightarrow> go_error option" where
  "checkAuthenticator lib ad ex =
     (if ad_rpid_hash ad \<noteq> sha256 lib (ex_rpid ex) then Some (Errorf ''that key answered for another site'' [])
      else if \<not> ad_user_present ad then Some (Errorf ''nobody was there when the key answered'' [])
      else if ex_require_verification ex \<and> \<not> ad_user_verified ad then
        Some (Errorf ''this site asks the key to check who is using it'' [])
      else None)"

definition checkClientData ::
  "('ec, 'z) crypto_scheme \<Rightarrow> byte list \<Rightarrow> string \<Rightarrow> Expectation \<Rightarrow> go_error option" where
  "checkClientData lib raw ceremony ex =
     (case client_data lib raw of
        None \<Rightarrow> Some (Errorf ''the browser's account of the sign-in cannot be read'' [])
      | Some cd \<Rightarrow>
         (if cd_type cd \<noteq> ceremony then
            Some (Errorf ''that answer is to %q rather than to %q'' [cd_type cd, ceremony])
          else case base64url lib (cd_challenge cd) of
            None \<Rightarrow> Some (Errorf ''the challenge in the answer is not base64url'' [])
          | Some challenge \<Rightarrow>
             (if ex_challenge ex = [] \<or> challenge \<noteq> ex_challenge ex then
                Some (Errorf ''that answer is to another challenge'' [])
              else if cd_origin cd \<noteq> ex_origin ex then
                Some (Errorf ''that answer was given at %q rather than at this site'' [cd_origin cd])
              else if cd_cross_origin cd then
                Some (Errorf ''that answer was given inside another site's page'' [])
              else None)))"

definition guard :: "go_error option \<Rightarrow> (go_error, unit) outcome" where
  "guard e = (case e of None \<Rightarrow> Done () | Some x \<Rightarrow> Fail x)"

definition attestation_auth_data :: "byte list \<Rightarrow> (go_error, byte list) outcome" where
  "attestation_auth_data raw =
     (case decodeCBOR raw of
        Crash \<Rightarrow> Crash
      | Fail e \<Rightarrow> Fail (Wrapf ''read what the key sent: %w'' e)
      | Done (attestation, rest) \<Rightarrow>
         (if rest \<noteq> [] \<or> \<not> is_map attestation then
            Fail (Errorf ''what the key sent is not an attestation object'' [])
          else case Option.bind (cbor_value attestation ''authData'') bytes_of of
            None \<Rightarrow> Fail (Errorf ''the key sent no authenticator data'' [])
          | Some bs \<Rightarrow> Done bs))"

definition Register ::
  "('ec, 'z) crypto_scheme \<Rightarrow> byte list \<Rightarrow> byte list \<Rightarrow> Expectation \<Rightarrow> (go_error, Credential) outcome" where
  "Register lib clientDataJSON attestationObject ex =
     obind (guard (checkClientData lib clientDataJSON ''webauthn.create'' ex)) (\<lambda>_.
     obind (attestation_auth_data attestationObject) (\<lambda>bs.
     obind (readAuthenticatorData bs) (\<lambda>ad.
     obind (guard (checkAuthenticator lib ad ex)) (\<lambda>_.
     case (ad_credential_id ad, ad_public_key ad) of
       (Some cid, Some pk) \<Rightarrow>
         obind (publicKeyFrom lib pk) (\<lambda>_.
         Done \<lparr>cr_id = cid, cr_public_key = pk, cr_sign_count = ad_sign_count ad,
               cr_user_verified = ad_user_verified ad,
               cr_aaguid = (case ad_aaguid ad of None \<Rightarrow> [] | Some a \<Rightarrow> a)\<rparr>)
     | _ \<Rightarrow> Fail (Errorf ''the key sent no credential to keep'' [])))))"

definition signature_ok :: "('ec, 'z) crypto_scheme \<Rightarrow> 'ec public_key \<Rightarrow> byte list \<Rightarrow> byte list \<Rightarrow> bool" where
  "signature_ok lib key digest sig =
     (case key of ECDSA p \<Rightarrow> ecdsa_verify lib p digest sig | RSA n e \<Rightarrow> rsa_verify lib n e digest sig)"

definition Verify ::
  "('ec, 'z) crypto_scheme \<Rightarrow> Credential \<Rightarrow> byte list \<Rightarrow> byte list \<Rightarrow> byte list \<Rightarrow> Expectation \<Rightarrow>
   (go_error, nat) outcome" where
  "Verify lib cred clientDataJSON authData sig ex =
     obind (guard (checkClientData lib clientDataJSON ''webauthn.get'' ex)) (\<lambda>_.
     obind (readAuthenticatorData authData) (\<lambda>ad.
     obind (guard (checkAuthenticator lib ad ex)) (\<lambda>_.
     obind (publicKeyFrom lib (cr_public_key cred)) (\<lambda>key.
     if \<not> signature_ok lib key (sha256 lib (authData @ sha256 lib clientDataJSON)) sig then
       Fail (Errorf ''that key did not sign this sign-in'' [])
     else if (cr_sign_count cred > 0 \<or> ad_sign_count ad > 0) \<and> ad_sign_count ad \<le> cr_sign_count cred then
       Fail (Errorf ''that key has been used elsewhere: its counter went backwards'' [])
     else Done (ad_sign_count ad)))))"

section \<open>The contract of a sign-in\<close>

text \<open>What the browser says the ceremony was, in one formula.\<close>

definition ceremony_ok :: "('ec, 'z) crypto_scheme \<Rightarrow> byte list \<Rightarrow> string \<Rightarrow> Expectation \<Rightarrow> bool" where
  "ceremony_ok lib raw ceremony ex \<longleftrightarrow>
     (\<exists>cd. client_data lib raw = Some cd \<and> cd_type cd = ceremony \<and>
        base64url lib (cd_challenge cd) = Some (ex_challenge ex) \<and> ex_challenge ex \<noteq> [] \<and>
        cd_origin cd = ex_origin ex \<and> \<not> cd_cross_origin cd)"

lemma guard_Done [simp]: "guard e = Done u \<longleftrightarrow> e = None"
  by (simp add: guard_def split: option.split)

lemma guard_no_crash [simp]: "guard e \<noteq> Crash"
  by (simp add: guard_def split: option.split)

lemma checkClientData_None: "checkClientData lib raw ceremony ex = None \<longleftrightarrow> ceremony_ok lib raw ceremony ex"
  by (auto simp: checkClientData_def ceremony_ok_def split: option.splits if_splits)

lemma checkAuthenticator_None:
  "checkAuthenticator lib ad ex = None \<longleftrightarrow>
     ad_rpid_hash ad = sha256 lib (ex_rpid ex) \<and> ad_user_present ad \<and>
     (ex_require_verification ex \<longrightarrow> ad_user_verified ad)"
  by (auto simp: checkAuthenticator_def)

definition counts_up :: "nat \<Rightarrow> nat \<Rightarrow> bool" where
  "counts_up old new \<longleftrightarrow> old < new \<or> old = 0 \<and> new = 0"

text \<open>
  Property C4: the exact meaning of an accepted sign-in. \<open>Verify\<close> answers a counter iff the browser's
  account is of a sign-in at this origin and to this non-empty challenge, not in a
  foreign frame; the authenticator data is for this site with somebody present (and
  verified when the site asks); the registered key signed exactly those bytes followed by the hash of
  the client data; and the counter is the one in those bytes and counts up, or both are zero.
\<close>

theorem verify_accepts_exactly:
  "Verify lib cred cd authData sig ex = Done n \<longleftrightarrow>
     ceremony_ok lib cd ''webauthn.get'' ex \<and>
     (\<exists>ad key. readAuthenticatorData authData = Done ad \<and>
        ad_rpid_hash ad = sha256 lib (ex_rpid ex) \<and> ad_user_present ad \<and>
        (if ex_require_verification ex then ad_user_verified ad else True) \<and>
        publicKeyFrom lib (cr_public_key cred) = Done key \<and>
        signature_ok lib key (sha256 lib (authData @ sha256 lib cd)) sig \<and>
        n = ad_sign_count ad \<and> counts_up (cr_sign_count cred) n)"
  (is "_ \<longleftrightarrow> ?R")
proof
  assume "Verify lib cred cd authData sig ex = Done n"
  then show "?R" by (auto simp: Verify_def checkClientData_None checkAuthenticator_None counts_up_def split: if_splits)
next
  assume "?R"
  then obtain ad key where cer: "checkClientData lib cd ''webauthn.get'' ex = None"
    and ad: "readAuthenticatorData authData = Done ad" "checkAuthenticator lib ad ex = None"
    and key: "publicKeyFrom lib (cr_public_key cred) = Done key"
      "signature_ok lib key (sha256 lib (authData @ sha256 lib cd)) sig"
    and n: "n = ad_sign_count ad" "counts_up (cr_sign_count cred) n"
    by (auto simp: checkClientData_None checkAuthenticator_None split: if_splits)
  then show "Verify lib cred cd authData sig ex = Done n"
    unfolding Verify_def cer ad key by (auto simp: guard_def ad key counts_up_def)
qed

lemma Verify_Done:
  "Verify lib cred cd authData sig ex = Done n \<Longrightarrow>
     ceremony_ok lib cd ''webauthn.get'' ex \<and> counts_up (cr_sign_count cred) n \<and>
     (\<exists>ad. readAuthenticatorData authData = Done ad \<and> n = ad_sign_count ad)"
  by (auto simp: Verify_def checkClientData_None counts_up_def split: if_splits)

section \<open>What registration keeps\<close>

lemma obind_case: "obind m f = (case m of Done a \<Rightarrow> f a | Fail e \<Rightarrow> Fail e | Crash \<Rightarrow> Crash)"
  by (cases m) auto

lemma publicKeyFrom_no_crash: "publicKeyFrom lib raw \<noteq> Crash"
  using decodeCBOR_no_crash [of raw]
  by (auto simp: publicKeyFrom_def es256_key_def rs256_key_def Let_def split: outcome.splits option.splits prod.splits)

lemma attested_no_crash: "attested_data ad rest \<noteq> Crash"
  using decodeCBOR_no_crash by (auto simp: attested_data_def Let_def split: outcome.splits prod.splits)

lemma readAuthenticatorData_no_crash: "readAuthenticatorData data \<noteq> Crash"
  using attested_no_crash by (auto simp: readAuthenticatorData_def Let_def)

lemma split_16_2: "xs = take 16 xs @ take 2 (drop 16 xs) @ drop 18 xs"
proof -
  have "drop 18 xs = drop 2 (drop 16 xs)" by simp
  then show ?thesis by (simp only: append_take_drop_id)
qed

lemma attested_key:
  assumes "attested_data parsed rest = Done ad"
  shows "\<exists>cid pk key a. ad_credential_id ad = Some cid \<and> 1 \<le> length cid \<and> length cid \<le> 1023 \<and>
     ad_aaguid ad = Some a \<and> length a = 16 \<and>
     ad_public_key ad = Some pk \<and> decodeCBOR pk = Done (key, []) \<and> is_map key \<and>
     (\<exists>post len. length len = 2 \<and> rest = a @ len @ cid @ pk @ post)"
proof -
  define n where "n = big_endian (take 2 (drop 16 rest))"
  define after where "after = drop 18 rest"
  have len: "18 \<le> length rest" and n: "0 < n" "n \<le> length after" "n \<le> 1023"
    using assms by (auto simp: attested_data_def n_def after_def Let_def split: if_splits)
  obtain key remainder where d: "decodeCBOR (drop n after) = Done (key, remainder)" "is_map key"
    and ad: "ad = parsed\<lparr>ad_aaguid := Some (take 16 rest), ad_credential_id := Some (take n after),
       ad_public_key := Some (take (length (drop n after) - length remainder) (drop n after))\<rparr>"
    using assms by (auto simp: attested_data_def n_def [symmetric] after_def [symmetric] Let_def
        split: if_splits outcome.splits)
  obtain bs where bs: "drop n after = bs @ remainder" "decodeCBOR bs = Done (key, [])"
    using decodeCBOR_prefix [OF d(1)] by blast
  have "rest = take 16 rest @ take 2 (drop 16 rest) @ take n after @ bs @ remainder"
    unfolding bs(1) [symmetric] append_take_drop_id after_def by (rule split_16_2)
  moreover have l16: "length (take 16 rest) = 16" and "length (take 2 (drop 16 rest)) = 2" using len by simp_all
  ultimately have "\<exists>post len. length len = 2 \<and> rest = take 16 rest @ len @ take n after @ bs @ post" by blast
  with l16 show ?thesis using ad bs d(2) n by auto
qed

text \<open>
  Property C34: a key that registers can sign in. Whatever \<open>Register\<close> keeps came out of a ceremony for
  this site's challenge and origin, has an id of 1 to 1023 bytes, and a public key that is one
  complete COSE map which \<open>publicKeyFrom\<close> reads again at every sign-in; so \<open>Verify\<close> on a
  correctly signed answer whose counter counts up succeeds.
\<close>

theorem registered_key_signs_in:
  assumes "Register lib cd0 attestation ex0 = Done cred"
  shows "ceremony_ok lib cd0 ''webauthn.create'' ex0 \<and> 1 \<le> length (cr_id cred) \<and> length (cr_id cred) \<le> 1023 \<and>
    length (cr_aaguid cred) = 16 \<and>
    (\<exists>key. publicKeyFrom lib (cr_public_key cred) = Done key \<and>
       (\<forall>cd authData ad sig ex. ceremony_ok lib cd ''webauthn.get'' ex \<longrightarrow>
          readAuthenticatorData authData = Done ad \<longrightarrow> checkAuthenticator lib ad ex = None \<longrightarrow>
          signature_ok lib key (sha256 lib (authData @ sha256 lib cd)) sig \<longrightarrow>
          counts_up (cr_sign_count cred) (ad_sign_count ad) \<longrightarrow>
          Verify lib cred cd authData sig ex = Done (ad_sign_count ad)))"
proof -
  obtain bs ad where cer: "ceremony_ok lib cd0 ''webauthn.create'' ex0"
    and ad: "readAuthenticatorData bs = Done ad"
    and rest: "(case (ad_credential_id ad, ad_public_key ad) of
       (Some cid, Some pk) \<Rightarrow> obind (publicKeyFrom lib pk) (\<lambda>_.
         Done \<lparr>cr_id = cid, cr_public_key = pk, cr_sign_count = ad_sign_count ad,
               cr_user_verified = ad_user_verified ad,
               cr_aaguid = (case ad_aaguid ad of None \<Rightarrow> [] | Some a \<Rightarrow> a)\<rparr>)
     | _ \<Rightarrow> Fail (Errorf ''the key sent no credential to keep'' [])) = Done cred"
    using assms unfolding Register_def obind_Done_iff guard_Done checkClientData_None by blast
  from rest obtain cid pk where some: "ad_credential_id ad = Some cid" "ad_public_key ad = Some pk"
    by (auto split: option.splits)
  with rest obtain key where key: "publicKeyFrom lib pk = Done key"
    and cred: "cr_id cred = cid" "cr_public_key cred = pk"
      "cr_aaguid cred = (case ad_aaguid ad of None \<Rightarrow> [] | Some a \<Rightarrow> a)"
    by auto
  from ad some obtain parsed where "attested_data parsed (drop 37 bs) = Done ad"
    by (auto simp: readAuthenticatorData_def Let_def split: if_splits)
  from attested_key [OF this] some cred
  have ids: "1 \<le> length (cr_id cred)" "length (cr_id cred) \<le> 1023" "length (cr_aaguid cred) = 16" by auto
  have "Verify lib cred cd authData sig ex = Done (ad_sign_count ad)"
    if "ceremony_ok lib cd ''webauthn.get'' ex" "readAuthenticatorData authData = Done ad"
      "checkAuthenticator lib ad ex = None" "signature_ok lib key (sha256 lib (authData @ sha256 lib cd)) sig"
      "counts_up (cr_sign_count cred) (ad_sign_count ad)" for cd authData ad sig ex
    using that key cred(2) by (auto simp: Verify_def guard_def counts_up_def checkClientData_None [symmetric])
  then show ?thesis using cer ids key cred(2) by blast
qed

section \<open>The site\<close>

text \<open>
  The tables \<open>webauthn_credentials\<close> (id, owner, key, counter) and \<open>webauthn_challenges\<close>, and the
  handler \<open>PasskeySignIn\<close> from the point where it has the account and the decoded answer: it reads
  the credential, consumes the challenge, verifies and stores the counter. Labels and
  timestamps are left out; \<open>now\<close> is the database clock.
\<close>

record credential_row =
  wc_user :: string
  wc_credential :: Credential

record challenge_row =
  ch_challenge :: "byte list"
  ch_user :: string
  ch_purpose :: string
  ch_expires :: int

record site =
  s_credentials :: "credential_row list"
  s_challenges :: "challenge_row list"

definition WebAuthnChallengeTTL :: int where
  "WebAuthnChallengeTTL = 300"

definition NewWebAuthnChallenge ::
  "int \<Rightarrow> byte list \<Rightarrow> string \<Rightarrow> string \<Rightarrow> site \<Rightarrow> (go_error, site) outcome" where
  "NewWebAuthnChallenge now random user purpose s =
     (if purpose \<noteq> ''register'' \<and> purpose \<noteq> ''sign-in'' then
        Fail (Errorf ''a challenge is for registering a key or for signing in, not %q'' [purpose])
      else
        (let kept = filter (\<lambda>c. \<not> ch_expires c < now) (s_challenges s)
         in if random \<in> ch_challenge ` set kept then Fail (Errorf ''duplicate key'' [])
            else Done (s\<lparr>s_challenges := kept @ [\<lparr>ch_challenge = random, ch_user = user, ch_purpose = purpose,
                   ch_expires = now + WebAuthnChallengeTTL\<rparr>]\<rparr>)))"

definition ConsumeWebAuthnChallenge ::
  "int \<Rightarrow> byte list \<Rightarrow> string \<Rightarrow> string \<Rightarrow> site \<Rightarrow> site \<times> go_error option" where
  "ConsumeWebAuthnChallenge now challenge user purpose s =
     (let gone = (\<lambda>c. ch_challenge c = challenge \<and> ch_user c = user \<and> ch_purpose c = purpose \<and> ch_expires c > now)
      in if \<exists>c \<in> set (s_challenges s). gone c
         then (s\<lparr>s_challenges := filter (\<lambda>c. \<not> gone c) (s_challenges s)\<rparr>, None)
         else (s, Some (Errorf ''that is not a challenge this site issued, or it has expired'' [])))"

definition WebAuthnCredentialByID :: "byte list \<Rightarrow> site \<Rightarrow> credential_row option" where
  "WebAuthnCredentialByID i s = find (\<lambda>r. cr_id (wc_credential r) = i) (s_credentials s)"

definition WebAuthnCredentialUsed :: "byte list \<Rightarrow> nat \<Rightarrow> site \<Rightarrow> site" where
  "WebAuthnCredentialUsed i n s =
     s\<lparr>s_credentials := map (\<lambda>r. if cr_id (wc_credential r) = i
        then r\<lparr>wc_credential := (wc_credential r)\<lparr>cr_sign_count := n\<rparr>\<rparr> else r) (s_credentials s)\<rparr>"

definition passkeyChallengeOf :: "('ec, 'z) crypto_scheme \<Rightarrow> byte list \<Rightarrow> (go_error, byte list) outcome" where
  "passkeyChallengeOf lib raw =
     (case client_challenge lib raw of
        None \<Rightarrow> Fail (Errorf ''the browser's account of the ceremony cannot be read'' [])
      | Some text \<Rightarrow>
         (case base64url lib text of
            None \<Rightarrow> Fail (Errorf ''that answer names no challenge'' [])
          | Some challenge \<Rightarrow>
              if challenge = [] then Fail (Errorf ''that answer names no challenge'' []) else Done challenge))"

record sign_in =
  si_user :: string
  si_credential :: "byte list"
  si_client_data :: "byte list"
  si_auth_data :: "byte list"
  si_signature :: "byte list"

definition PasskeySignIn ::
  "('ec, 'z) crypto_scheme \<Rightarrow> string \<Rightarrow> byte list \<Rightarrow> int \<Rightarrow> sign_in \<Rightarrow> site \<Rightarrow> site \<times> (go_error, nat) outcome" where
  "PasskeySignIn lib origin rpid now q s =
     (case WebAuthnCredentialByID (si_credential q) s of
        None \<Rightarrow> (s, Fail (Errorf ''that key is not on this account'' []))
      | Some row \<Rightarrow>
         (if wc_user row \<noteq> si_user q then (s, Fail (Errorf ''that key is not on this account'' []))
          else case passkeyChallengeOf lib (si_client_data q) of
            Crash \<Rightarrow> (s, Crash)
          | Fail e \<Rightarrow> (s, Fail e)
          | Done challenge \<Rightarrow>
             (case ConsumeWebAuthnChallenge now challenge (si_user q) ''sign-in'' s of
                (s', Some e) \<Rightarrow> (s', Fail e)
              | (s', None) \<Rightarrow>
                 (case Verify lib (wc_credential row) (si_client_data q) (si_auth_data q) (si_signature q)
                     \<lparr>ex_challenge = challenge, ex_origin = origin, ex_rpid = rpid, ex_require_verification = False\<rparr> of
                    Done n \<Rightarrow> (WebAuthnCredentialUsed (si_credential q) n s', Done n)
                  | Fail e \<Rightarrow> (s', Fail e)
                  | Crash \<Rightarrow> (s', Crash)))))"

text \<open>What may happen between two sign-ins: challenges are issued and sign-ins answered.\<close>

inductive site_step ::
  "('ec, 'z) crypto_scheme \<Rightarrow> string \<Rightarrow> byte list \<Rightarrow> byte list option \<Rightarrow> site \<Rightarrow> site \<Rightarrow> bool"
  for lib origin rpid where
  issues: "NewWebAuthnChallenge now random user purpose s = Done s' \<Longrightarrow>
    site_step lib origin rpid (Some random) s s'"
| answers: "PasskeySignIn lib origin rpid now q s = (s', r) \<Longrightarrow> site_step lib origin rpid None s s'"

text \<open>A run of steps none of which issues the challenge \<open>c\<close>.\<close>

inductive site_run ::
  "('ec, 'z) crypto_scheme \<Rightarrow> string \<Rightarrow> byte list \<Rightarrow> byte list \<Rightarrow> site \<Rightarrow> site \<Rightarrow> bool"
  for lib origin rpid c where
  run_refl: "site_run lib origin rpid c s s"
| run_step: "site_run lib origin rpid c s s' \<Longrightarrow> site_step lib origin rpid issued s' s'' \<Longrightarrow>
    issued \<noteq> Some c \<Longrightarrow> site_run lib origin rpid c s s''"

definition challenges_of :: "site \<Rightarrow> byte list set" where
  "challenges_of s = ch_challenge ` set (s_challenges s)"

definition counter_of :: "byte list \<Rightarrow> site \<Rightarrow> nat option" where
  "counter_of i s = map_option (\<lambda>r. cr_sign_count (wc_credential r)) (WebAuthnCredentialByID i s)"

lemma used_challenges [simp]: "s_challenges (WebAuthnCredentialUsed i n s) = s_challenges s"
  by (simp add: WebAuthnCredentialUsed_def)

lemma consume_cases:
  "ConsumeWebAuthnChallenge now c u p s = (s', e) \<Longrightarrow>
     s_credentials s' = s_credentials s \<and> challenges_of s' \<subseteq> challenges_of s \<and>
     (e = None \<longrightarrow> c \<in> challenges_of s \<and> (\<exists>r \<in> set (s_challenges s). ch_challenge r = c \<and> ch_user r = u \<and> ch_purpose r = p \<and> now < ch_expires r))"
  by (auto simp: ConsumeWebAuthnChallenge_def challenges_of_def Let_def split: if_splits)

lemma find_map_id:
  "find P (map f xs) = map_option f (find P xs)" if "\<And>x. P (f x) = P x"
  using that by (induction xs) auto

lemma ByID_used:
  "WebAuthnCredentialByID j (WebAuthnCredentialUsed i n s) =
     map_option (\<lambda>r. if cr_id (wc_credential r) = i then r\<lparr>wc_credential := (wc_credential r)\<lparr>cr_sign_count := n\<rparr>\<rparr> else r)
       (WebAuthnCredentialByID j s)"
  unfolding WebAuthnCredentialByID_def WebAuthnCredentialUsed_def by (simp add: find_map_id)

lemma ByID_id: "WebAuthnCredentialByID i s = Some r \<Longrightarrow> cr_id (wc_credential r) = i"
  by (auto simp: WebAuthnCredentialByID_def find_Some_iff)

definition site_ok :: "site \<Rightarrow> bool" where
  "site_ok s \<longleftrightarrow> distinct (map ch_challenge (s_challenges s))"

definition counters_grow :: "site \<Rightarrow> site \<Rightarrow> bool" where
  "counters_grow s s' \<longleftrightarrow> (\<forall>i a. counter_of i s = Some a \<longrightarrow> (\<exists>b. counter_of i s' = Some b \<and> a \<le> b))"

lemma counters_grow_refl [simp]: "counters_grow s s"
  by (simp add: counters_grow_def)

lemma counters_grow_trans: "counters_grow s s' \<Longrightarrow> counters_grow s' s'' \<Longrightarrow> counters_grow s s''"
  unfolding counters_grow_def by (meson order_trans)

lemma counters_same: "s_credentials s' = s_credentials s \<Longrightarrow> counters_grow s s'"
  by (auto simp: counters_grow_def counter_of_def WebAuthnCredentialByID_def)

lemma consume_ok: "ConsumeWebAuthnChallenge now c u p s = (s', e) \<Longrightarrow> site_ok s \<Longrightarrow> site_ok s'"
  by (auto simp: ConsumeWebAuthnChallenge_def site_ok_def Let_def distinct_map_filter split: if_splits)

lemma consume_forgets:
  assumes "ConsumeWebAuthnChallenge now c u p s = (s', None)" "site_ok s"
  shows "c \<notin> challenges_of s'"
proof
  assume "c \<in> challenges_of s'"
  then obtain r where r: "r \<in> set (s_challenges s')" "ch_challenge r = c" by (auto simp: challenges_of_def)
  from assms(1) obtain r0 where r0: "r0 \<in> set (s_challenges s)" "ch_challenge r0 = c" "ch_user r0 = u"
    "ch_purpose r0 = p" "ch_expires r0 > now"
    and s': "s' = s\<lparr>s_challenges := filter (\<lambda>x. \<not> (ch_challenge x = c \<and> ch_user x = u \<and> ch_purpose x = p \<and> ch_expires x > now)) (s_challenges s)\<rparr>"
    by (auto simp: ConsumeWebAuthnChallenge_def Let_def split: if_splits)
  from r s' have "r \<in> set (s_challenges s)" by simp
  with r0 r(2) assms(2) have "r = r0" unfolding site_ok_def distinct_map inj_on_def by metis
  with r r0 s' show False by simp
qed

lemma used_grows:
  assumes "WebAuthnCredentialByID i s = Some row" "cr_sign_count (wc_credential row) \<le> n"
  shows "counters_grow s (WebAuthnCredentialUsed i n s)" "counter_of i (WebAuthnCredentialUsed i n s) = Some n"
proof -
  show "counter_of i (WebAuthnCredentialUsed i n s) = Some n"
    using assms ByID_id [OF assms(1)] by (simp add: counter_of_def ByID_used)
  show "counters_grow s (WebAuthnCredentialUsed i n s)"
    unfolding counters_grow_def
  proof (intro allI impI)
    fix j a assume "counter_of j s = Some a"
    then obtain r where r: "WebAuthnCredentialByID j s = Some r" "cr_sign_count (wc_credential r) = a"
      by (auto simp: counter_of_def)
    from ByID_id [OF r(1)] have "cr_id (wc_credential r) = j" .
    with r assms show "\<exists>b. counter_of j (WebAuthnCredentialUsed i n s) = Some b \<and> a \<le> b"
      by (cases "j = i") (auto simp: counter_of_def ByID_used)
  qed
qed

lemma counts_up_le: "counts_up a b \<Longrightarrow> a \<le> b"
  by (auto simp: counts_up_def)

lemma sign_in_consumes:
  assumes "PasskeySignIn lib origin rpid now q s = (s', r)"
  shows "s' = s \<and> (\<forall>n. r \<noteq> Done n) \<or>
    (\<exists>row c s1 e. WebAuthnCredentialByID (si_credential q) s = Some row \<and> wc_user row = si_user q \<and>
       passkeyChallengeOf lib (si_client_data q) = Done c \<and>
       ConsumeWebAuthnChallenge now c (si_user q) ''sign-in'' s = (s1, e) \<and>
       (s' = s1 \<and> (\<forall>n. r \<noteq> Done n) \<or>
        (\<exists>n. r = Done n \<and> e = None \<and> counts_up (cr_sign_count (wc_credential row)) n \<and>
             s' = WebAuthnCredentialUsed (si_credential q) n s1)))"
proof (cases "WebAuthnCredentialByID (si_credential q) s")
  case (Some row)
  show ?thesis
  proof (cases "wc_user row = si_user q \<and> (\<exists>c. passkeyChallengeOf lib (si_client_data q) = Done c)")
    case True
    then obtain c where c: "wc_user row = si_user q" "passkeyChallengeOf lib (si_client_data q) = Done c" by blast
    obtain s1 e where con: "ConsumeWebAuthnChallenge now c (si_user q) ''sign-in'' s = (s1, e)" by fastforce
    define v where "v = Verify lib (wc_credential row) (si_client_data q) (si_auth_data q) (si_signature q)
      \<lparr>ex_challenge = c, ex_origin = origin, ex_rpid = rpid, ex_require_verification = False\<rparr>"
    have eq: "PasskeySignIn lib origin rpid now q s = (case e of Some x \<Rightarrow> (s1, Fail x) | None \<Rightarrow>
        (case v of Done n \<Rightarrow> (WebAuthnCredentialUsed (si_credential q) n s1, Done n)
          | Fail x \<Rightarrow> (s1, Fail x) | Crash \<Rightarrow> (s1, Crash)))"
      using Some c con by (simp add: PasskeySignIn_def v_def split: option.split)
    have "s' = s1 \<and> (\<forall>n. r \<noteq> Done n) \<or>
        (\<exists>n. r = Done n \<and> e = None \<and> v = Done n \<and> s' = WebAuthnCredentialUsed (si_credential q) n s1)"
      using assms unfolding eq by (auto split: option.splits outcome.splits)
    then show ?thesis
    proof
      assume "s' = s1 \<and> (\<forall>n. r \<noteq> Done n)"
      with Some c con show ?thesis by blast
    next
      assume "\<exists>n. r = Done n \<and> e = None \<and> v = Done n \<and> s' = WebAuthnCredentialUsed (si_credential q) n s1"
      then obtain n where n: "r = Done n" "e = None" "v = Done n" "s' = WebAuthnCredentialUsed (si_credential q) n s1"
        by blast
      from Verify_Done n(3) have "counts_up (cr_sign_count (wc_credential row)) n" unfolding v_def by blast
      with Some c con n show ?thesis by blast
    qed
  next
    case False
    with assms Some show ?thesis
      by (cases "passkeyChallengeOf lib (si_client_data q)") (auto simp: PasskeySignIn_def split: if_splits)
  qed
qed (use assms in \<open>auto simp: PasskeySignIn_def\<close>)

lemma sign_in_effect:
  assumes "PasskeySignIn lib origin rpid now q s = (s', r)"
  shows "challenges_of s' \<subseteq> challenges_of s \<and> counters_grow s s' \<and> (site_ok s \<longrightarrow> site_ok s')"
    and "r = Done n \<Longrightarrow> \<exists>c. passkeyChallengeOf lib (si_client_data q) = Done c \<and> c \<in> challenges_of s \<and>
      counter_of (si_credential q) s' = Some n \<and> (site_ok s \<longrightarrow> c \<notin> challenges_of s')"
proof -
  have used: "site_ok (WebAuthnCredentialUsed i n x) = site_ok x"
    "challenges_of (WebAuthnCredentialUsed i n x) = challenges_of x" for i n x
    by (simp_all add: site_ok_def challenges_of_def)
  show "challenges_of s' \<subseteq> challenges_of s \<and> counters_grow s s' \<and> (site_ok s \<longrightarrow> site_ok s')"
    using sign_in_consumes [OF assms]
  proof (elim disjE conjE exE)
    fix row c s1 e m
    assume row: "WebAuthnCredentialByID (si_credential q) s = Some row"
      and con: "ConsumeWebAuthnChallenge now c (si_user q) ''sign-in'' s = (s1, e)"
      and up: "counts_up (cr_sign_count (wc_credential row)) m"
      and s': "s' = WebAuthnCredentialUsed (si_credential q) m s1"
    from consume_cases [OF con] row have "WebAuthnCredentialByID (si_credential q) s1 = Some row"
      by (simp add: WebAuthnCredentialByID_def)
    from used_grows(1) [OF this counts_up_le [OF up]] have "counters_grow s1 s'" by (simp add: s')
    with counters_same consume_cases [OF con] have "counters_grow s s'" using counters_grow_trans by blast
    with consume_cases [OF con] consume_ok [OF con] show ?thesis by (simp add: s' used)
  qed (use consume_cases consume_ok counters_same in \<open>fastforce+\<close>)
  show "\<exists>c. passkeyChallengeOf lib (si_client_data q) = Done c \<and> c \<in> challenges_of s \<and>
      counter_of (si_credential q) s' = Some n \<and> (site_ok s \<longrightarrow> c \<notin> challenges_of s')" if r: "r = Done n"
  proof -
    from sign_in_consumes [OF assms] r obtain row c s1 where
        row: "WebAuthnCredentialByID (si_credential q) s = Some row"
      and c: "passkeyChallengeOf lib (si_client_data q) = Done c"
      and con: "ConsumeWebAuthnChallenge now c (si_user q) ''sign-in'' s = (s1, None)"
      and up: "counts_up (cr_sign_count (wc_credential row)) n"
      and s': "s' = WebAuthnCredentialUsed (si_credential q) n s1"
      by auto
    from consume_cases [OF con] row have "WebAuthnCredentialByID (si_credential q) s1 = Some row"
      by (simp add: WebAuthnCredentialByID_def)
    from used_grows(2) [OF this counts_up_le [OF up]] have "counter_of (si_credential q) s' = Some n" by (simp add: s')
    with c consume_cases [OF con] consume_forgets [OF con] show ?thesis by (auto simp: s' used)
  qed
qed

lemma issue_effect:
  assumes "NewWebAuthnChallenge now random user purpose s = Done s'"
  shows "challenges_of s' \<subseteq> insert random (challenges_of s) \<and> counters_grow s s' \<and> (site_ok s \<longrightarrow> site_ok s')"
  using assms
  by (auto simp: NewWebAuthnChallenge_def Let_def challenges_of_def site_ok_def distinct_map_filter
      intro!: counters_same split: if_splits)

lemma site_run_effect:
  "site_run lib origin rpid c s s' \<Longrightarrow> site_ok s \<Longrightarrow> c \<notin> challenges_of s \<Longrightarrow>
     site_ok s' \<and> c \<notin> challenges_of s' \<and> counters_grow s s'"
proof (induction rule: site_run.induct)
  case (run_step s s' issued s'')
  from run_step have ih: "site_ok s'" "c \<notin> challenges_of s'" "counters_grow s s'" by blast+
  from run_step.hyps(2) have "site_ok s'' \<and> c \<notin> challenges_of s'' \<and> counters_grow s' s''"
  proof (cases rule: site_step.cases)
    case issues
    with issue_effect ih run_step.hyps(3) show ?thesis by fastforce
  next
    case answers
    with sign_in_effect(1) ih show ?thesis by blast
  qed
  with ih counters_grow_trans show ?case by blast
qed simp


text \<open>
  The handler reads the counter before it verifies and writes it afterwards, without a lock or a
  condition in the update. When two answers of one key are verified against the same row, the later
  write wins: the stored counter ends below one that was already accepted.
\<close>

lemma late_write_lowers_counter:
  assumes "WebAuthnCredentialByID i s = Some row"
    "Verify lib (wc_credential row) cd1 ad1 sig1 ex1 = Done a"
    "Verify lib (wc_credential row) cd2 ad2 sig2 ex2 = Done b" "a < b"
  shows "counter_of i (WebAuthnCredentialUsed i b s) = Some b \<and>
    counter_of i (WebAuthnCredentialUsed i a (WebAuthnCredentialUsed i b s)) = Some a"
  using assms(1) ByID_id [OF assms(1)] by (simp add: counter_of_def ByID_used)

section \<open>A worked ceremony\<close>

definition demo_key :: "byte list" where
  "demo_key = [0xA4, 0x03, 0x26, 0x20, 0x01, 0x21, 0x58, 0x20] @ replicate 32 1 @ [0x22, 0x58, 0x20] @ replicate 32 2"
definition demo_auth_data :: "byte \<Rightarrow> byte \<Rightarrow> byte list" where
  "demo_auth_data flags count = replicate 32 0 @ [flags, 0, 0, 0, count]"
definition demo_attestation :: "byte list" where
  "demo_attestation = [0xA1, 0x68, 0x61, 0x75, 0x74, 0x68, 0x44, 0x61, 0x74, 0x61, 0x58, 0x83] @
     demo_auth_data 0x41 5 @ replicate 16 3 @ [0, 1, 0xAB] @ demo_key"
definition demo_crypto :: "unit crypto" where
  "demo_crypto = \<lparr>sha256 = (\<lambda>_. replicate 32 0), base64url = (\<lambda>s. Some (map (\<lambda>c. of_char c) s)),
     client_data = (\<lambda>raw. Some \<lparr>cd_type = (if raw = [1] then ''webauthn.create'' else ''webauthn.get''),
        cd_challenge = ''c'', cd_origin = ''o'', cd_cross_origin = False\<rparr>),
     client_challenge = (\<lambda>_. Some ''c''), p256_point = (\<lambda>_. Some ()), ecdsa_verify = (\<lambda>_ _ sig. sig = [9]),
     rsa_verify = (\<lambda>_ _ _ _. False), marshal_pkix = (\<lambda>_. None)\<rparr>"
definition demo_expect :: Expectation where
  "demo_expect = \<lparr>ex_challenge = [0x63], ex_origin = ''o'', ex_rpid = [], ex_require_verification = False\<rparr>"
definition demo_cred :: Credential where
  "demo_cred = \<lparr>cr_id = [0xAB], cr_public_key = demo_key, cr_sign_count = 5, cr_user_verified = False, cr_aaguid = replicate 16 3\<rparr>"

lemma head_short: "a < 24 \<Longrightarrow> unat b = 32 * m + a \<Longrightarrow> item_head m a [b]"
  by (auto simp: item_head_def)

lemma head_byte: "unat b = 32 * m + 24 \<Longrightarrow> a = unat c \<Longrightarrow> item_head m a [b, c]"
  by (auto simp: item_head_def big_endian_def)

definition demo_cose :: cborValue where
  "demo_cose = CborMap [(CborUnsigned 3, CborNegative (-7)), (CborNegative (-1), CborUnsigned 1),
     (CborNegative (-2), CborBytes (replicate 32 1)), (CborNegative (-3), CborBytes (replicate 32 2))]"

lemma enc_small: "n < 24 \<Longrightarrow> unat b = n \<Longrightarrow> cbor_enc (CborUnsigned (int n)) [b]"
  by (rule enc_unsigned [OF head_short]) (simp_all add: maxInt64_def)

lemma enc_small_negative: "n < 24 \<Longrightarrow> unat b = 32 + n \<Longrightarrow> cbor_enc (CborNegative (- 1 - int n)) [b]"
  by (rule enc_negative [OF head_short]) (simp_all add: maxInt64_def)

lemma enc_bytes_byte: "unat c = length bs \<Longrightarrow> cbor_enc (CborBytes bs) ([0x58, c] @ bs)"
  by (rule enc_bytes [OF head_byte]) simp_all

lemma demo_key_enc: "cbor_enc demo_cose demo_key"
proof -
  have "cbor_pairs [(CborNegative (- 1 - int 1), CborBytes (replicate 32 1)), (CborNegative (- 1 - int 2), CborBytes (replicate 32 2))]
     ([0x21] @ ([0x58, 0x20] @ replicate 32 1) @ [0x22] @ ([0x58, 0x20] @ replicate 32 2) @ [])"
    by (intro pairs_cons pairs_nil enc_small_negative enc_bytes_byte) simp_all
  note half = this
  have "cbor_pairs [(CborUnsigned (int 3), CborNegative (- 1 - int 6)), (CborNegative (- 1 - int 0), CborUnsigned (int 1)),
      (CborNegative (- 1 - int 1), CborBytes (replicate 32 1)), (CborNegative (- 1 - int 2), CborBytes (replicate 32 2))]
     ([0x03] @ [0x26] @ [0x20] @ [0x01] @ [0x21] @ ([0x58, 0x20] @ replicate 32 1) @ [0x22] @ ([0x58, 0x20] @ replicate 32 2) @ [])"
    by (rule pairs_cons [OF enc_small enc_small_negative pairs_cons [OF enc_small_negative enc_small half]]) simp_all
  from enc_map [OF _ _ this, of "[0xA4]"] show ?thesis
    by (simp add: demo_cose_def demo_key_def head_short cborMaxItems_def)
qed

lemma demo_key_decodes: "decodeCBOR demo_key = Done (demo_cose, [])"
  using decode_complete(1) [OF demo_key_enc, of "Suc (length demo_key)" "[]"] by (simp add: decodeCBOR_def)

lemma demo_key_public: "publicKeyFrom demo_crypto demo_key = Done (ECDSA ())"
  by (simp add: publicKeyFrom_def demo_key_decodes is_map_def demo_cose_def cbor_label_def entries_of_def
      number_of_def algorithmES256_def es256_key_def bytes_of_def demo_crypto_def)

lemma demo_attestation_decodes:
  "decodeCBOR demo_attestation = Done (CborMap [(CborText ''authData'',
      CborBytes (demo_auth_data 0x41 5 @ replicate 16 3 @ [0, 1, 0xAB] @ demo_key))], [])"
proof -
  let ?data = "demo_auth_data 0x41 5 @ replicate 16 3 @ [0, 1, 0xAB] @ demo_key"
  have "length ?data = 131" by (simp add: demo_auth_data_def demo_key_def)
  then have d: "cbor_enc (CborBytes ?data) ([0x58, 0x83] @ ?data)" by (intro enc_bytes_byte) simp
  have t: "text_of [0x61, 0x75, 0x74, 0x68, 0x44, 0x61, 0x74, 0x61] = ''authData''" by code_simp
  have "cbor_enc (CborText (text_of [0x61, 0x75, 0x74, 0x68, 0x44, 0x61, 0x74, 0x61]))
      ([0x68] @ [0x61, 0x75, 0x74, 0x68, 0x44, 0x61, 0x74, 0x61])"
    by (intro enc_text head_short) simp_all
  from enc_map [OF _ _ pairs_cons [OF this d pairs_nil], of "[0xA1]"]
  have "cbor_enc (CborMap [(CborText ''authData'', CborBytes ?data)]) demo_attestation"
    unfolding t by (simp add: demo_attestation_def head_short cborMaxItems_def)
  from decode_complete(1) [OF this, of "Suc (length demo_attestation)" "[]"] show ?thesis by (simp add: decodeCBOR_def)
qed

lemma demo_auth_length: "length (demo_auth_data f k) = 37"
  by (simp add: demo_auth_data_def)

lemma demo_auth_parts:
  "demo_auth_data f k ! 32 = f" "take 32 (demo_auth_data f k) = replicate 32 0" "drop 33 (demo_auth_data f k) = [0, 0, 0, k]"
  by (simp_all add: demo_auth_data_def nth_append)

lemma demo_hash: "sha256 demo_crypto x = replicate 32 0" "ex_require_verification demo_expect = False"
  by (simp_all add: demo_crypto_def demo_expect_def)

lemma demo_registers: "Register demo_crypto [1] demo_attestation demo_expect = Done demo_cred"
proof -
  let ?data = "demo_auth_data 0x41 5 @ replicate 16 3 @ [0, 1, 0xAB] @ demo_key"
  have "attested_data parsed (replicate 16 3 @ [0, 1, 0xAB] @ demo_key) =
     Done (parsed\<lparr>ad_aaguid := Some (replicate 16 3), ad_credential_id := Some [0xAB], ad_public_key := Some demo_key\<rparr>)" for parsed
    by (simp add: attested_data_def Let_def big_endian_def demo_key_decodes is_map_def demo_cose_def)
  then have ad: "readAuthenticatorData ?data = Done \<lparr>ad_rpid_hash = replicate 32 0, ad_user_present = True,
     ad_user_verified = False, ad_sign_count = 5, ad_aaguid = Some (replicate 16 3),
     ad_credential_id = Some [0xAB], ad_public_key = Some demo_key\<rparr>"
    by (simp add: readAuthenticatorData_def Let_def demo_auth_length demo_auth_parts nth_append big_endian_def
        flagUserPresent_def flagUserVerified_def flagAttestedData_def)
  have auth: "attestation_auth_data demo_attestation = Done ?data"
    by (simp add: attestation_auth_data_def demo_attestation_decodes is_map_def cbor_value_def entries_of_def bytes_of_def)
  have "checkClientData demo_crypto [1] ''webauthn.create'' demo_expect = None"
    by (simp add: checkClientData_def demo_crypto_def demo_expect_def)
  then show ?thesis
    by (simp add: Register_def guard_def auth ad [simplified] demo_key_public checkAuthenticator_def demo_cred_def
        demo_hash del: obind_Done_iff)
qed

lemma demo_reads: "readAuthenticatorData (demo_auth_data 1 6) = Done \<lparr>ad_rpid_hash = replicate 32 0,
     ad_user_present = True, ad_user_verified = False, ad_sign_count = 6, ad_aaguid = None,
     ad_credential_id = None, ad_public_key = None\<rparr>"
  by (simp add: readAuthenticatorData_def Let_def demo_auth_length demo_auth_parts big_endian_def
        flagUserPresent_def flagUserVerified_def flagAttestedData_def)

lemma demo_ceremony: "ceremony_ok demo_crypto [2] ''webauthn.get'' demo_expect"
  by (simp add: ceremony_ok_def demo_crypto_def demo_expect_def)

lemma demo_signed: "signature_ok demo_crypto (ECDSA ()) d [9]"
  by (simp add: signature_ok_def demo_crypto_def)

lemma demo_checked: "checkAuthenticator demo_crypto \<lparr>ad_rpid_hash = replicate 32 0,
     ad_user_present = True, ad_user_verified = False, ad_sign_count = 6, ad_aaguid = None,
     ad_credential_id = None, ad_public_key = None\<rparr> demo_expect = None"
  by (simp add: checkAuthenticator_def demo_crypto_def demo_expect_def)

lemma demo_verifies: "Verify demo_crypto demo_cred [2] (demo_auth_data 1 6) [9] demo_expect = Done 6"
proof -
  from demo_ceremony have "checkClientData demo_crypto [2] ''webauthn.get'' demo_expect = None"
    by (simp only: checkClientData_None)
  with demo_reads demo_checked demo_signed show ?thesis
    by (simp add: Verify_def guard_def demo_cred_def demo_key_public counts_up_def Let_def)
qed

lemma registered_key_signs_in_witness:
  "Register demo_crypto [1] demo_attestation demo_expect = Done demo_cred \<and>
   Verify demo_crypto demo_cred [2] (demo_auth_data 1 6) [9] demo_expect = Done 6"
proof -
  from registered_key_signs_in [OF demo_registers] obtain key where
    key: "publicKeyFrom demo_crypto (cr_public_key demo_cred) = Done key"
    and ok: "\<And>cd authData ad sig ex. ceremony_ok demo_crypto cd ''webauthn.get'' ex \<Longrightarrow>
          readAuthenticatorData authData = Done ad \<Longrightarrow> checkAuthenticator demo_crypto ad ex = None \<Longrightarrow>
          signature_ok demo_crypto key (sha256 demo_crypto (authData @ sha256 demo_crypto cd)) sig \<Longrightarrow>
          counts_up (cr_sign_count demo_cred) (ad_sign_count ad) \<Longrightarrow>
          Verify demo_crypto demo_cred cd authData sig ex = Done (ad_sign_count ad)" by blast
  from key have "key = ECDSA ()" by (simp add: demo_cred_def demo_key_public)
  with ok [OF demo_ceremony demo_reads demo_checked] demo_signed demo_registers show ?thesis
    by (simp add: demo_cred_def counts_up_def)
qed

definition demo_site :: site where
  "demo_site = \<lparr>s_credentials = [\<lparr>wc_user = ''amy'', wc_credential = demo_cred\<rparr>],
     s_challenges = [\<lparr>ch_challenge = [0x63], ch_user = ''amy'', ch_purpose = ''sign-in'', ch_expires = 300\<rparr>]\<rparr>"

definition demo_sign_in :: sign_in where
  "demo_sign_in = \<lparr>si_user = ''amy'', si_credential = [0xAB], si_client_data = [2],
     si_auth_data = demo_auth_data 1 6, si_signature = [9]\<rparr>"

lemma demo_challenge: "passkeyChallengeOf demo_crypto (si_client_data demo_sign_in) = Done [0x63]"
  by (simp add: passkeyChallengeOf_def demo_crypto_def)

end
