(* ===== verification/QrField.thy ===== *)
theory QrField
  imports GoPrelude
begin

unbundle bit_operations_syntax

text \<open>
  \<open>internal/qr/reed_solomon.go\<close>: the tables of GF(256), multiplication through logarithms, the generator
  polynomial and the remainder. The tables are proved to describe a field multiplication (the interface
  \<open>gf_mult\<close>), and the remainder to make every block a codeword: all its syndromes are zero.
\<close>

section \<open>The code\<close>

type_synonym byte = "8 word"

text \<open>One turn of the loop of \<open>init\<close>; \<open>value\<close> is a Go \<open>int\<close> that stays below 256.\<close>

definition next_value :: "nat \<Rightarrow> nat" where
  "next_value v = (let w = 2 * v in if w AND 0x100 \<noteq> 0 then w XOR 0x11d else w)"

definition gf_value :: "nat \<Rightarrow> nat" where
  "gf_value i = (next_value ^^ i) 1"

definition gfExp :: "byte list" where
  "gfExp = fold (\<lambda>i t. t @ [t ! (i - 255)]) [255..<512] (map (\<lambda>i. word_of_nat (gf_value i)) [0..<255])"

definition gfLog :: "byte list" where
  "gfLog = fold (\<lambda>i t. t[gf_value i := word_of_nat i]) [0..<255] (replicate 256 0)"

definition gfMultiply :: "byte \<Rightarrow> byte \<Rightarrow> byte" where
  "gfMultiply a b =
     (if a = 0 \<or> b = 0 then 0 else gfExp ! (unat (gfLog ! unat a) + unat (gfLog ! unat b)))"

definition xor_at :: "nat \<Rightarrow> byte \<Rightarrow> byte list \<Rightarrow> byte list" where
  "xor_at k b xs = xs[k := xs ! k XOR b]"

definition generator_step :: "nat \<Rightarrow> byte list \<Rightarrow> byte list" where
  "generator_step i poly =
     fold (\<lambda>(j, c) nxt. xor_at (j + 1) (gfMultiply c (gfExp ! i)) (xor_at j c nxt))
       (List.enumerate 0 poly) (replicate (length poly + 1) 0)"

definition generator :: "nat \<Rightarrow> byte list" where
  "generator count = fold generator_step [0..<count] [1]"

definition reduce_at :: "byte list \<Rightarrow> nat \<Rightarrow> byte list \<Rightarrow> byte list" where
  "reduce_at poly i remainder =
     (let lead = remainder ! i
      in if lead = 0 then remainder
         else fold (\<lambda>(j, c). xor_at (i + j) (gfMultiply c lead)) (List.enumerate 0 poly) remainder)"

definition reedSolomon :: "byte list \<Rightarrow> nat \<Rightarrow> byte list" where
  "reedSolomon data count =
     drop (length data) (fold (reduce_at (generator count)) [0..<length data] (data @ replicate count 0))"

section \<open>Doubling\<close>

text \<open>Multiplication by \<open>x\<close> on bytes.\<close>

definition xtime :: "byte \<Rightarrow> byte" where
  "xtime b = (if bit b 7 then push_bit 1 b XOR 0x1d else push_bit 1 b)"

lemma xtime_xor: "xtime (a XOR b) = xtime a XOR xtime b"
  by (auto simp: xtime_def bit_xor_iff push_bit_xor ac_simps)

lemma xtime_0 [simp]: "xtime 0 = 0"
  by (simp add: xtime_def)

lemma and_256: "w AND 0x100 \<noteq> 0 \<longleftrightarrow> bit (w :: nat) 8"
  using and_exp_eq_0_iff_not_bit [of w 8] by simp

lemma bit_double: "bit (2 * v :: nat) (Suc n) \<longleftrightarrow> bit v n"
  by (simp add: bit_Suc)

lemma high_bits_nat: "v < 2 ^ k \<Longrightarrow> k \<le> n \<Longrightarrow> \<not> bit (v :: nat) n"
proof -
  assume "v < 2 ^ k" "k \<le> n"
  then have "v < 2 ^ n" by (meson order_less_le_trans power_increasing one_le_numeral)
  then show ?thesis by (simp add: bit_iff_odd)
qed

lemma next_value_word: "word_of_nat (next_value v) = xtime (word_of_nat v)"
proof -
  have "bit (2 * v) 8 \<longleftrightarrow> bit v 7" using bit_double [of v 7] by simp
  moreover have "bit (word_of_nat v :: byte) 7 \<longleftrightarrow> bit v 7" by (simp add: bit_of_nat_iff)
  moreover have "(word_of_nat (2 * v) :: byte) = push_bit 1 (word_of_nat v)" by (simp add: push_bit_eq_mult)
  moreover have "(word_of_nat 0x11d :: byte) = 0x1d" by simp
  ultimately show ?thesis
    unfolding next_value_def Let_def and_256 xtime_def by (simp add: of_nat_xor_eq del: of_nat_numeral of_nat_mult)
qed

lemma next_value_less: "v < 256 \<Longrightarrow> next_value v < 256"
proof -
  assume v: "v < 256"
  show ?thesis
  proof (cases "bit (2 * v) 8")
    case False
    then have "\<not> bit v 7" using bit_double [of v 7] by simp
    have "take_bit 7 v = v"
    proof (rule bit_eqI)
      fix n
      have "n < 7" if n: "bit v n"
      proof -
        have "n < 8" using high_bits_nat [of v 8 n] v n by fastforce
        moreover have "n \<noteq> 7" using n \<open>\<not> bit v 7\<close> by blast
        ultimately show ?thesis by simp
      qed
      then show "bit (take_bit 7 v) n \<longleftrightarrow> bit v n" by (auto simp: bit_take_bit_iff)
    qed
    then have "v < 2 ^ 7" by (simp only: take_bit_nat_eq_self_iff)
    with False show ?thesis unfolding next_value_def Let_def and_256 by simp
  next
    case True
    have "take_bit 8 (2 * v XOR 0x11d) = 2 * v XOR 0x11d"
    proof (rule bit_eqI)
      fix n
      have "\<not> bit (2 * v XOR 0x11d) n" if n: "8 \<le> n"
      proof (cases "n = 8")
        case eq: True
        have "bit (0x11d :: nat) 8" by (simp add: bit_iff_odd)
        with eq True show ?thesis by (simp add: bit_xor_iff)
      next
        case False
        with n have "9 \<le> n" by simp
        then have "\<not> bit (0x11d :: nat) n" "\<not> bit (2 * v) n"
          using high_bits_nat [of "0x11d" 9 n] high_bits_nat [of "2 * v" 9 n] v by simp_all
        then show ?thesis by (simp add: bit_xor_iff)
      qed
      then show "bit (take_bit 8 (2 * v XOR 0x11d)) n \<longleftrightarrow> bit (2 * v XOR 0x11d) n"
        unfolding bit_take_bit_iff by (metis not_le)
    qed
    then have "2 * v XOR 0x11d < 2 ^ 8" by (simp only: take_bit_nat_eq_self_iff)
    with True show ?thesis unfolding next_value_def Let_def and_256 by simp
  qed
qed

section \<open>The powers of the generating element\<close>

lemma gf_value_less: "gf_value i < 256"
  by (induction i) (simp_all add: gf_value_def next_value_less)

definition pow2 :: "nat \<Rightarrow> byte" where
  "pow2 i = (xtime ^^ i) 1"

lemma gf_value_word: "word_of_nat (gf_value i) = pow2 i"
  by (induction i) (simp_all add: gf_value_def pow2_def next_value_word)

lemma unat_pow2: "unat (pow2 i) = gf_value i"
  using gf_value_less [of i] by (simp add: gf_value_word [symmetric] unat_of_nat)

lemma pow2_add: "pow2 (i + j) = (xtime ^^ i) (pow2 j)"
  by (simp add: pow2_def funpow_add)

lemma xtime_inj: "xtime a = xtime b \<Longrightarrow> a = b"
proof -
  assume eq: "xtime a = xtime b"
  have low: "bit (xtime c) 0 \<longleftrightarrow> bit c 7" for c
    by (simp add: xtime_def bit_xor_iff bit_push_bit_iff bit_numeral_rec del: push_bit_of_1 push_bit_eq_mult) (simp_all add: bit_0)
  have "bit a 7 = bit b 7" using low eq by metis
  then have "push_bit 1 a XOR 0x1d = push_bit 1 b XOR 0x1d \<or> push_bit 1 a = push_bit 1 b"
    using eq unfolding xtime_def by (auto simp del: push_bit_eq_mult split: if_splits)
  then have push: "push_bit 1 a = push_bit 1 b"
  proof
    assume e: "push_bit 1 a XOR 0x1d = push_bit 1 b XOR 0x1d"
    have cancel: "x = (x XOR 0x1d) XOR 0x1d" for x :: byte by (simp add: xor.assoc)
    show ?thesis by (subst cancel, subst e, rule cancel [symmetric])
  qed
  show "a = b"
  proof (rule bit_word_eqI)
    fix n assume n: "n < LENGTH(8)"
    show "bit a n = bit b n"
    proof (cases "n = 7")
      case False
      then have "bit (push_bit 1 c) (Suc n) \<longleftrightarrow> bit c n" for c :: byte
        unfolding bit_push_bit_iff using n by simp
      with push show ?thesis by metis
    qed (use \<open>bit a 7 = bit b 7\<close> in simp)
  qed
qed

lemma xtime_pow_inj: "(xtime ^^ n) a = (xtime ^^ n) b \<Longrightarrow> a = b"
  by (induction n) (auto dest: xtime_inj)

lemma xtime_pow_xor: "(xtime ^^ n) (a XOR b) = (xtime ^^ n) a XOR (xtime ^^ n) b"
  by (induction n) (simp_all add: xtime_xor)

lemma xtime_pow_0 [simp]: "(xtime ^^ n) 0 = 0"
  by (induction n) simp_all

text \<open>The order of 2: its 255th power is 1 and no smaller one that divides 255 is.\<close>

lemma funpow_numeral_step: "(f ^^ numeral k) x = (f ^^ pred_numeral k) (f x)"
  by (simp add: numeral_eq_Suc funpow_swap1)

lemma gf_order: "gf_value 15 = 38" "gf_value 51 = 10" "gf_value 85 = 214" "gf_value 255 = 1"
  by (simp_all add: gf_value_def next_value_def funpow_numeral_step del: One_nat_def) (simp_all add: next_value_def)

text \<open>Its period divides 255 and neither 15, 51 nor 85, so it is 255: the first 255 powers differ, and are
  all the nonzero bytes.\<close>

lemma pow2_255 [simp]: "pow2 255 = 1"
  using gf_value_word [of 255] by (simp add: gf_order)

lemma pow2_add_one: "pow2 j = 1 \<Longrightarrow> pow2 (i + j) = pow2 i"
proof -
  assume "pow2 j = 1"
  then have "pow2 (i + j) = (xtime ^^ i) 1" by (simp only: pow2_add)
  then show ?thesis by (simp only: pow2_def)
qed

lemma pow2_0 [simp]: "pow2 0 = 1"
  by (simp add: pow2_def)

lemma pow2_period_mult: "pow2 p = 1 \<Longrightarrow> pow2 (k * p) = 1"
proof (induction k)
  case (Suc k)
  then show ?case using pow2_add_one [of "k * p" p] by simp
qed simp

lemma pow2_gcd:
  assumes "pow2 p = 1" "pow2 q = 1" "p \<noteq> 0"
  shows "pow2 (gcd p q) = 1"
proof -
  obtain x y where xy: "p * x = q * y + gcd p q" using bezout_nat [OF assms(3)] by blast
  have "1 = pow2 (x * p)" using pow2_period_mult [OF assms(1)] by simp
  also have "\<dots> = pow2 (gcd p q + y * q)" using xy by (simp add: algebra_simps)
  also have "\<dots> = pow2 (gcd p q)"
    using pow2_period_mult [OF assms(2), of y] by (rule pow2_add_one)
  finally show ?thesis by simp
qed

lemma pow2_no_period:
  assumes "0 < d" "d < 255" shows "pow2 d \<noteq> 1"
proof
  assume "pow2 d = 1"
  then have g: "pow2 (gcd 255 d) = 1" using pow2_gcd [of 255 d] by simp
  have bad: "pow2 15 \<noteq> 1" "pow2 51 \<noteq> 1" "pow2 85 \<noteq> 1"
    using gf_value_word [of 15] gf_value_word [of 51] gf_value_word [of 85] by (auto simp: gf_order)
  let ?g = "gcd 255 d"
  have "?g dvd 255" "?g \<le> d" using assms(1) by (auto intro: gcd_le2_nat)
  then have "?g \<in> {1, 3, 5, 15, 17, 51, 85}"
  proof -
    have "?g \<in> {k. k dvd 255}" using \<open>?g dvd 255\<close> by simp
    also have "{k :: nat. k dvd 255} = set (filter (\<lambda>k. k dvd 255) [0..<256])"
      by (auto dest: dvd_imp_le)
    also have "\<dots> = {1, 3, 5, 15, 17, 51, 85, 255}" by code_simp
    finally show ?thesis using \<open>?g \<le> d\<close> assms(2) by auto
  qed
  then have "?g dvd 15 \<or> ?g dvd 51 \<or> ?g dvd 85" by auto
  then show False
  proof (elim disjE)
    assume "?g dvd 15" then obtain k where "15 = k * ?g" by (metis dvd_def mult.commute)
    with pow2_period_mult [OF g, of k] bad show False by metis
  next
    assume "?g dvd 51" then obtain k where "51 = k * ?g" by (metis dvd_def mult.commute)
    with pow2_period_mult [OF g, of k] bad show False by metis
  next
    assume "?g dvd 85" then obtain k where "85 = k * ?g" by (metis dvd_def mult.commute)
    with pow2_period_mult [OF g, of k] bad show False by metis
  qed
qed

lemma pow2_inj: "i < 255 \<Longrightarrow> j < 255 \<Longrightarrow> pow2 i = pow2 j \<Longrightarrow> i = j"
proof (induction i j rule: linorder_wlog)
  case (le i j)
  have "(xtime ^^ i) (pow2 (j - i)) = (xtime ^^ i) (pow2 0)"
    using le pow2_add [of i "j - i"] by (simp add: pow2_def)
  then have "pow2 (j - i) = 1" using xtime_pow_inj by (simp add: pow2_def)
  with pow2_no_period [of "j - i"] le show ?case by fastforce
qed simp

lemma pow2_nonzero: "pow2 i \<noteq> 0"
proof
  assume "pow2 i = 0"
  then have "(xtime ^^ i) 1 = (xtime ^^ i) 0" by (simp add: pow2_def)
  from xtime_pow_inj [OF this] show False by simp
qed

lemma pow2_image: "pow2 ` {0..<255} = UNIV - {0}"
proof (rule card_subset_eq)
  show "pow2 ` {0..<255} \<subseteq> UNIV - {0}" using pow2_nonzero by auto
  have "card (pow2 ` {0..<255}) = 255" by (subst card_image) (auto intro!: inj_onI pow2_inj)
  then show "card (pow2 ` {0..<255}) = card (UNIV - {0 :: byte})" by (simp add: card_word)
qed simp

lemma nonzero_pow2:
  assumes "b \<noteq> 0" obtains i where "i < 255" "b = pow2 i"
proof -
  have "b \<in> pow2 ` {0..<255}" using assms by (simp add: pow2_image)
  then show ?thesis using that by auto
qed

section \<open>The tables\<close>

lemma pow2_mod: "pow2 (i mod 255) = pow2 i"
proof -
  have "pow2 i = pow2 (i mod 255 + i div 255 * 255)" by simp
  also have "\<dots> = pow2 (i mod 255)"
    using pow2_period_mult [OF pow2_255, of "i div 255"] by (rule pow2_add_one)
  finally show ?thesis by simp
qed

lemma gfExp_nth: "i < 512 \<Longrightarrow> gfExp ! i = pow2 i"
proof -
  define F where "F n = fold (\<lambda>i t. t @ [t ! (i - 255)]) [255..<255 + n]
     (map (\<lambda>i. word_of_nat (gf_value i) :: byte) [0..<255])" for n
  have Suc_F: "F (Suc n) = F n @ [F n ! n]" for n
    using upt_Suc_append [of 255 "255 + n"] by (simp add: F_def)
  have "length (F n) = 255 + n \<and> (\<forall>i < 255 + n. F n ! i = pow2 i)" for n
  proof (induction n)
    case 0
    then show ?case by (simp add: F_def gf_value_word)
  next
    case (Suc n)
    have "pow2 n = pow2 (255 + n)" using pow2_mod [of n] pow2_mod [of "255 + n"] by simp
    with Suc have new: "F n ! n = pow2 (255 + n)" by simp
    have "F (Suc n) ! i = pow2 i" if "i < 255 + Suc n" for i
    proof (cases "i < 255 + n")
      case True
      with Suc show ?thesis by (simp add: Suc_F nth_append)
    next
      case False
      with that have "i = 255 + n" by simp
      with Suc new show ?thesis by (simp add: Suc_F nth_append)
    qed
    with Suc show ?case by (simp add: Suc_F)
  qed
  moreover have sum: "(255 :: nat) + 257 = 512" by simp
  moreover have "gfExp = F 257" unfolding gfExp_def F_def sum ..
  ultimately show "i < 512 \<Longrightarrow> ?thesis" by metis
qed

lemma gfLog_nth: "i < 255 \<Longrightarrow> gfLog ! gf_value i = word_of_nat i"
proof -
  have inj: "gf_value i = gf_value j \<longleftrightarrow> i = j" if "i < 255" "j < 255" for i j
    using that pow2_inj [of i j] unat_pow2 [of i] unat_pow2 [of j] word_unat_eq_iff by metis
  have "n \<le> 255 \<Longrightarrow> length (fold (\<lambda>i t. t[gf_value i := word_of_nat i]) [0..<n] (replicate 256 (0::byte))) = 256 \<and>
    (\<forall>i < n. fold (\<lambda>i t. t[gf_value i := word_of_nat i]) [0..<n] (replicate 256 (0::byte)) ! gf_value i = word_of_nat i)" for n
  proof (induction n)
    case (Suc n)
    then show ?case using gf_value_less by (auto simp: nth_list_update inj less_Suc_eq)
  qed simp
  from this [of 255] show "i < 255 \<Longrightarrow> ?thesis" by (simp add: gfLog_def)
qed

lemma unat_small: "i < 255 \<Longrightarrow> unat (word_of_nat i :: byte) = i"
  by (simp add: unat_of_nat)

lemma gfMultiply_pow2: "i < 255 \<Longrightarrow> j < 255 \<Longrightarrow> gfMultiply (pow2 i) (pow2 j) = pow2 (i + j)"
  by (simp add: gfMultiply_def pow2_nonzero unat_pow2 gfLog_nth unat_small gfExp_nth)

lemma gfMultiply_0 [simp]: "gfMultiply 0 b = 0" "gfMultiply a 0 = 0"
  by (simp_all add: gfMultiply_def)

lemma gfMultiply_xtime: "j < 255 \<Longrightarrow> gfMultiply a (pow2 j) = (xtime ^^ j) a"
  by (cases "a = 0") (auto elim!: nonzero_pow2 simp: gfMultiply_pow2 pow2_add [symmetric] add.commute)

section \<open>The field\<close>

text \<open>What the encoder relies on: a commutative, associative multiplication that distributes over XOR.\<close>

locale gf_mult =
  fixes mult :: "byte \<Rightarrow> byte \<Rightarrow> byte"
  assumes mult_comm: "mult a b = mult b a"
    and mult_assoc: "mult (mult a b) c = mult a (mult b c)"
    and mult_xor: "mult (a XOR b) c = mult a c XOR mult b c"
    and mult_zero: "mult 0 c = 0"
begin

text \<open>The value of a polynomial, its highest coefficient first.\<close>

definition peval :: "byte \<Rightarrow> byte list \<Rightarrow> byte" where
  "peval r cs = foldl (\<lambda>acc c. mult acc r XOR c) 0 cs"

lemma peval_snoc [simp]: "peval r (cs @ [c]) = mult (peval r cs) r XOR c"
  by (simp add: peval_def)

lemma peval_Nil [simp]: "peval r [] = 0"
  by (simp add: peval_def)

lemma peval_zeros: "peval r (replicate n 0) = 0"
  by (induction n) (simp_all add: replicate_append_same [symmetric] mult_zero)

lemma peval_zeros_front: "peval r (replicate n 0 @ cs) = peval r cs"
  by (simp add: peval_def) (simp add: peval_def [symmetric] peval_zeros)

lemma peval_xor:
  "length xs = length ys \<Longrightarrow> peval r (map2 (XOR) xs ys) = peval r xs XOR peval r ys"
proof (induction xs arbitrary: ys rule: rev_induct)
  case (snoc x xs)
  then obtain ys' y where ys: "ys = ys' @ [y]" "length xs = length ys'"
    by (cases ys rule: rev_cases) auto
  with snoc.IH [OF ys(2)] show ?case by (simp add: mult_xor ac_simps)
qed simp

lemma peval_scale: "peval r (map (\<lambda>c. mult c k) cs) = mult (peval r cs) k"
proof (induction cs rule: rev_induct)
  case (snoc c cs)
  have "mult (mult (peval r cs) k) r = mult (mult (peval r cs) r) k"
    by (metis mult_assoc mult_comm)
  with snoc show ?case by (simp add: mult_xor)
qed (simp add: mult_zero)

lemma peval_zero_tail: "peval r cs = 0 \<Longrightarrow> peval r (cs @ replicate n 0) = 0"
proof (induction n)
  case (Suc n)
  have "cs @ replicate (Suc n) 0 = (cs @ replicate n 0) @ [0]" by (simp add: replicate_append_same)
  with Suc show ?case by (simp only: peval_snoc) (simp add: mult_zero)
qed simp

lemma peval_tail: "\<exists>k. \<forall>cs. peval r (cs @ ds) = mult (peval r cs) k XOR peval r ds \<or> ds = []"
proof (induction ds rule: rev_induct)
  case (snoc d ds)
  show ?case
  proof (cases "ds = []")
    case True
    then show ?thesis by (intro exI [of _ r]) (simp add: peval_def mult_zero)
  next
    case False
    with snoc obtain k where k: "\<And>cs. peval r (cs @ ds) = mult (peval r cs) k XOR peval r ds" by blast
    have "peval r (cs @ ds @ [d]) = mult (peval r cs) (mult k r) XOR peval r (ds @ [d])" for cs
      using peval_snoc [of r "cs @ ds" d] by (simp add: k mult_xor mult_assoc ac_simps)
    then show ?thesis by blast
  qed
qed simp

end

lemma gfMultiply_comm: "gfMultiply a b = gfMultiply b a"
  by (simp add: gfMultiply_def add.commute)

lemma gfMultiply_assoc: "gfMultiply (gfMultiply a b) c = gfMultiply a (gfMultiply b c)"
proof (cases "a = 0 \<or> b = 0 \<or> c = 0")
  case False
  then obtain i j k where "i < 255" "j < 255" "k < 255" and e: "a = pow2 i" "b = pow2 j" "c = pow2 k"
    by (metis nonzero_pow2)
  moreover have "pow2 (i + j) = pow2 ((i + j) mod 255)" "pow2 (j + k) = pow2 ((j + k) mod 255)"
    by (simp_all only: pow2_mod)
  moreover have "pow2 ((i + j) mod 255 + k) = pow2 (i + (j + k) mod 255)"
    using pow2_mod [of "(i + j) mod 255 + k"] pow2_mod [of "i + (j + k) mod 255"]
    by (simp add: mod_add_left_eq mod_add_right_eq add.assoc)
  ultimately show ?thesis by (simp add: gfMultiply_pow2)
qed auto

lemma gfMultiply_xor: "gfMultiply (a XOR b) c = gfMultiply a c XOR gfMultiply b c"
proof (cases "c = 0")
  case False
  then obtain k where "k < 255" "c = pow2 k" by (rule nonzero_pow2)
  then show ?thesis by (simp add: gfMultiply_xtime xtime_pow_xor)
qed simp

interpretation gf: gf_mult gfMultiply
  by unfold_locales (rule gfMultiply_comm gfMultiply_assoc gfMultiply_xor gfMultiply_0)+

lemma gfMultiply_one [simp]: "gfMultiply a 1 = a"
  using gfMultiply_xtime [of 0 a] by simp

section \<open>Generator and remainder\<close>

lemma length_xor_at [simp]: "length (xor_at k b xs) = length xs"
  by (simp add: xor_at_def)

lemma nth_xor_at: "k < length xs \<Longrightarrow> xor_at k b xs ! n = (if n = k then xs ! k XOR b else xs ! n)"
  by (simp add: xor_at_def nth_list_update)

text \<open>The inner loop of both routines adds a multiple of a polynomial at an offset.\<close>

lemma fold_xor_at:
  "i + off + length poly \<le> length xs \<Longrightarrow>
   length (fold (\<lambda>(j, c). xor_at (i + j) (f c)) (List.enumerate off poly) xs) = length xs \<and>
   (\<forall>n < length xs. fold (\<lambda>(j, c). xor_at (i + j) (f c)) (List.enumerate off poly) xs ! n =
      (if i + off \<le> n \<and> n < i + off + length poly then xs ! n XOR f (poly ! (n - i - off)) else xs ! n))"
proof (induction poly arbitrary: off xs)
  case (Cons c poly)
  let ?ys = "xor_at (i + off) (f c) xs"
  have "i + Suc off + length poly \<le> length ?ys" using Cons.prems by simp
  from Cons.IH [OF this] Cons.prems show ?case
    by (auto simp: nth_xor_at nth_Cons' Suc_diff_Suc) (metis le_antisym not_less_eq_eq)
qed auto

lemma length_generator_step [simp]: "length (generator_step i poly) = Suc (length poly)"
proof -
  have len: "length (fold (\<lambda>(j, c) nxt. xor_at (j + 1) (f c) (xor_at j c nxt)) xs ys) = length ys" for f xs ys
    by (induction xs arbitrary: ys) auto
  show ?thesis by (simp only: generator_step_def len) simp
qed

text \<open>One step of \<open>generator\<close> multiplies by \<open>x + 2^i\<close>.\<close>

lemma fold_two_xor:
  "off + length poly < length xs \<Longrightarrow>
   \<forall>n < length xs. fold (\<lambda>(j, c) nxt. xor_at (j + 1) (f c) (xor_at j c nxt)) (List.enumerate off poly) xs ! n =
     xs ! n XOR (if off \<le> n \<and> n < off + length poly then poly ! (n - off) else 0) XOR
     (if Suc off \<le> n \<and> n < Suc off + length poly then f (poly ! (n - Suc off)) else 0)"
proof (induction poly arbitrary: off xs)
  case (Cons c poly)
  let ?ys = "xor_at (Suc off) (f c) (xor_at off c xs)"
  have l: "off < length xs" "Suc off < length xs" using Cons.prems by simp_all
  have ys: "?ys ! n = xs ! n XOR (if n = off then c else 0) XOR (if n = Suc off then f c else 0)" for n
    using l by (simp add: nth_xor_at)
  have "Suc off + length poly < length ?ys" using Cons.prems by simp
  note ih = Cons.IH [OF this]
  show ?case
  proof (intro allI impI)
    fix n assume n: "n < length xs"
    consider "n < off" | "n = off" | "n = Suc off" | "n > Suc off" by linarith
    then show "fold (\<lambda>(j, c) nxt. xor_at (j + 1) (f c) (xor_at j c nxt)) (List.enumerate off (c # poly)) xs ! n =
     xs ! n XOR (if off \<le> n \<and> n < off + length (c # poly) then (c # poly) ! (n - off) else 0) XOR
     (if Suc off \<le> n \<and> n < Suc off + length (c # poly) then f ((c # poly) ! (n - Suc off)) else 0)"
      using ih n by cases (auto simp: ys nth_Cons' Suc_diff_Suc ac_simps)
  qed
qed auto

lemma generator_step_eq:
  "generator_step i poly = map2 (XOR) (poly @ [0]) (0 # map (\<lambda>c. gfMultiply c (gfExp ! i)) poly)"
proof (rule nth_equalityI)
  fix n assume "n < length (generator_step i poly)"
  then have n: "n < Suc (length poly)" by simp
  have "generator_step i poly ! n = (replicate (length poly + 1) 0 ! n) XOR
     (if 0 \<le> n \<and> n < 0 + length poly then poly ! (n - 0) else 0) XOR
     (if Suc 0 \<le> n \<and> n < Suc 0 + length poly then gfMultiply (poly ! (n - Suc 0)) (gfExp ! i) else 0)"
    unfolding generator_step_def
    using fold_two_xor [of 0 poly "replicate (length poly + 1) 0" "\<lambda>c. gfMultiply c (gfExp ! i)"] n
    by (simp del: replicate_Suc add_0_left)
  with n show "generator_step i poly ! n = map2 (XOR) (poly @ [0]) (0 # map (\<lambda>c. gfMultiply c (gfExp ! i)) poly) ! n"
    by (auto simp: nth_append nth_Cons' simp del: replicate_Suc)
qed simp

lemma peval_generator_step:
  "gf.peval r (generator_step i poly) = gfMultiply (gf.peval r poly) r XOR gfMultiply (gf.peval r poly) (gfExp ! i)"
proof -
  have "gf.peval r (0 # map (\<lambda>c. gfMultiply c (gfExp ! i)) poly) = gfMultiply (gf.peval r poly) (gfExp ! i)"
    using gf.peval_zeros_front [of r 1 "map (\<lambda>c. gfMultiply c (gfExp ! i)) poly"] by (simp add: gf.peval_scale)
  then show ?thesis by (simp add: generator_step_eq gf.peval_xor)
qed

lemma generator_Suc: "generator (Suc n) = generator_step n (generator n)"
  by (simp add: generator_def)

lemma length_generator [simp]: "length (generator n) = Suc n"
  by (induction n) (simp_all add: generator_Suc, simp add: generator_def)

lemma generator_monic: "generator n ! 0 = 1"
proof (induction n)
  case (Suc n)
  then show ?case using length_generator [of n] by (simp add: generator_Suc generator_step_eq nth_append)
qed (simp add: generator_def)

lemma generator_roots: "i < n \<Longrightarrow> gf.peval (gfExp ! i) (generator n) = 0"
proof (induction n)
  case (Suc n)
  then show ?case by (cases "i = n") (simp_all add: generator_Suc peval_generator_step)
qed simp

text \<open>One division step adds a multiple of the generator and clears the leading coefficient.\<close>

lemma reduce_at_eq:
  assumes "i + length poly \<le> length xs"
  shows "reduce_at poly i xs = map2 (XOR) xs
     (replicate i 0 @ map (\<lambda>c. gfMultiply c (xs ! i)) poly @ replicate (length xs - i - length poly) 0)"
proof (rule nth_equalityI)
  note step = fold_xor_at [of i 0 poly xs "\<lambda>c. gfMultiply c (xs ! i)"]
  show len: "length (reduce_at poly i xs) = length (map2 (XOR) xs
     (replicate i 0 @ map (\<lambda>c. gfMultiply c (xs ! i)) poly @ replicate (length xs - i - length poly) 0))"
    using step assms by (simp add: reduce_at_def Let_def)
  fix n assume "n < length (reduce_at poly i xs)"
  then have n: "n < length xs" using len assms by simp
  show "reduce_at poly i xs ! n = map2 (XOR) xs
     (replicate i 0 @ map (\<lambda>c. gfMultiply c (xs ! i)) poly @ replicate (length xs - i - length poly) 0) ! n"
  proof (cases "xs ! i = 0")
    case True
    with n assms show ?thesis by (auto simp: reduce_at_def nth_append)
  next
    case False
    then have "reduce_at poly i xs ! n =
        (if i \<le> n \<and> n < i + length poly then xs ! n XOR gfMultiply (poly ! (n - i)) (xs ! i) else xs ! n)"
      using step n assms by (simp add: reduce_at_def Let_def)
    with n assms show ?thesis by (auto simp: nth_append)
  qed
qed

lemma reduce_at_step:
  assumes "i + length poly \<le> length xs" "poly ! 0 = 1" "poly \<noteq> []"
  shows "length (reduce_at poly i xs) = length xs" "k < i \<Longrightarrow> reduce_at poly i xs ! k = xs ! k"
    "reduce_at poly i xs ! i = 0"
    "gf.peval r poly = 0 \<Longrightarrow> gf.peval r (reduce_at poly i xs) = gf.peval r xs"
proof -
  have i: "i < length xs" using assms by (cases poly) auto
  show "length (reduce_at poly i xs) = length xs" using assms by (simp add: reduce_at_eq)
  show "k < i \<Longrightarrow> reduce_at poly i xs ! k = xs ! k" using assms i by (simp add: reduce_at_eq nth_append)
  have "gfMultiply 1 (xs ! i) = xs ! i" using gfMultiply_comm [of 1 "xs ! i"] by simp
  then show "reduce_at poly i xs ! i = 0" using assms i by (simp add: reduce_at_eq nth_append)
  assume "gf.peval r poly = 0"
  then have "gf.peval r (map (\<lambda>c. gfMultiply c (xs ! i)) poly) = 0" by (simp add: gf.peval_scale)
  then have "gf.peval r (replicate i 0 @ map (\<lambda>c. gfMultiply c (xs ! i)) poly @ replicate (length xs - i - length poly) 0) = 0"
    by (simp add: gf.peval_zeros_front gf.peval_zero_tail)
  then show "gf.peval r (reduce_at poly i xs) = gf.peval r xs"
    using assms by (simp add: reduce_at_eq gf.peval_xor)
qed

lemma reduce_all:
  assumes "length poly = Suc count" "poly ! 0 = 1" "length xs = m + count" "n \<le> m"
  shows "length (fold (reduce_at poly) [0..<n] xs) = m + count \<and>
    (\<forall>k < n. fold (reduce_at poly) [0..<n] xs ! k = 0) \<and>
    (gf.peval r poly = 0 \<longrightarrow> gf.peval r (fold (reduce_at poly) [0..<n] xs) = gf.peval r xs)"
  using assms(4)
proof (induction n)
  case 0
  then show ?case using assms(3) by simp
next
  case (Suc n)
  let ?ys = "fold (reduce_at poly) [0..<n] xs"
  have ih: "length ?ys = m + count" "\<forall>k < n. ?ys ! k = 0"
    "gf.peval r poly = 0 \<longrightarrow> gf.peval r ?ys = gf.peval r xs" using Suc by simp_all
  have fits: "n + length poly \<le> length ?ys" "poly \<noteq> []" using Suc.prems ih(1) assms(1) by auto
  note s = reduce_at_step [OF fits(1) assms(2) fits(2)]
  show ?case using ih s(1,3,4) s(2) by (auto simp: less_Suc_eq)
qed

text \<open>The value of a codeword at the \<open>i\<close>-th power of two, which a reader computes to find errors.\<close>

definition syndrome :: "nat \<Rightarrow> byte list \<Rightarrow> byte" where
  "syndrome i cs = foldl (\<lambda>acc c. gfMultiply acc (gfExp ! i) XOR c) 0 cs"

lemma syndrome_peval: "syndrome i cs = gf.peval (gfExp ! i) cs"
  by (simp add: syndrome_def gf.peval_def)

lemma reedSolomon_codeword:
  "length (reedSolomon data count) = count \<and> (i < count \<longrightarrow> syndrome i (data @ reedSolomon data count) = 0)"
proof -
  let ?xs = "data @ replicate count 0" and ?m = "length data"
  define ys where "ys = fold (reduce_at (generator count)) [0..<?m] ?xs"
  note all = reduce_all [OF length_generator generator_monic, of ?xs ?m count ?m]
  have len: "length ys = ?m + count" and zero: "\<forall>k < ?m. ys ! k = 0"
    using all by (simp_all add: ys_def)
  have rs: "reedSolomon data count = drop ?m ys" by (simp add: reedSolomon_def ys_def)
  have "ys = take ?m ys @ drop ?m ys" by simp
  also have "take ?m ys = replicate ?m 0" using len zero by (intro nth_equalityI) auto
  finally have ys: "ys = replicate ?m 0 @ reedSolomon data count" by (simp add: rs)
  have "data @ reedSolomon data count = map2 (XOR) ?xs ys"
    by (subst ys) (intro nth_equalityI; auto simp: nth_append len rs)
  moreover have "length ?xs = length ys" using len by simp
  ultimately have "gf.peval r (data @ reedSolomon data count) = gf.peval r ?xs XOR gf.peval r ys" for r
    by (simp only: gf.peval_xor)
  moreover have "gf.peval (gfExp ! i) ys = gf.peval (gfExp ! i) ?xs" if "i < count"
    using all generator_roots [OF that] by (simp add: ys_def)
  ultimately show ?thesis using len by (simp add: syndrome_peval rs)
qed

text \<open>
  Property C10: the error correction of every block makes it a Reed-Solomon codeword. For any data and
  any number of correction bytes up to 255, \<open>reedSolomon\<close> answers exactly that many bytes, and the
  data followed by them has value zero at every one of the roots \<open>2^0 .. 2^(count-1)\<close>, which are
  distinct elements of the field: a reader sees no error in an undamaged block.
\<close>

theorem reed_solomon_blocks_are_codewords:
  assumes "count \<le> 255"
  shows "length (reedSolomon data count) = count \<and>
    (\<forall>i < count. syndrome i (data @ reedSolomon data count) = 0) \<and>
    distinct (map (\<lambda>i. gfExp ! i) [0..<count])"
proof -
  have "inj_on (\<lambda>i. gfExp ! i) {0..<count}"
    using assms by (intro inj_onI) (simp add: gfExp_nth pow2_inj)
  then show ?thesis using reedSolomon_codeword by (simp add: distinct_map)
qed

lemma reed_solomon_blocks_are_codewords_witness:
  "length (reedSolomon [0x10, 0x20, 0x0C, 0x56] 10) = 10 \<and>
   syndrome 9 ([0x10, 0x20, 0x0C, 0x56] @ reedSolomon [0x10, 0x20, 0x0C, 0x56] 10) = 0"
proof -
  have "(10 :: nat) \<le> 255" by simp
  from reed_solomon_blocks_are_codewords [OF this, of "[0x10, 0x20, 0x0C, 0x56]"]
  have "\<forall>i < 10. syndrome i ([0x10, 0x20, 0x0C, 0x56] @ reedSolomon [0x10, 0x20, 0x0C, 0x56] 10) = 0"
    "length (reedSolomon [0x10, 0x20, 0x0C, 0x56] 10) = 10" by blast+
  moreover have "(9 :: nat) < 10" by simp
  ultimately show ?thesis by blast
qed

text \<open>\<open>gfMultiply\<close>, computed through the two tables that \<open>init\<close> fills, is the multiplication of
  a field on bytes with XOR as addition: commutative, associative, distributive, with 1 neutral and
  every nonzero byte invertible.\<close>

theorem gfMultiply_is_field:
  "gfMultiply a b = gfMultiply b a \<and> gfMultiply (gfMultiply a b) c = gfMultiply a (gfMultiply b c) \<and>
   gfMultiply (a XOR b) c = gfMultiply a c XOR gfMultiply b c \<and> gfMultiply a 1 = a \<and>
   (a = 0 \<or> (\<exists>d. gfMultiply a d = 1))"
proof -
  have "\<exists>d. gfMultiply a d = 1" if "a \<noteq> 0"
  proof -
    from that obtain i where i: "i < 255" "a = pow2 i" by (rule nonzero_pow2)
    show ?thesis
    proof (cases "i = 0")
      case True
      with i have "gfMultiply a 1 = 1" by simp
      then show ?thesis by blast
    next
      case False
      with i have "gfMultiply a (pow2 (255 - i)) = pow2 255" by (simp add: gfMultiply_pow2)
      then show ?thesis by auto
    qed
  qed
  then have inv: "a = 0 \<or> (\<exists>d. gfMultiply a d = 1)" by blast
  show ?thesis by (intro conjI gfMultiply_comm gfMultiply_assoc gfMultiply_xor gfMultiply_one inv)
qed

end
