(* ===== verification/QrSymbol.thy ===== *)
theory QrSymbol
  imports QrField
begin

text \<open>
  \<open>internal/qr/qr.go\<close> and \<open>layout.go\<close>: the bit writer, the split into blocks, the modules of a symbol, the
  masks and their penalty, the format and version information, and \<open>Encode\<close>. Coordinates are \<open>int\<close> where
  the code computes negative ones; a symbol is the list of its modules row by row.
\<close>

section \<open>Versions\<close>

record version =
  ecPerBlock :: nat
  blocks1 :: nat
  len1 :: nat
  blocks2 :: nat
  len2 :: nat
  alignment :: "int list"

definition mk_version :: "nat \<Rightarrow> nat \<Rightarrow> nat \<Rightarrow> nat \<Rightarrow> nat \<Rightarrow> int list \<Rightarrow> version" where
  "mk_version e b1 l1 b2 l2 al =
     \<lparr>ecPerBlock = e, blocks1 = b1, len1 = l1, blocks2 = b2, len2 = l2, alignment = al\<rparr>"

text \<open>The map \<open>versions\<close>, from 1 on.\<close>

definition version_table :: "version list" where
  "version_table =
     [mk_version 10 1 16 0 0 [],
      mk_version 16 1 28 0 0 [6, 18],
      mk_version 26 1 44 0 0 [6, 22],
      mk_version 18 2 32 0 0 [6, 26],
      mk_version 24 2 43 0 0 [6, 30],
      mk_version 16 4 27 0 0 [6, 34],
      mk_version 18 4 31 0 0 [6, 22, 38],
      mk_version 22 2 38 2 39 [6, 24, 42],
      mk_version 22 3 36 2 37 [6, 26, 46],
      mk_version 26 4 43 1 44 [6, 28, 50],
      mk_version 30 1 50 4 51 [6, 30, 54],
      mk_version 22 6 36 2 37 [6, 32, 58],
      mk_version 22 8 37 1 38 [6, 34, 62],
      mk_version 24 4 40 5 41 [6, 26, 46, 66],
      mk_version 24 5 41 5 42 [6, 26, 48, 70],
      mk_version 28 7 45 3 46 [6, 26, 50, 74],
      mk_version 28 10 46 1 47 [6, 30, 54, 78],
      mk_version 26 9 43 4 44 [6, 30, 56, 82],
      mk_version 26 3 44 11 45 [6, 30, 58, 86],
      mk_version 26 3 41 13 42 [6, 34, 62, 90]]"

definition versions :: "nat \<Rightarrow> version" where
  "versions number = version_table ! (number - 1)"

definition maxVersion :: nat where "maxVersion = 20"

definition dataCodewords :: "version \<Rightarrow> nat" where
  "dataCodewords v = blocks1 v * len1 v + blocks2 v * len2 v"

definition countBits :: "nat \<Rightarrow> nat" where
  "countBits number = (if number < 10 then 8 else 16)"

definition capacity :: "version \<Rightarrow> nat \<Rightarrow> nat" where
  "capacity v number = (dataCodewords v * 8 - 4 - countBits number) div 8"

section \<open>Bits\<close>

record bitWriter =
  bw_bytes :: "byte list"
  bw_length :: nat

definition write_bit :: "bool \<Rightarrow> bitWriter \<Rightarrow> bitWriter" where
  "write_bit b w =
     (let bytes = (if bw_length w mod 8 = 0 then bw_bytes w @ [0] else bw_bytes w);
          k = bw_length w div 8
      in \<lparr>bw_bytes = (if b then bytes[k := bytes ! k OR push_bit (7 - bw_length w mod 8) 1] else bytes),
          bw_length = bw_length w + 1\<rparr>)"

definition bw_write :: "nat \<Rightarrow> nat \<Rightarrow> bitWriter \<Rightarrow> bitWriter" where
  "bw_write v width w = fold (\<lambda>i. write_bit (v AND 2 ^ i \<noteq> 0)) (rev [0..<width]) w"

definition empty_writer :: bitWriter where
  "empty_writer = \<lparr>bw_bytes = [], bw_length = 0\<rparr>"

fun terminate :: "nat \<Rightarrow> nat \<Rightarrow> bitWriter \<Rightarrow> bitWriter" where
  "terminate 0 bits w = w"
| "terminate (Suc i) bits w = (if bw_length w < bits then terminate i bits (bw_write 0 1 w) else w)"

text \<open>The two padding loops, with the number of turns they can take as fuel.\<close>

fun fill_byte :: "nat \<Rightarrow> bitWriter \<Rightarrow> bitWriter" where
  "fill_byte 0 w = w"
| "fill_byte (Suc fuel) w = (if bw_length w mod 8 \<noteq> 0 then fill_byte fuel (bw_write 0 1 w) else w)"

definition pad :: "nat list" where "pad = [0xEC, 0x11]"

fun fill_pad :: "nat \<Rightarrow> nat \<Rightarrow> nat \<Rightarrow> bitWriter \<Rightarrow> bitWriter" where
  "fill_pad 0 i bits w = w"
| "fill_pad (Suc fuel) i bits w =
     (if bw_length w < bits then fill_pad fuel (i + 1) bits (bw_write (pad ! (i mod 2)) 8 w) else w)"

definition write_segment :: "byte list \<Rightarrow> nat \<Rightarrow> bitWriter" where
  "write_segment data number =
     fold (\<lambda>b. bw_write (unat b) 8) data
       (bw_write (length data) (countBits number) (bw_write 4 4 empty_writer))"

definition write_data :: "byte list \<Rightarrow> version \<Rightarrow> nat \<Rightarrow> bitWriter" where
  "write_data data v number =
     (let total = dataCodewords v * 8
      in fill_pad total 0 total (fill_byte 8 (terminate 4 total (write_segment data number))))"

section \<open>Blocks\<close>

fun take_blocks :: "nat \<Rightarrow> nat \<Rightarrow> 'a list \<Rightarrow> 'a list list \<times> 'a list" where
  "take_blocks 0 n xs = ([], xs)"
| "take_blocks (Suc k) n xs = (case take_blocks k n (drop n xs) of (bs, rest) \<Rightarrow> (take n xs # bs, rest))"

definition split_blocks :: "version \<Rightarrow> byte list \<Rightarrow> byte list list" where
  "split_blocks v bytes =
     (case take_blocks (blocks1 v) (len1 v) bytes of
        (bs, rest) \<Rightarrow> bs @ fst (take_blocks (blocks2 v) (len2 v) rest))"

definition interleave :: "nat \<Rightarrow> 'a list list \<Rightarrow> 'a list" where
  "interleave longest blocks =
     concat (map (\<lambda>i. map (\<lambda>b. b ! i) (filter (\<lambda>b. i < length b) blocks)) [0..<longest])"

definition encodeCodewords :: "byte list \<Rightarrow> version \<Rightarrow> nat \<Rightarrow> byte list" where
  "encodeCodewords data v number =
     (let blocks = split_blocks v (bw_bytes (write_data data v number));
          corrections = map (\<lambda>b. reedSolomon b (ecPerBlock v)) blocks
      in interleave (max (len1 v) (len2 v)) blocks @ interleave (ecPerBlock v) corrections)"

section \<open>Modules\<close>

record matrix =
  m_size :: nat
  m_version :: nat
  m_mask :: nat
  m_modules :: "bool list"

definition At :: "matrix \<Rightarrow> int \<Rightarrow> int \<Rightarrow> bool" where
  "At m x y =
     (if x < 0 \<or> y < 0 \<or> x \<ge> int (m_size m) \<or> y \<ge> int (m_size m) then False
      else m_modules m ! nat (y * int (m_size m) + x))"

definition set_module :: "int \<Rightarrow> int \<Rightarrow> bool \<Rightarrow> matrix \<Rightarrow> matrix" where
  "set_module x y dark m = m\<lparr>m_modules := (m_modules m)[nat (y * int (m_size m) + x) := dark]\<rparr>"

text \<open>A matrix with the modules that carry no data.\<close>

type_synonym drawing = "matrix \<times> bool list"

definition reserve :: "int \<Rightarrow> int \<Rightarrow> bool \<Rightarrow> drawing \<Rightarrow> drawing" where
  "reserve x y dark d =
     (case d of (m, reserved) \<Rightarrow>
        if x < 0 \<or> y < 0 \<or> x \<ge> int (m_size m) \<or> y \<ge> int (m_size m) then (m, reserved)
        else (set_module x y dark m, reserved[nat (y * int (m_size m) + x) := True]))"

definition finder :: "int \<Rightarrow> int \<Rightarrow> drawing \<Rightarrow> drawing" where
  "finder left upper =
     fold (\<lambda>y. fold (\<lambda>x.
       (let edge = (x = 0 \<or> x = 6 \<or> y = 0 \<or> y = 6);
            centre = (x \<ge> 2 \<and> x \<le> 4 \<and> y \<ge> 2 \<and> y \<le> 4);
            inside = (x \<ge> 0 \<and> x \<le> 6 \<and> y \<ge> 0 \<and> y \<le> 6)
        in reserve (left + x) (upper + y) (inside \<and> (edge \<or> centre)))) [-1..7]) [-1..7]"

definition alignment_at :: "int list \<Rightarrow> int \<Rightarrow> int \<Rightarrow> drawing \<Rightarrow> drawing" where
  "alignment_at al x y =
     (if (x = 6 \<and> y = 6) \<or> (x = 6 \<and> y = last al) \<or> (y = 6 \<and> x = last al) then id
      else fold (\<lambda>dy. fold (\<lambda>dx.
        (let edge = (dx = -2 \<or> dx = 2 \<or> dy = -2 \<or> dy = 2)
         in reserve (x + dx) (y + dy) (edge \<or> dx = 0 \<and> dy = 0))) [-2..2]) [-2..2])"

definition drawPatterns :: "version \<Rightarrow> drawing \<Rightarrow> drawing" where
  "drawPatterns v d =
     (let size = int (m_size (fst d));
          d = finder 0 0 d;
          d = finder (size - 7) 0 d;
          d = finder 0 (size - 7) d;
          d = fold (\<lambda>i d. reserve 6 i (even i) (reserve i 6 (even i) d)) [8..size - 9] d;
          d = fold (\<lambda>y. fold (\<lambda>x. alignment_at (alignment v) x y) (alignment v)) (alignment v) d;
          d = reserve 8 (size - 8) True d;
          d = fold (\<lambda>i d. if i \<noteq> 6 then reserve 8 i False (reserve i 8 False d) else d) [0..8] d;
          d = fold (\<lambda>i d. (let d = reserve (size - 1 - i) 8 False d
                            in if i < 7 then reserve 8 (size - 1 - i) False d else d)) [0..7] d
      in if m_version (fst d) \<ge> 7 then
           fold (\<lambda>i d. reserve (size - 11 + i mod 3) (i div 3) False
                        (reserve (i div 3) (size - 11 + i mod 3) False d)) [0..17] d
         else d)"

section \<open>Laying out the codewords\<close>

definition codeword_bit :: "byte list \<Rightarrow> nat \<Rightarrow> bool" where
  "codeword_bit codewords k =
     (if k < length codewords * 8 then (codewords ! (k div 8)) AND push_bit (7 - k mod 8) 1 \<noteq> 0 else False)"

text \<open>The columns, right to left in pairs, that \<open>drawCodewords\<close> visits: the column 6 is skipped. The
  fuel is the size.\<close>

fun columns :: "nat \<Rightarrow> int \<Rightarrow> int list" where
  "columns 0 right = []"
| "columns (Suc fuel) right =
     (if right > 0 then (let r = (if right = 6 then 5 else right) in r # columns fuel (r - 2)) else [])"

definition draw_at :: "bool list \<Rightarrow> byte list \<Rightarrow> int \<Rightarrow> int \<Rightarrow> matrix \<times> nat \<Rightarrow> matrix \<times> nat" where
  "draw_at reserved codewords x y s =
     (case s of (m, k) \<Rightarrow>
        if reserved ! nat (y * int (m_size m) + x) then (m, k)
        else (set_module x y (codeword_bit codewords k) m, k + 1))"

definition draw_column :: "bool list \<Rightarrow> byte list \<Rightarrow> int \<Rightarrow> bool \<Rightarrow> matrix \<times> nat \<Rightarrow> matrix \<times> nat" where
  "draw_column reserved codewords right upward s =
     (let size = int (m_size (fst s))
      in fold (\<lambda>step s.
           (let y = (if upward then size - 1 - step else step)
            in draw_at reserved codewords (right - 1) y (draw_at reserved codewords right y s))) [0..size - 1] s)"

definition drawCodewords :: "bool list \<Rightarrow> byte list \<Rightarrow> matrix \<Rightarrow> matrix" where
  "drawCodewords reserved codewords m =
     fst (fst (fold (\<lambda>right (s, upward). (draw_column reserved codewords right upward s, \<not> upward))
       (columns (m_size m) (int (m_size m) - 1)) ((m, 0), True)))"

section \<open>Masks and their penalty\<close>

definition mask :: "nat \<Rightarrow> nat \<Rightarrow> nat \<Rightarrow> bool" where
  "mask pattern x y =
     (if pattern = 0 then (y + x) mod 2 = 0
      else if pattern = 1 then y mod 2 = 0
      else if pattern = 2 then x mod 3 = 0
      else if pattern = 3 then (y + x) mod 3 = 0
      else if pattern = 4 then (y div 2 + x div 3) mod 2 = 0
      else if pattern = 5 then (y * x) mod 2 + (y * x) mod 3 = 0
      else if pattern = 6 then ((y * x) mod 2 + (y * x) mod 3) mod 2 = 0
      else ((y + x) mod 2 + (y * x) mod 3) mod 2 = 0)"

definition toggle_at :: "bool list \<Rightarrow> nat \<Rightarrow> nat \<Rightarrow> nat \<Rightarrow> matrix \<Rightarrow> matrix" where
  "toggle_at reserved pattern x y m =
     (if reserved ! (y * m_size m + x) \<or> \<not> mask pattern x y then m
      else set_module (int x) (int y) (\<not> At m (int x) (int y)) m)"

definition toggle :: "bool list \<Rightarrow> nat \<Rightarrow> matrix \<Rightarrow> matrix" where
  "toggle reserved pattern m =
     fold (\<lambda>y. fold (\<lambda>x. toggle_at reserved pattern x y) [0..<m_size m]) [0..<m_size m] m"

fun run_penalty_from :: "bool \<Rightarrow> nat \<Rightarrow> bool list \<Rightarrow> nat" where
  "run_penalty_from prev run [] = (if run \<ge> 5 then 3 + run - 5 else 0)"
| "run_penalty_from prev run (c # cs) =
     (if c = prev then run_penalty_from c (run + 1) cs
      else (if run \<ge> 5 then 3 + run - 5 else 0) + run_penalty_from c 1 cs)"

definition runPenalty :: "bool list \<Rightarrow> nat" where
  "runPenalty line = (case line of [] \<Rightarrow> 0 | c # cs \<Rightarrow> run_penalty_from c 1 cs)"

definition light :: "bool list \<Rightarrow> nat \<Rightarrow> nat \<Rightarrow> bool" where
  "light line from to = (\<forall>i \<in> set [from..<min to (length line)]. \<not> line ! i)"

definition core :: "bool list" where
  "core = [True, False, True, True, True, False, True]"

function finder_from :: "bool list \<Rightarrow> nat \<Rightarrow> nat" where
  "finder_from line i =
     (if i + 7 \<le> length line then
        (if take 7 (drop i line) \<noteq> core then finder_from line (i + 1)
         else if light line (i - 4) i \<or> light line (i + 7) (i + 11) then 40 + finder_from line (i + 7)
         else finder_from line (i + 4))
      else 0)"
  by pat_completeness auto
termination
  by (relation "measure (\<lambda>(line, i). length line - i)") auto

declare finder_from.simps [simp del]

definition finderPenalty :: "bool list \<Rightarrow> nat" where
  "finderPenalty line = finder_from line 0"

definition penalty :: "matrix \<Rightarrow> nat" where
  "penalty m =
     (let n = m_size m;
          lines = map (\<lambda>a. map (\<lambda>b. At m (int b) (int a)) [0..<n]) [0..<n] @
                  map (\<lambda>a. map (\<lambda>b. At m (int a) (int b)) [0..<n]) [0..<n];
          same = (\<lambda>x y. At m (int x) (int y) = At m (int x + 1) (int y) \<and>
                    At m (int x) (int y) = At m (int x) (int y + 1) \<and>
                    At m (int x) (int y) = At m (int x + 1) (int y + 1));
          blocks = sum_list (map (\<lambda>y. sum_list (map (\<lambda>x. if same x y then 3 else 0) [0..<n - 1])) [0..<n - 1]);
          dark = length (filter id (m_modules m));
          total = length (m_modules m);
          deviation = nat (abs (int dark * 100 - int total * 50))
      in sum_list (map (\<lambda>l. runPenalty l + finderPenalty l) lines) + blocks + deviation div (5 * total) * 10)"

fun best_mask :: "bool list \<Rightarrow> nat list \<Rightarrow> nat \<Rightarrow> nat \<Rightarrow> matrix \<Rightarrow> matrix \<times> nat" where
  "best_mask reserved [] best score m = (m, best)"
| "best_mask reserved (p # ps) best score m =
     (let m1 = toggle reserved p m; s = penalty m1; m2 = toggle reserved p m1
      in if p = 0 \<or> s < score then best_mask reserved ps p s m2 else best_mask reserved ps best score m2)"

definition applyBestMask :: "bool list \<Rightarrow> int \<Rightarrow> matrix \<Rightarrow> matrix \<times> nat" where
  "applyBestMask reserved forced m =
     (if forced \<ge> 0 then (toggle reserved (nat forced) m, nat forced)
      else (case best_mask reserved [0..<8] 0 0 m of (m', best) \<Rightarrow> (toggle reserved best m', best)))"

section \<open>Format and version information\<close>

definition bch_step :: "nat \<Rightarrow> nat \<Rightarrow> nat \<Rightarrow> nat \<Rightarrow> nat" where
  "bch_step poly off i remainder =
     (if remainder AND 2 ^ (i + off) \<noteq> 0 then remainder XOR push_bit i poly else remainder)"

definition format_value :: "nat \<Rightarrow> nat" where
  "format_value pattern =
     (let bits = pattern; remainder = fold (bch_step 0x537 10) [4, 3, 2, 1, 0] (push_bit 10 bits)
      in (push_bit 10 bits OR remainder) XOR 0x5412)"

definition drawFormat :: "nat \<Rightarrow> matrix \<Rightarrow> matrix" where
  "drawFormat pattern m =
     (let size = int (m_size m); v = format_value pattern;
          m = fold (\<lambda>i m.
            (let dark = (v AND 2 ^ nat i \<noteq> 0);
                 m = (if i < 6 then set_module 8 i dark m
                      else if i = 6 then set_module 8 7 dark m
                      else if i = 7 then set_module 8 8 dark m
                      else set_module 8 (size - 15 + i) dark m)
             in if i < 8 then set_module (size - 1 - i) 8 dark m
                else if i = 8 then set_module 7 8 dark m
                else set_module (14 - i) 8 dark m)) [0..14] m
      in set_module 8 (size - 8) True m)"

definition version_value :: "nat \<Rightarrow> nat" where
  "version_value number =
     (let remainder = fold (bch_step 0x1f25 12) [5, 4, 3, 2, 1, 0] (push_bit 12 number)
      in push_bit 12 number OR remainder)"

definition drawVersion :: "nat \<Rightarrow> matrix \<Rightarrow> matrix" where
  "drawVersion number m =
     (let size = int (m_size m); v = version_value number
      in fold (\<lambda>i m. (let dark = (v AND 2 ^ nat i \<noteq> 0)
           in set_module (size - 11 + i mod 3) (i div 3) dark
                (set_module (i div 3) (size - 11 + i mod 3) dark m))) [0..17] m)"

section \<open>Encoding\<close>

datatype qr_error = NothingToEncode | NotUTF8 | TooLong nat nat

text \<open>\<open>valid_utf8\<close> is \<open>utf8.ValidString\<close>. A text is its bytes; the mask -1 lets the penalty choose.\<close>

definition encode_with :: "(byte list \<Rightarrow> bool) \<Rightarrow> byte list \<Rightarrow> int \<Rightarrow> qr_error + matrix" where
  "encode_with valid_utf8 data forced =
     (if data = [] then Inl NothingToEncode
      else if \<not> valid_utf8 data then Inl NotUTF8
      else case find (\<lambda>c. length data \<le> capacity (versions c) c) [1..<maxVersion + 1] of
        None \<Rightarrow> Inl (TooLong (length data) maxVersion)
      | Some number \<Rightarrow>
         (let chosen = versions number;
              codewords = encodeCodewords data chosen number;
              size = 17 + 4 * number;
              blank = \<lparr>m_size = size, m_version = number, m_mask = 0, m_modules = replicate (size * size) False\<rparr>;
              (m, reserved) = drawPatterns chosen (blank, replicate (size * size) False);
              m = drawCodewords reserved codewords m;
              (m, best) = applyBestMask reserved forced m;
              m = drawFormat best (m\<lparr>m_mask := best\<rparr>)
          in Inr (if number \<ge> 7 then drawVersion number m else m)))"

definition Encode :: "(byte list \<Rightarrow> bool) \<Rightarrow> byte list \<Rightarrow> qr_error + matrix" where
  "Encode valid_utf8 text = encode_with valid_utf8 text (- 1)"

section \<open>Drawing\<close>

definition quietZone :: nat where "quietZone = 4"

definition Extent :: "matrix \<Rightarrow> nat" where
  "Extent m = m_size m + 2 * quietZone"

definition svg_run :: "nat \<Rightarrow> nat \<Rightarrow> nat \<Rightarrow> string" where
  "svg_run x y run =
     ''M'' @ show_nat (x + quietZone) @ '' '' @ show_nat (y + quietZone) @ ''h'' @ show_nat run @ ''v1h-'' @ show_nat run @ ''z''"

function svg_row :: "bool list \<Rightarrow> nat \<Rightarrow> nat \<Rightarrow> string" where
  "svg_row line y x =
     (if x < length line then
        (if \<not> line ! x then svg_row line y (x + 1)
         else (let run = length (takeWhile id (drop x line))
               in svg_run x y run @ svg_row line y (x + max run 1)))
      else [])"
  by pat_completeness auto
termination
  by (relation "measure (\<lambda>(line, y, x). length line - x)") auto

declare svg_row.simps [simp del]

definition SVGPath :: "matrix \<Rightarrow> string" where
  "SVGPath m =
     concat (map (\<lambda>y. svg_row (map (\<lambda>x. At m (int x) (int y)) [0..<m_size m]) y 0) [0..<m_size m])"

end
