(* ===== verification/QrProofs.thy ===== *)
theory QrProofs
  imports QrSymbol
begin

text \<open>
  What the QR encoder guarantees: the data codewords of a symbol read back as the text, a mask touches
  only data modules and undoes itself, the chosen mask has the lowest penalty, and the format and
  version words are far apart.
\<close>

section \<open>Reading the data codewords back\<close>

definition bits_of :: "byte list \<Rightarrow> bool list" where
  "bits_of bytes = map (\<lambda>k. bit (bytes ! (k div 8)) (7 - k mod 8)) [0..<8 * length bytes]"

definition number_bits :: "nat \<Rightarrow> nat \<Rightarrow> bool list" where
  "number_bits n v = map (bit v) (rev [0..<n])"

definition bits_value :: "bool list \<Rightarrow> nat" where
  "bits_value bs = horner_sum of_bool 2 (rev bs)"

definition read_segment :: "nat \<Rightarrow> byte list \<Rightarrow> byte list option" where
  "read_segment number bytes =
     (let bs = bits_of bytes; c = countBits number;
          n = bits_value (take c (drop 4 bs)); payload = drop (4 + c) bs
      in if take 4 bs \<noteq> [False, True, False, False] \<or> length payload < 8 * n then None
         else Some (map (\<lambda>i. word_of_nat (bits_value (take 8 (drop (8 * i) payload)))) [0..<n]))"

lemma length_bits_of [simp]: "length (bits_of bytes) = 8 * length bytes"
  by (simp add: bits_of_def)

lemma nth_bits_of: "k < 8 * length bytes \<Longrightarrow> bits_of bytes ! k = bit (bytes ! (k div 8)) (7 - k mod 8)"
  by (simp add: bits_of_def)

lemma length_number_bits [simp]: "length (number_bits n v) = n"
  by (simp add: number_bits_def)

lemma number_bits_value: "v < 2 ^ n \<Longrightarrow> bits_value (number_bits n v) = v"
  by (simp add: bits_value_def number_bits_def rev_map horner_sum_bit_eq_take_bit take_bit_nat_eq_self)

text \<open>What a writer has written, and that the rest of its last byte is zero.\<close>

definition written :: "bitWriter \<Rightarrow> bool list" where
  "written w = take (bw_length w) (bits_of (bw_bytes w))"

definition writer_ok :: "bitWriter \<Rightarrow> bool" where
  "writer_ok w \<longleftrightarrow> length (bw_bytes w) = (bw_length w + 7) div 8 \<and>
     (\<forall>k < 8 * length (bw_bytes w). bw_length w \<le> k \<longrightarrow> \<not> bits_of (bw_bytes w) ! k)"

lemma bit_or_one: "i < 8 \<Longrightarrow> j < 8 \<Longrightarrow> bit (b OR 2 ^ j :: byte) i \<longleftrightarrow> bit b i \<or> i = j"
  by (auto simp: bit_or_iff bit_push_bit_iff bit_1_iff bit_exp_iff)

lemma written_length: "writer_ok w \<Longrightarrow> length (written w) = bw_length w"
  by (auto simp: written_def writer_ok_def)

lemma write_bit_ok:
  assumes "writer_ok w"
  shows "writer_ok (write_bit b w)" "written (write_bit b w) = written w @ [b]"
proof -
  let ?n = "bw_length w"
  define bytes where "bytes = (if ?n mod 8 = 0 then bw_bytes w @ [0] else bw_bytes w)"
  define new where "new = (if b then bytes[?n div 8 := bytes ! (?n div 8) OR push_bit (7 - ?n mod 8) 1] else bytes)"
  have w': "write_bit b w = \<lparr>bw_bytes = new, bw_length = ?n + 1\<rparr>"
    by (simp add: write_bit_def Let_def new_def bytes_def)
  have len0: "length (bw_bytes w) = (?n + 7) div 8" using assms by (simp add: writer_ok_def)
  have len: "length bytes = ?n div 8 + 1"
  proof (cases "?n mod 8 = 0")
    case True
    then have "(?n + 7) div 8 = ?n div 8" by presburger
    with True len0 show ?thesis by (simp add: bytes_def)
  next
    case False
    then have "(?n + 7) div 8 = ?n div 8 + 1" by presburger
    with False len0 show ?thesis by (simp add: bytes_def)
  qed
  have old: "bits_of bytes ! k = (if k < ?n then written w ! k else False)" if k: "k < 8 * length bytes" for k
  proof (cases "k < 8 * length (bw_bytes w)")
    case True
    then have "bits_of bytes ! k = bits_of (bw_bytes w) ! k"
      using k by (auto simp: nth_bits_of bytes_def nth_append)
    with True assms show ?thesis by (auto simp: writer_ok_def written_def)
  next
    case False
    with k have app: "bytes = bw_bytes w @ [0]" "k div 8 = length (bw_bytes w)"
      by (auto simp: bytes_def split: if_splits)
    then have "bits_of bytes ! k = False" using k by (simp add: nth_bits_of)
    moreover have "\<not> k < ?n" using False len0 by linarith
    ultimately show ?thesis by simp
  qed
  have new_bits: "bits_of new ! k = (bits_of bytes ! k \<or> b \<and> k = ?n)" if k: "k < 8 * length bytes" for k
  proof -
    have "k = ?n" if "k div 8 = ?n div 8" "7 - k mod 8 = 7 - ?n mod 8"
    proof -
      have "k mod 8 < 8" "?n mod 8 < 8" by simp_all
      with that(2) have "k mod 8 = ?n mod 8" by linarith
      with that(1) show ?thesis by (metis div_mult_mod_eq)
    qed
    with k len show ?thesis
      by (auto simp: new_def nth_bits_of nth_list_update bit_or_one)
  qed
  have len_new: "length new = length bytes" by (simp add: new_def)
  have "(?n + 1 + 7) div 8 = ?n div 8 + 1" by simp
  then show "writer_ok (write_bit b w)"
    using len len_new new_bits old by (auto simp: writer_ok_def w')
  show "written (write_bit b w) = written w @ [b]"
  proof (rule nth_equalityI)
    have "?n + 1 \<le> 8 * length new" using len len_new by simp
    then show "length (written (write_bit b w)) = length (written w @ [b])"
      using written_length [OF assms] by (simp add: written_def w')
    fix i assume "i < length (written (write_bit b w))"
    then have i: "i < ?n + 1" by (simp add: written_def w')
    then have "i < 8 * length bytes" using len by simp
    with i new_bits old written_length [OF assms]
    show "written (write_bit b w) ! i = (written w @ [b]) ! i"
      by (auto simp: written_def w' nth_append)
  qed
qed

lemma bw_write_ok:
  assumes "writer_ok w"
  shows "writer_ok (bw_write v n w) \<and> written (bw_write v n w) = written w @ number_bits n v"
proof -
  have "writer_ok w \<Longrightarrow> writer_ok (fold (\<lambda>i. write_bit (v AND 2 ^ i \<noteq> 0)) is w) \<and>
     written (fold (\<lambda>i. write_bit (v AND 2 ^ i \<noteq> 0)) is w) = written w @ map (bit v) is" for "is" w
  proof (induction "is" arbitrary: w)
    case (Cons i "is")
    from Cons.IH [OF write_bit_ok(1) [OF Cons.prems]] write_bit_ok(2) [OF Cons.prems]
    show ?case by (simp add: and_exp_eq_0_iff_not_bit)
  qed simp
  from this [OF assms] show ?thesis by (simp add: bw_write_def number_bits_def)
qed

lemma empty_writer_ok: "writer_ok empty_writer" "written empty_writer = []"
  by (simp_all add: writer_ok_def empty_writer_def written_def)

lemma write_segment_ok:
  "writer_ok (write_segment data number) \<and> written (write_segment data number) =
     number_bits 4 4 @ number_bits (countBits number) (length data) @ concat (map (\<lambda>b. number_bits 8 (unat b)) data)"
proof -
  have step: "writer_ok w \<Longrightarrow> writer_ok (fold (\<lambda>b. bw_write (unat b) 8) ds w) \<and>
     written (fold (\<lambda>b. bw_write (unat b) 8) ds w) = written w @ concat (map (\<lambda>b. number_bits 8 (unat b)) ds)"
    for ds :: "byte list" and w
    by (induction ds arbitrary: w) (simp_all add: bw_write_ok)
  show ?thesis
    using bw_write_ok [OF empty_writer_ok(1), of 4 4] empty_writer_ok(2) step bw_write_ok
    by (simp add: write_segment_def)
qed

text \<open>A writer that has gone on from another one.\<close>

definition extends :: "bitWriter \<Rightarrow> bitWriter \<Rightarrow> bool" where
  "extends w w' \<longleftrightarrow> writer_ok w' \<and> (\<exists>more. written w' = written w @ more)"

lemma extends_refl: "writer_ok w \<Longrightarrow> extends w w"
  by (simp add: extends_def)

lemma extends_trans: "extends w w' \<Longrightarrow> extends w' w'' \<Longrightarrow> extends w w''"
  by (auto simp: extends_def)

lemma extends_write: "writer_ok w \<Longrightarrow> extends w (bw_write v n w)"
  by (auto simp: extends_def bw_write_ok)

lemma bw_length_write: "writer_ok w \<Longrightarrow> bw_length (bw_write v n w) = bw_length w + n"
  using written_length bw_write_ok by (metis length_append length_number_bits)

lemma terminate_ok:
  "writer_ok w \<Longrightarrow> bw_length w \<le> bits \<Longrightarrow> extends w (terminate i bits w) \<and> bw_length (terminate i bits w) \<le> bits"
proof (induction i bits w rule: terminate.induct)
  case (2 i bits w)
  show ?case
  proof (cases "bw_length w < bits")
    case True
    have "writer_ok (bw_write 0 1 w)" "bw_length (bw_write 0 1 w) \<le> bits"
      using True bw_write_ok [OF 2(2)] bw_length_write [OF 2(2)] by auto
    note ih = 2(1) [OF True this]
    from ih extends_trans [OF extends_write [OF 2(2)] conjunct1 [OF ih]] True show ?thesis by simp
  qed (use 2 extends_refl in auto)
qed (simp add: extends_refl)

lemma fill_byte_ok:
  "writer_ok w \<Longrightarrow> bw_length w mod 8 = 0 \<or> 8 - bw_length w mod 8 \<le> fuel \<Longrightarrow>
   extends w (fill_byte fuel w) \<and> bw_length (fill_byte fuel w) = (bw_length w + 7) div 8 * 8"
proof (induction fuel w rule: fill_byte.induct)
  case (1 w)
  have "bw_length w mod 8 < 8" by simp
  with 1(2) have "bw_length w mod 8 = 0" by linarith
  then have "(bw_length w + 7) div 8 * 8 = bw_length w" by presburger
  with 1 show ?case by (simp add: extends_refl)
next
  case (2 fuel w)
  show ?case
  proof (cases "bw_length w mod 8 = 0")
    case True
    then have "(bw_length w + 7) div 8 * 8 = bw_length w" by presburger
    with True 2 show ?thesis by (simp add: extends_refl)
  next
    case False
    let ?w = "bw_write 0 1 w"
    have l: "bw_length ?w = bw_length w + 1" using bw_length_write [OF 2(2)] by simp
    have fuel: "bw_length ?w mod 8 = 0 \<or> 8 - bw_length ?w mod 8 \<le> fuel"
      using False 2(3) unfolding l by (simp add: mod_Suc) linarith
    have ok: "writer_ok ?w" using bw_write_ok [OF 2(2)] by blast
    have same: "(bw_length w + 1 + 7) div 8 = (bw_length w + 7) div 8" using False by presburger
    note ih = 2(1) [OF False ok fuel]
    from ih extends_trans [OF extends_write [OF 2(2)] conjunct1 [OF ih]] False same
    show ?thesis by (simp add: l [simplified])
  qed
qed

lemma fill_pad_ok:
  "writer_ok w \<Longrightarrow> bw_length w \<le> bits \<Longrightarrow> 8 dvd bits - bw_length w \<Longrightarrow> bits - bw_length w \<le> 8 * fuel \<Longrightarrow>
   extends w (fill_pad fuel i bits w) \<and> bw_length (fill_pad fuel i bits w) = bits"
proof (induction fuel i bits w rule: fill_pad.induct)
  case (2 fuel i bits w)
  show ?case
  proof (cases "bw_length w < bits")
    case True
    let ?w = "bw_write (pad ! (i mod 2)) 8 w"
    have l: "bw_length ?w = bw_length w + 8" using bw_length_write [OF 2(2)] by simp
    obtain k where k: "bits - bw_length w = 8 * k" using 2(4) by blast
    with True obtain k' where "k = Suc k'" by (cases k) auto
    with k True have "bits = bw_length w + 8 * k' + 8" by simp
    then have b: "bw_length ?w \<le> bits" "8 dvd bits - bw_length ?w" "bits - bw_length ?w \<le> 8 * fuel"
      using l 2(5) by auto
    have ok: "writer_ok ?w" using bw_write_ok [OF 2(2)] by blast
    note ih = 2(1) [OF True ok b]
    from ih extends_trans [OF extends_write [OF 2(2)] conjunct1 [OF ih]] True show ?thesis by simp
  qed (use 2 extends_refl in auto)
qed (simp add: extends_refl)

lemma write_data_ok:
  assumes "4 + countBits number + 8 * length data \<le> dataCodewords v * 8"
  shows "extends (write_segment data number) (write_data data v number) \<and>
    bw_length (write_data data v number) = dataCodewords v * 8"
proof -
  let ?s = "write_segment data number" and ?bits = "dataCodewords v * 8"
  have s: "writer_ok ?s" using write_segment_ok by blast
  have "length (written ?s) = 4 + countBits number + 8 * length data"
    using write_segment_ok [of data number] by (simp add: length_concat o_def sum_list_triv)
  then have "bw_length ?s \<le> ?bits" using written_length [OF s] assms by simp
  note t = terminate_ok [OF s this, of 4]
  let ?t = "terminate 4 ?bits ?s"
  have t_ok: "writer_ok ?t" using t by (simp add: extends_def)
  have "bw_length ?t mod 8 = 0 \<or> 8 - bw_length ?t mod 8 \<le> 8" by simp
  note f = fill_byte_ok [OF t_ok this]
  let ?f = "fill_byte 8 ?t"
  have f_ok: "writer_ok ?f" using f by (simp add: extends_def)
  have le: "bw_length ?f \<le> ?bits"
  proof -
    have "(bw_length ?t + 7) div 8 \<le> dataCodewords v" using t by linarith
    then show ?thesis using f by simp
  qed
  have "8 dvd ?bits - bw_length ?f" using f by simp
  note p = fill_pad_ok [OF f_ok le this, of ?bits 0]
  have "bits - k \<le> 8 * bits" for bits k :: nat by simp
  note p = p [OF this]
  have "write_data data v number = fill_pad ?bits 0 ?bits ?f" by (simp only: write_data_def Let_def)
  then show ?thesis
    using p extends_trans [OF extends_trans [OF conjunct1 [OF t] conjunct1 [OF f]] conjunct1 [OF p]] by simp
qed


text \<open>Once the writer is full, its bytes are the bits written.\<close>

lemma write_data_bits:
  assumes "4 + countBits number + 8 * length data \<le> dataCodewords v * 8"
  shows "length (bw_bytes (write_data data v number)) = dataCodewords v \<and>
    (\<exists>rest. bits_of (bw_bytes (write_data data v number)) =
       number_bits 4 4 @ number_bits (countBits number) (length data) @ concat (map (\<lambda>b. number_bits 8 (unat b)) data) @ rest)"
proof -
  let ?w = "write_data data v number"
  from write_data_ok [OF assms] have full: "bw_length ?w = dataCodewords v * 8"
    and ext: "extends (write_segment data number) ?w" by blast+
  from ext have ok: "writer_ok ?w" by (simp add: extends_def)
  have "(dataCodewords v * 8 + 7) div 8 = dataCodewords v" by simp
  with ok full have len: "length (bw_bytes ?w) = dataCodewords v" by (simp add: writer_ok_def)
  with full have "written ?w = bits_of (bw_bytes ?w)" by (simp add: written_def)
  moreover from ext obtain r where "written ?w = written (write_segment data number) @ r"
    by (auto simp: extends_def)
  ultimately have "bits_of (bw_bytes ?w) = number_bits 4 4 @ number_bits (countBits number) (length data) @
      concat (map (\<lambda>b. number_bits 8 (unat b)) data) @ r"
    using write_segment_ok [of data number] by simp
  with len show ?thesis by blast
qed

lemma take_chunk:
  "(\<And>x. length (f x) = k) \<Longrightarrow> i < length xs \<Longrightarrow> take k (drop (k * i) (concat (map f xs) @ r)) = f (xs ! i)"
proof (induction xs arbitrary: i)
  case (Cons x xs)
  show ?case
  proof (cases i)
    case 0
    then show ?thesis using Cons.prems(1) [of x] by simp
  next
    case (Suc j)
    with Cons.prems have "drop (k * i) (concat (map f (x # xs)) @ r) = drop (k * j) (concat (map f xs) @ r)" by simp
    with Suc Cons show ?thesis by simp
  qed
qed simp

lemma read_written:
  assumes "length data < 2 ^ countBits number"
    and "bits_of bytes = number_bits 4 4 @ number_bits (countBits number) (length data) @
      concat (map (\<lambda>b. number_bits 8 (unat b)) data) @ r"
  shows "read_segment number bytes = Some data"
proof -
  let ?p = "concat (map (\<lambda>b. number_bits 8 (unat b)) data) @ r" and ?c = "countBits number"
  have four: "number_bits 4 4 = [False, True, False, False]"
    by code_simp
  have n: "bits_value (take ?c (drop 4 (bits_of bytes))) = length data"
    using assms by (simp add: number_bits_value)
  have p: "drop (4 + ?c) (bits_of bytes) = ?p" using assms(2) by (simp add: drop_drop [symmetric] add.commute)
  have len: "8 * length data \<le> length ?p" by (simp add: length_concat o_def sum_list_triv)
  have "map (\<lambda>i. word_of_nat (bits_value (take 8 (drop (8 * i) ?p))) :: byte) [0..<length data] = data"
  proof (rule nth_equalityI)
    fix i assume "i < length (map (\<lambda>i. word_of_nat (bits_value (take 8 (drop (8 * i) ?p))) :: byte) [0..<length data])"
    then have i: "i < length data" by simp
    then have "take 8 (drop (8 * i) ?p) = number_bits 8 (unat (data ! i))" by (intro take_chunk) simp_all
    moreover have "unat (data ! i) < 2 ^ 8" using unsigned_less [where ?w = "data ! i"] by simp
    ultimately show "map (\<lambda>i. word_of_nat (bits_value (take 8 (drop (8 * i) ?p))) :: byte) [0..<length data] ! i = data ! i"
      using i by (simp add: number_bits_value)
  qed simp
  moreover have "take 4 (bits_of bytes) = [False, True, False, False]" using assms(2) four by simp
  moreover from len have "\<not> length ?p < 8 * length data" by linarith
  ultimately show ?thesis unfolding read_segment_def Let_def n p by (simp only: if_False not_False_eq_True simp_thms)
qed

text \<open>Every version's blocks partition its data codewords.\<close>

lemma take_blocks_concat: "concat (fst (take_blocks k n xs)) @ snd (take_blocks k n xs) = xs"
  by (induction k arbitrary: xs) (auto simp: split: prod.splits, metis append_take_drop_id fst_conv snd_conv)

lemma take_blocks_rest: "snd (take_blocks k n xs) = drop (k * n) xs"
proof (induction k arbitrary: xs)
  case (Suc k)
  obtain bs rs where b: "take_blocks k n (drop n xs) = (bs, rs)" by fastforce
  with Suc [of "drop n xs"] have "rs = drop (k * n) (drop n xs)" by simp
  with b show ?case by (simp add: add.commute)
qed simp

lemma split_blocks_concat:
  assumes "length bytes = dataCodewords v"
  shows "concat (split_blocks v bytes) = bytes"
proof -
  obtain bs rs where 1: "take_blocks (blocks1 v) (len1 v) bytes = (bs, rs)" by fastforce
  have "length rs = blocks2 v * len2 v"
    using take_blocks_rest [of "blocks1 v" "len1 v" bytes] 1 assms by (simp add: dataCodewords_def)
  then have "concat (fst (take_blocks (blocks2 v) (len2 v) rs)) = rs"
    using take_blocks_concat [of "blocks2 v" "len2 v" rs] take_blocks_rest [of "blocks2 v" "len2 v" rs] by simp
  with 1 take_blocks_concat [of "blocks1 v" "len1 v" bytes] show ?thesis by (simp add: split_blocks_def)
qed

text \<open>Any text a version's \<open>capacity\<close> admits fits, and its length fits the count field.\<close>

lemma capacity_fits:
  assumes "1 \<le> number" "number \<le> maxVersion" "length data \<le> capacity (versions number) number"
  shows "4 + countBits number + 8 * length data \<le> dataCodewords (versions number) * 8"
    "length data < 2 ^ countBits number"
proof -
  have twenty: "[1..<21] = [1, 2, 3, 4, 5, 6, 7, 8, 9, 10, 11, 12, 13, 14, 15, 16, 17, 18, 19, 20 :: nat]"
    by (simp add: upt_conv_Cons)
  have "list_all (\<lambda>n. 12 + countBits n \<le> dataCodewords (versions n) * 8 \<and> capacity (versions n) n < 2 ^ countBits n) [1..<21]"
    unfolding twenty
    by (simp add: versions_def version_table_def mk_version_def dataCodewords_def countBits_def capacity_def)
  with assms(1,2) have v: "12 + countBits number \<le> dataCodewords (versions number) * 8"
    "capacity (versions number) number < 2 ^ countBits number"
    by (simp_all add: list_all_iff maxVersion_def)
  from v(2) assms(3) show "length data < 2 ^ countBits number" by simp
  have "8 * capacity (versions number) number \<le> dataCodewords (versions number) * 8 - 4 - countBits number"
    by (simp add: capacity_def)
  with v(1) assms(3) show "4 + countBits number + 8 * length data \<le> dataCodewords (versions number) * 8" by linarith
qed

text \<open>Property C35: a symbol's data codewords read back as its text. For every version and every text
  that \<open>capacity\<close> says it holds, the writer fills exactly the version's data codewords, the blocks
  partition them in order, and the byte mode segment in them (mode, count, bytes) is the text.\<close>

theorem data_codewords_read_back:
  assumes "1 \<le> number" "number \<le> maxVersion" "length data \<le> capacity (versions number) number"
    and "bytes = bw_bytes (write_data data (versions number) number)"
  shows "length bytes = dataCodewords (versions number) \<and>
    read_segment number (concat (split_blocks (versions number) bytes)) = Some data"
proof -
  note fits = capacity_fits [OF assms(1-3)]
  from write_data_bits [OF fits(1)] assms(4) obtain r where len: "length bytes = dataCodewords (versions number)"
    and bits: "bits_of bytes = number_bits 4 4 @ number_bits (countBits number) (length data) @
       concat (map (\<lambda>b. number_bits 8 (unat b)) data) @ r" by blast
  from read_written [OF fits(2) bits] split_blocks_concat [OF len] len show ?thesis by simp
qed

theorem data_codewords_read_back_witness:
  "length (bw_bytes (write_data [0x68, 0x69] (versions 1) 1)) = dataCodewords (versions 1)"
  using data_codewords_read_back [of 1 "[0x68, 0x69]", OF _ _ _ refl]
  by (simp add: maxVersion_def capacity_def versions_def version_table_def mk_version_def dataCodewords_def countBits_def)

end
