(* ===== verification/QrMask.thy ===== *)
theory QrMask
  imports QrSymbol
begin

text \<open>
  The data mask of a QR symbol: it inverts data modules only, undoes itself, and the one
  \<open>applyBestMask\<close> keeps has the lowest penalty of the eight. The format and version words are those
  of the standard's tables, and any two of them differ in enough bits to be told apart.
\<close>

section \<open>A mask is an involution on the data modules\<close>

definition well_sized :: "bool list \<Rightarrow> matrix \<Rightarrow> bool" where
  "well_sized reserved m \<longleftrightarrow> length (m_modules m) = m_size m * m_size m \<and> length reserved = m_size m * m_size m"

definition inverted :: "bool list \<Rightarrow> nat \<Rightarrow> nat \<Rightarrow> nat \<Rightarrow> bool" where
  "inverted reserved pattern n k \<longleftrightarrow> \<not> reserved ! k \<and> mask pattern (k mod n) (k div n)"

lemma position_less: "x < n \<Longrightarrow> y < n \<Longrightarrow> y * n + x < n * (n :: nat)"
proof -
  assume "x < n" "y < n"
  then have "y * n + x < Suc y * n" "Suc y * n \<le> n * n" using mult_le_mono1 [of "Suc y" n n] by simp_all
  then show ?thesis by linarith
qed

lemma nat_position: "nat (int y * int n + int x) = y * n + x"
  by (simp only: of_nat_mult [symmetric] of_nat_add [symmetric] nat_int)

lemma toggle_at_modules:
  assumes "x < m_size m" "y < m_size m" "well_sized reserved m"
  shows "toggle_at reserved pattern x y m =
    m\<lparr>m_modules := (m_modules m)[y * m_size m + x :=
      (m_modules m ! (y * m_size m + x) \<noteq> inverted reserved pattern (m_size m) (y * m_size m + x))]\<rparr>"
  using assms
  by (auto simp: toggle_at_def set_module_def At_def inverted_def nat_position)

definition flips :: "(nat \<Rightarrow> bool) \<Rightarrow> nat list \<Rightarrow> bool list \<Rightarrow> bool list" where
  "flips f ks xs = fold (\<lambda>k xs. xs[k := (xs ! k \<noteq> f k)]) ks xs"

lemma length_flips [simp]: "length (flips f ks xs) = length xs"
  unfolding flips_def by (induction ks arbitrary: xs) simp_all

lemma flips_nth:
  "distinct ks \<Longrightarrow> k < length xs \<Longrightarrow> flips f ks xs ! k = (xs ! k \<noteq> (k \<in> set ks \<and> f k))"
proof (induction ks arbitrary: xs)
  case (Cons a ks)
  then have "flips f (a # ks) xs ! k = (xs[a := (xs ! a \<noteq> f a)] ! k \<noteq> (k \<in> set ks \<and> f k))"
    by (simp add: flips_def)
  with Cons.prems show ?case by (cases "k = a") auto
qed (simp add: flips_def)

lemma toggle_row:
  assumes "y < m_size m" "well_sized reserved m" "set xs \<subseteq> {..<m_size m}"
  shows "fold (\<lambda>x. toggle_at reserved pattern x y) xs m =
    m\<lparr>m_modules := flips (inverted reserved pattern (m_size m)) (map (\<lambda>x. y * m_size m + x) xs) (m_modules m)\<rparr>"
  using assms
proof (induction xs arbitrary: m)
  case (Cons x xs)
  let ?m = "toggle_at reserved pattern x y m"
  have m: "?m = m\<lparr>m_modules := (m_modules m)[y * m_size m + x :=
      (m_modules m ! (y * m_size m + x) \<noteq> inverted reserved pattern (m_size m) (y * m_size m + x))]\<rparr>"
    using Cons.prems by (intro toggle_at_modules) auto
  then have "well_sized reserved ?m" "m_size ?m = m_size m" using Cons.prems by (simp_all add: well_sized_def)
  with Cons.IH [of ?m] Cons.prems have "fold (\<lambda>x. toggle_at reserved pattern x y) xs ?m =
    ?m\<lparr>m_modules := flips (inverted reserved pattern (m_size m)) (map (\<lambda>x. y * m_size m + x) xs) (m_modules ?m)\<rparr>"
    by simp
  then show ?case by (simp add: m flips_def)
qed (simp add: flips_def)

lemma toggle_rows:
  assumes "well_sized reserved m" "set ys \<subseteq> {..<m_size m}"
  shows "fold (\<lambda>y. fold (\<lambda>x. toggle_at reserved pattern x y) [0..<m_size m]) ys m =
    m\<lparr>m_modules := flips (inverted reserved pattern (m_size m))
       (concat (map (\<lambda>y. map (\<lambda>x. y * m_size m + x) [0..<m_size m]) ys)) (m_modules m)\<rparr>"
  using assms
proof (induction ys arbitrary: m)
  case (Cons y ys)
  let ?m = "fold (\<lambda>x. toggle_at reserved pattern x y) [0..<m_size m] m"
  have m: "?m = m\<lparr>m_modules := flips (inverted reserved pattern (m_size m))
      (map (\<lambda>x. y * m_size m + x) [0..<m_size m]) (m_modules m)\<rparr>"
    using Cons.prems by (intro toggle_row) auto
  then have "well_sized reserved ?m" "m_size ?m = m_size m" using Cons.prems by (simp_all add: well_sized_def)
  with Cons.IH [of ?m] Cons.prems have "fold (\<lambda>y. fold (\<lambda>x. toggle_at reserved pattern x y) [0..<m_size m]) ys ?m =
    ?m\<lparr>m_modules := flips (inverted reserved pattern (m_size m))
       (concat (map (\<lambda>y. map (\<lambda>x. y * m_size m + x) [0..<m_size m]) ys)) (m_modules ?m)\<rparr>"
    by simp
  then show ?case by (simp add: m flips_def)
qed (simp add: flips_def)

lemma row_positions: "map (\<lambda>x. y * n + x) [0..<n] = [y * n..<Suc y * (n :: nat)]"
  by (rule nth_equalityI) simp_all

lemma grid_positions: "concat (map (\<lambda>y. map (\<lambda>x. y * n + x) [0..<n]) [0..<k]) = [0..<k * (n :: nat)]"
proof (induction k)
  case (Suc k)
  have "[0..<Suc k * n] = [0..<k * n] @ [k * n..<Suc k * n]"
    using upt_add_eq_append [of 0 "k * n" n] by (simp add: add.commute)
  with Suc show ?case by (simp only: upt_Suc map_append concat_append) (simp add: row_positions)
qed simp

lemma toggle_flips:
  assumes "well_sized reserved m"
  shows "toggle reserved pattern m = m\<lparr>m_modules :=
    flips (inverted reserved pattern (m_size m)) [0..<m_size m * m_size m] (m_modules m)\<rparr>"
proof -
  have "set [0..<m_size m] \<subseteq> {..<m_size m}" by auto
  then show ?thesis by (simp only: toggle_def toggle_rows [OF assms] grid_positions)
qed

lemma toggle_nth:
  assumes "well_sized reserved m" "k < m_size m * m_size m"
  shows "m_modules (toggle reserved pattern m) ! k =
    (m_modules m ! k \<noteq> inverted reserved pattern (m_size m) k)"
  using assms by (simp add: toggle_flips flips_nth well_sized_def)

lemma toggle_sized:
  assumes "well_sized reserved m"
  shows "well_sized reserved (toggle reserved pattern m)" "m_size (toggle reserved pattern m) = m_size m"
  using assms toggle_flips [OF assms] by (simp_all add: well_sized_def)

lemma toggle_toggle:
  assumes "well_sized reserved m"
  shows "toggle reserved pattern (toggle reserved pattern m) = m"
proof -
  have "flips f [0..<n] (flips f [0..<n] xs) = xs" if "length xs = n" for f n and xs :: "bool list"
    using that by (intro nth_equalityI) (auto simp: flips_nth)
  with assms show ?thesis
    using toggle_flips [OF toggle_sized(1) [OF assms]] toggle_sized(2) [OF assms] toggle_flips [OF assms]
    by (simp add: well_sized_def)
qed

section \<open>The best mask\<close>

lemma best_mask_least:
  assumes "well_sized reserved m" "distinct ps" "0 \<notin> set ps"
    and "score = penalty (toggle reserved best m)"
  shows "fst (best_mask reserved ps best score m) = m \<and>
    snd (best_mask reserved ps best score m) \<in> insert best (set ps) \<and>
    (\<forall>p \<in> insert best (set ps). penalty (toggle reserved (snd (best_mask reserved ps best score m)) m)
        \<le> penalty (toggle reserved p m))"
  using assms(2-)
proof (induction ps arbitrary: best score)
  case (Cons p ps)
  have undo: "toggle reserved p (toggle reserved p m) = m" by (rule toggle_toggle [OF assms(1)])
  show ?case
  proof (cases "penalty (toggle reserved p m) < score")
    case True
    with Cons.IH [of "penalty (toggle reserved p m)" p] Cons.prems undo show ?thesis
      by (auto simp: Let_def)
  next
    case False
    with Cons.IH [of score best] Cons.prems undo show ?thesis by (fastforce simp: Let_def)
  qed
qed simp

lemma upt8: "[0..<8] = 0 # [1..<(8 :: nat)]"
  by (simp add: upt_conv_Cons)

text \<open>Property C36: a data mask is reversible and leaves the function patterns alone, and \<open>applyBestMask\<close>
  keeps the mask with the lowest penalty. Applying any pattern twice gives the symbol back, a reserved
  module never changes, and unless a mask is forced the result is the symbol under one of the eight
  patterns, none of which scores lower.\<close>

theorem best_mask_is_least:
  assumes "length (m_modules m) = m_size m * m_size m" and "length reserved = m_size m * m_size m"
    and "applyBestMask reserved forced m = (m', best)" and "forced < 0"
  shows "toggle reserved pattern (toggle reserved pattern m) = m \<and>
    (\<forall>k < m_size m * m_size m. reserved ! k \<longrightarrow> m_modules (toggle reserved pattern m) ! k = m_modules m ! k) \<and>
    m' = toggle reserved best m \<and> best < 8 \<and>
    (\<forall>p < 8. penalty m' \<le> penalty (toggle reserved p m))"
proof -
  have sized: "well_sized reserved m" using assms(1,2) by (simp add: well_sized_def)
  let ?s = "penalty (toggle reserved 0 m)"
  have first: "best_mask reserved [0..<8] 0 0 m = best_mask reserved [1..<8] 0 ?s m"
    unfolding upt8 by (simp add: Let_def toggle_toggle [OF sized])
  have "distinct [1..<(8 :: nat)]" "0 \<notin> set [1..<(8 :: nat)]" by simp_all
  note least = best_mask_least [where best = 0, OF sized this refl]
  have range: "insert 0 (set [1..<8]) = {p :: nat. p < 8}" by auto
  from assms(3,4) first least have "m' = toggle reserved best m"
    "best = snd (best_mask reserved [1..<8] 0 ?s m)"
    by (auto simp: applyBestMask_def split: prod.splits)
  with least have "m' = toggle reserved best m \<and> best < 8 \<and> (\<forall>p < 8. penalty m' \<le> penalty (toggle reserved p m))"
    unfolding range by auto
  moreover have "\<forall>k < m_size m * m_size m. reserved ! k \<longrightarrow> m_modules (toggle reserved pattern m) ! k = m_modules m ! k"
    using toggle_nth [OF sized] by (simp add: inverted_def)
  ultimately show ?thesis using toggle_toggle [OF sized] by blast
qed

definition demo_matrix :: matrix where
  "demo_matrix = \<lparr>m_size = 2, m_version = 1, m_mask = 0, m_modules = [True, False, False, True]\<rparr>"

theorem best_mask_is_least_witness:
  "fst (applyBestMask [False, True, False, False] (- 1) demo_matrix) =
     toggle [False, True, False, False] (snd (applyBestMask [False, True, False, False] (- 1) demo_matrix)) demo_matrix"
  using best_mask_is_least [of demo_matrix "[False, True, False, False]" "- 1"]
  by (simp add: demo_matrix_def prod_eq_iff)

section \<open>Format and version words\<close>

fun weight :: "nat \<Rightarrow> nat" where
  "weight v = (if v = 0 then 0 else v mod 2 + weight (v div 2))"

declare weight.simps [simp del]

lemma format_values:
  "map format_value [0..<8] = [0x5412, 0x5125, 0x5E7C, 0x5B4B, 0x45F9, 0x40CE, 0x4F97, 0x4AA0]"
  by (simp add: upt_conv_Cons format_value_def bch_step_def Let_def push_bit_eq_mult)

lemma version_values:
  "map version_value [7..<21] = [0x07C94, 0x085BC, 0x09A99, 0x0A4D3, 0x0BBF6, 0x0C762, 0x0D847, 0x0E60D,
     0x0F928, 0x10B78, 0x1145D, 0x12A17, 0x13532, 0x149A6]"
  by (simp add: upt_conv_Cons version_value_def bch_step_def Let_def push_bit_eq_mult)


definition far_apart :: "nat \<Rightarrow> nat list \<Rightarrow> bool" where
  "far_apart d vs = list_all (\<lambda>i. list_all (\<lambda>j. d \<le> weight (vs ! i XOR vs ! j)) [0..<i]) [0..<length vs]"

text \<open>The format and version words survive damage. Any two of the eight format words differ in
  at least five of their 15 bits, any two of the fourteen version words in at least eight of their 18,
  so a reader can correct two (three) wrong modules; no format word is all zero.\<close>

theorem format_words_far_apart:
  "far_apart 5 (map format_value [0..<8]) \<and> far_apart 8 (map version_value [7..<21]) \<and>
   list_all (\<lambda>v. 0 < v \<and> v < 2 ^ 15) (map format_value [0..<8]) \<and>
   list_all (\<lambda>v. v < 2 ^ 18) (map version_value [7..<21])"
  unfolding format_values version_values
  by (simp add: far_apart_def upt_conv_Cons weight.simps)

end
