(* ===== verification/GoTime.thy ===== *)
theory GoTime
  imports GoPrelude
begin

text \<open>
  The part of Go's \<open>time\<close> the code uses. An instant is a number of nanoseconds since 1970 (UTC); a
  \<open>Location\<close> is the function that answers its offset from UTC, in seconds, at an instant given in
  seconds. A civil time is the number of seconds since 1970 that a clock on the wall would count, so a
  day is a multiple of 86400 of them.
\<close>

section \<open>The calendar\<close>

definition leap :: "int \<Rightarrow> bool" where
  "leap y \<longleftrightarrow> y mod 4 = 0 \<and> (y mod 100 \<noteq> 0 \<or> y mod 400 = 0)"

definition year_start :: "int \<Rightarrow> int" where
  "year_start y = 365 * (y - 1970) + ((y - 1) div 4 - (y - 1) div 100 + (y - 1) div 400) - 477"

definition year_of :: "int \<Rightarrow> int" where
  "year_of n =
     (let y = 1970 + n * 400 div 146097
      in if n < year_start y then y - 1 else if year_start (y + 1) \<le> n then y + 1 else y)"

definition month_starts :: "bool \<Rightarrow> int list" where
  "month_starts l = (if l then [0, 31, 60, 91, 121, 152, 182, 213, 244, 274, 305, 335]
     else [0, 31, 59, 90, 120, 151, 181, 212, 243, 273, 304, 334])"

definition month_of :: "bool \<Rightarrow> int \<Rightarrow> int" where
  "month_of l d = int (length (filter (\<lambda>s. s \<le> d) (month_starts l)))"

text \<open>\<open>Date()\<close> of a day, and the day of a year, a month from 1 to 12 and a day, which may lie outside
  the month.\<close>

definition civil :: "int \<Rightarrow> int \<times> int \<times> int" where
  "civil n =
     (let y = year_of n; d = n - year_start y; m = month_of (leap y) d
      in (y, m, d - month_starts (leap y) ! nat (m - 1) + 1))"

definition day_number :: "int \<Rightarrow> int \<Rightarrow> int \<Rightarrow> int" where
  "day_number y m d = year_start y + month_starts (leap y) ! nat (m - 1) + d - 1"

lemma div_step: "0 < n \<Longrightarrow> y div n = (y - 1) div n + (if y mod n = 0 then 1 else 0 :: int)"
proof -
  assume n: "0 < n"
  have y: "y = n * (y div n) + y mod n" by simp
  have r: "0 \<le> y mod n" "y mod n < n" using n by simp_all
  show ?thesis
  proof (cases "y mod n = 0")
    case True
    then have "y - 1 = n * (y div n - 1) + (n - 1)" using y by (simp add: algebra_simps)
    from int_div_pos_eq [OF this] n True show ?thesis by simp
  next
    case False
    then have "y - 1 = n * (y div n) + (y mod n - 1)" using y by simp
    from int_div_pos_eq [OF this] r False show ?thesis by simp
  qed
qed

lemma year_start_step: "year_start (y + 1) = year_start y + (if leap y then 366 else 365)"
proof -
  have sum: "a' = a + (if P then 1 else 0) \<Longrightarrow> b' = b + (if Q then 1 else 0) \<Longrightarrow> c' = c + (if R then 1 else 0) \<Longrightarrow>
     (R \<Longrightarrow> Q) \<Longrightarrow> (Q \<Longrightarrow> P) \<Longrightarrow>
     365 * (y + 1 - 1970) + (a' - b' + c') - 477 =
     365 * (y - 1970) + (a - b + c) - 477 + (if P \<and> (\<not> Q \<or> R) then 366 else 365)"
    for a b c a' b' c' :: int and P Q R by auto
  have "y mod 400 = 0 \<Longrightarrow> y mod 100 = 0" "y mod 100 = 0 \<Longrightarrow> y mod 4 = 0" by presburger+
  from sum [OF div_step div_step div_step this] show ?thesis
    by (simp only: year_start_def leap_def add_diff_cancel_right' zero_less_numeral)
qed

lemma div_bounds: "numeral n * (k div numeral n) \<le> (k :: int)" "k < numeral n * (k div numeral n) + numeral n"
  unfolding minus_mod_eq_mult_div [symmetric]
  using pos_mod_sign [of "numeral n" k] pos_mod_bound [of "numeral n" k] by simp_all

lemma year_start_bounds:
  "146097 * (y - 1970) - 506 \<le> 400 * year_start y" "400 * year_start y \<le> 146097 * (y - 1970) + 589"
proof -
  have sum: "4 * a \<le> y - 1 \<Longrightarrow> y - 1 < 4 * a + 4 \<Longrightarrow> 100 * b \<le> y - 1 \<Longrightarrow> y - 1 < 100 * b + 100 \<Longrightarrow>
      400 * c \<le> y - 1 \<Longrightarrow> y - 1 < 400 * c + 400 \<Longrightarrow>
      146097 * (y - 1970) - 506 \<le> 400 * (365 * (y - 1970) + (a - b + c) - 477) \<and>
      400 * (365 * (y - 1970) + (a - b + c) - 477) \<le> 146097 * (y - 1970) + 589" for a b c
    by simp
  from sum [OF div_bounds div_bounds div_bounds]
  show "146097 * (y - 1970) - 506 \<le> 400 * year_start y" "400 * year_start y \<le> 146097 * (y - 1970) + 589"
    by (simp_all only: year_start_def)
qed

lemma year_of_bounds: "year_start (year_of n) \<le> n \<and> n < year_start (year_of n + 1)"
proof -
  define q where "q = n * 400 div 146097"
  have q: "146097 * q \<le> n * 400" "n * 400 < 146097 * q + 146097"
    unfolding q_def by (rule div_bounds)+
  have b: "year_start (1970 + q - 1) \<le> n" "n < year_start (1970 + q + 2)"
    using q year_start_bounds [of "1970 + q - 1"] year_start_bounds [of "1970 + q + 2"] by simp_all
  then show ?thesis
    unfolding year_of_def q_def [symmetric] Let_def by (auto simp: algebra_simps)
qed

text \<open>A day's civil date is a real one, and counting back from it gives the day.\<close>

lemma month_of_range:
  assumes "0 \<le> d" "d < (if l then 366 else 365)"
  shows "1 \<le> month_of l d" "month_of l d \<le> 12" "month_starts l ! nat (month_of l d - 1) \<le> d"
    "d < month_starts l ! nat (month_of l d - 1) + 31"
  using assms by (cases l; simp add: month_of_def month_starts_def)+

lemma civil_range:
  assumes "civil n = (y, m, d)"
  shows "1 \<le> m" "m \<le> 12" "1 \<le> d" "d \<le> 31"
proof -
  let ?y = "year_of n"
  have "0 \<le> n - year_start ?y" "n - year_start ?y < (if leap ?y then 366 else 365)"
    using conjunct1 [OF year_of_bounds [of n]] conjunct2 [OF year_of_bounds [of n]] year_start_step [of ?y] by auto
  from month_of_range [OF this] assms show "1 \<le> m" "m \<le> 12" "1 \<le> d" "d \<le> 31"
    by (auto simp: civil_def Let_def)
qed

lemma day_number_civil: "civil n = (y, m, d) \<Longrightarrow> day_number y m d = n"
  by (auto simp: civil_def day_number_def Let_def)

section \<open>Clocks and zones\<close>

text \<open>Monday is 1 and Sunday 0; day 0 was a Thursday.\<close>

definition weekday :: "int \<Rightarrow> int" where
  "weekday n = (n + 4) mod 7"

definition civil_day :: "int \<Rightarrow> int" where "civil_day l = l div 86400"
definition hour :: "int \<Rightarrow> int" where "hour l = l mod 86400 div 3600"
definition minute :: "int \<Rightarrow> int" where "minute l = l mod 3600 div 60"
definition second :: "int \<Rightarrow> int" where "second l = l mod 60"

type_synonym zone = "int \<Rightarrow> int"

definition local :: "zone \<Rightarrow> int \<Rightarrow> int" where
  "local off u = u + off u"

text \<open>\<open>time.Date\<close>: the civil time is first read as if it were UTC, and the offset found there is
  applied; when the instant it gives lies in another period of the zone, that period's offset is.\<close>

definition of_civil :: "zone \<Rightarrow> int \<Rightarrow> int" where
  "of_civil off c = c - off (c - off c)"

definition go_date :: "zone \<Rightarrow> int \<Rightarrow> int \<Rightarrow> int \<Rightarrow> int \<Rightarrow> int \<Rightarrow> int \<Rightarrow> int" where
  "go_date off y m d h mi s = of_civil off (day_number y m d * 86400 + h * 3600 + mi * 60 + s)"

text \<open>\<open>AddDate(0, 0, k)\<close>: the same clock reading \<open>k\<close> days on.\<close>

definition add_date :: "zone \<Rightarrow> int \<Rightarrow> int \<Rightarrow> int" where
  "add_date off u k =
     (let l = local off u
      in case civil (civil_day l) of (y, m, d) \<Rightarrow> go_date off y m (d + k) (hour l) (minute l) (second l))"

lemma clock_split: "l = civil_day l * 86400 + hour l * 3600 + minute l * 60 + second l"
proof -
  have "l mod 86400 mod 3600 = l mod 3600" "l mod 3600 mod 60 = l mod 60" by (simp_all add: mod_mod_cancel)
  then show ?thesis
    using div_mult_mod_eq [of l 86400] div_mult_mod_eq [of "l mod 86400" 3600] div_mult_mod_eq [of "l mod 3600" 60]
    unfolding civil_day_def hour_def minute_def second_def by linarith
qed

lemma clock_ranges: "0 \<le> hour l" "hour l < 24" "0 \<le> minute l" "minute l < 60" "0 \<le> second l" "second l < 60"
proof -
  have q: "0 \<le> x div numeral n" "numeral n * (x div numeral n) \<le> x" if "0 \<le> x" for x :: int and n
    using that div_bounds(1) by (simp_all add: pos_imp_zdiv_nonneg_iff)
  have "0 \<le> l mod 86400" "l mod 86400 < 86400" "0 \<le> l mod 3600" "l mod 3600 < 3600" by simp_all
  with q [of "l mod 86400"] q [of "l mod 3600"]
  have "0 \<le> l mod 86400 div 3600 \<and> 3600 * (l mod 86400 div 3600) < 86400"
    "0 \<le> l mod 3600 div 60 \<and> 60 * (l mod 3600 div 60) < 3600" by (meson order_le_less_trans)+
  then show "0 \<le> hour l" "hour l < 24" "0 \<le> minute l" "minute l < 60" by (simp_all add: hour_def minute_def)
  show "0 \<le> second l" "second l < 60" by (simp_all add: second_def)
qed

lemma div_mod_unique: "l = n * q + r \<Longrightarrow> 0 \<le> r \<Longrightarrow> r < n \<Longrightarrow> l div n = q \<and> l mod n = (r :: int)"
  by (simp add: int_div_pos_eq int_mod_pos_eq)

lemma clock_fields:
  assumes "0 \<le> h" "h < 24" "0 \<le> mi" "mi < 60" "0 \<le> s" "s < 60"
    and "l = d * 86400 + h * 3600 + mi * 60 + s"
  shows "civil_day l = d" "hour l = h" "minute l = mi" "second l = s"
proof -
  have day: "l div 86400 = d \<and> l mod 86400 = h * 3600 + (mi * 60 + s)"
    using assms by (intro div_mod_unique) simp_all
  have "l = 3600 * (d * 24 + h) + (mi * 60 + s)" "0 \<le> mi * 60 + s" "mi * 60 + s < 3600"
    using assms by (simp_all add: algebra_simps)
  then have hr: "l mod 3600 = mi * 60 + s" using div_mod_unique by blast
  have "l = 60 * (d * 1440 + h * 60 + mi) + s" using assms by (simp add: algebra_simps)
  then have sec: "l mod 60 = s" using div_mod_unique assms by blast
  have "(h * 3600 + (mi * 60 + s)) div 3600 = h" "(mi * 60 + s) div 60 = mi"
    using div_mod_unique [of "h * 3600 + (mi * 60 + s)" 3600 h "mi * 60 + s"] div_mod_unique [of "mi * 60 + s" 60 mi s] assms
    by simp_all
  with day hr sec show "civil_day l = d" "hour l = h" "minute l = mi" "second l = s"
    by (simp_all add: civil_day_def hour_def minute_def second_def)
qed

lemma add_date_civil: "add_date off u k = of_civil off (local off u + k * 86400)"
proof -
  obtain y m d where c: "civil (civil_day (local off u)) = (y, m, d)" by (metis prod_cases3)
  have "day_number y m (d + k) = civil_day (local off u) + k"
    using day_number_civil [OF c] by (simp add: day_number_def)
  then have "day_number y m (d + k) * 86400 + hour (local off u) * 3600 + minute (local off u) * 60 +
      second (local off u) = local off u + k * 86400"
    using clock_split [of "local off u"] by linarith
  then show ?thesis by (simp add: add_date_def Let_def c go_date_def)
qed

end
