(* ===== verification/CronParse.thy ===== *)
theory CronParse
  imports GoTime GoJson
begin

text \<open>
  \<open>internal/cron\<close>, the parser: a Quartz expression of six or seven fields becomes a \<open>Schedule\<close> whose
  fields are bit sets in 64-bit words. The order in which Go walks the two name maps is an argument
  (\<open>containsOnlyNames\<close> removes the names one after another). Loop counters are Go's \<open>int\<close>, so the
  step that leaves a range may wrap around.
\<close>

section \<open>Names and values\<close>

definition monthNames :: "(string \<times> int) list" where
  "monthNames = [(''JAN'', 1), (''FEB'', 2), (''MAR'', 3), (''APR'', 4), (''MAY'', 5), (''JUN'', 6), (''JUL'', 7),
     (''AUG'', 8), (''SEP'', 9), (''OCT'', 10), (''NOV'', 11), (''DEC'', 12)]"

definition dayNames :: "(string \<times> int) list" where
  "dayNames = [(''SUN'', 1), (''MON'', 2), (''TUE'', 3), (''WED'', 4), (''THU'', 5), (''FRI'', 6), (''SAT'', 7)]"

text \<open>\<open>strings.ToUpper\<close>, as far as ASCII results go: the long s and the dotless i are the only
  letters outside ASCII whose upper case is in it; every other byte outside ASCII stays outside.\<close>

fun ToUpper :: "string \<Rightarrow> string" where
  "ToUpper [] = []"
| "ToUpper [c] = [upper_char c]"
| "ToUpper (c # d # r) =
     (if c = CHR 0xC5 \<and> d = CHR 0xBF then CHR ''S'' # ToUpper r
      else if c = CHR 0xC4 \<and> d = CHR 0xB1 then CHR ''I'' # ToUpper r
      else upper_char c # ToUpper (d # r))"

definition contains_any :: "string \<Rightarrow> string \<Rightarrow> bool" where
  "contains_any s chars = list_ex (\<lambda>c. c \<in> set chars) s"

text \<open>\<open>strings.ReplaceAll(s, name, "")\<close>\<close>

function remove_all :: "string \<Rightarrow> string \<Rightarrow> string" where
  "remove_all name s =
     (if s = [] \<or> name = [] then s
      else if take (length name) s = name then remove_all name (drop (length name) s)
      else hd s # remove_all name (tl s))"
  by pat_completeness auto
termination
  by (relation "measure (\<lambda>(name, s). length s)") auto

declare remove_all.simps [simp del]

type_synonym name_order = "string list \<times> string list"

definition containsOnlyNames :: "name_order \<Rightarrow> string list \<Rightarrow> bool" where
  "containsOnlyNames order parts =
     list_all (\<lambda>(index, field).
       (let upper = ToUpper field;
            names = (if index = 4 then fst order else if index = (5 :: nat) then snd order else [])
        in CHR ''#'' \<notin> set upper \<and> \<not> contains_any (fold remove_all names upper) ''LW''))
       (List.enumerate 0 parts)"

definition parseValue :: "string \<Rightarrow> (string \<times> int) list \<Rightarrow> (go_error, int) outcome" where
  "parseValue t names =
     (case map_of names (ToUpper t) of
        Some v \<Rightarrow> Done v
      | None \<Rightarrow> (case atoi t of
          None \<Rightarrow> Fail (Errorf ''%q is not a number or name'' [t])
        | Some v \<Rightarrow> Done v))"

section \<open>Ranges\<close>

definition range_step :: "string \<Rightarrow> string \<Rightarrow> bool \<Rightarrow> (go_error, int) outcome" where
  "range_step part stepText stepped =
     (if stepped then
        (case atoi stepText of
           None \<Rightarrow> Fail (Errorf ''%q has an invalid step'' [part])
         | Some step \<Rightarrow> if step < 1 then Fail (Errorf ''%q has an invalid step'' [part]) else Done step)
      else Done 1)"

definition range_ends ::
  "string \<Rightarrow> bool \<Rightarrow> int \<Rightarrow> int \<Rightarrow> (string \<times> int) list \<Rightarrow> (go_error, int \<times> int) outcome" where
  "range_ends rangeText stepped low high names =
     (if rangeText = ''*'' then Done (low, high)
      else if CHR ''-'' \<in> set rangeText then
        (case cut_at CHR ''-'' rangeText of
           (first, final, _) \<Rightarrow>
             obind (parseValue first names) (\<lambda>from.
             obind (parseValue final names) (\<lambda>to. Done (from, to))))
      else obind (parseValue rangeText names) (\<lambda>v. Done (v, if stepped then high else v)))"

definition parseRange ::
  "string \<Rightarrow> int \<Rightarrow> int \<Rightarrow> (string \<times> int) list \<Rightarrow> (go_error, int \<times> int \<times> int) outcome" where
  "parseRange part low high names =
     (case cut_at CHR ''/'' part of
        (rangeText, stepText, stepped) \<Rightarrow>
          obind (range_step part stepText stepped) (\<lambda>step.
          obind (range_ends rangeText stepped low high names) (\<lambda>(from, to).
            if from < low \<or> to > high \<or> from > to then
              Fail (Errorf ''%q must be within %d to %d'' [part, itoa low, itoa high])
            else Done (from, to, step))))"

text \<open>\<open>for value := from; value <= to; value += step\<close>: the values the loop's body sees. The fuel
  bounds the number of rounds.\<close>

fun loop_values :: "nat \<Rightarrow> int \<Rightarrow> int \<Rightarrow> int \<Rightarrow> int list option" where
  "loop_values 0 v to step = None"
| "loop_values (Suc fuel) v to step =
     (if v \<le> to then map_option (Cons v) (loop_values fuel (wrap64 (v + step)) to step) else Some [])"

definition loop_fuel :: "int \<Rightarrow> nat" where
  "loop_fuel to = nat (2 * to + 4)"

definition step_values :: "int \<Rightarrow> int \<Rightarrow> int \<Rightarrow> int list option" where
  "step_values from to step = loop_values (loop_fuel to) from to step"

text \<open>\<open>1 << uint(value)\<close> in 64 bits.\<close>

definition one_bit :: "int \<Rightarrow> 64 word" where
  "one_bit v = (if 0 \<le> v \<and> v < 64 then push_bit (nat v) 1 else 0)"

definition set_bits :: "int list \<Rightarrow> 64 word \<Rightarrow> 64 word" where
  "set_bits vs bits = fold (\<lambda>v bits. or bits (one_bit v)) vs bits"

fun field_parts :: "string list \<Rightarrow> int \<Rightarrow> int \<Rightarrow> (string \<times> int) list \<Rightarrow> 64 word \<Rightarrow> (go_error, 64 word) outcome" where
  "field_parts [] low high names bits = Done bits"
| "field_parts (part # parts) low high names bits =
     obind (parseRange part low high names) (\<lambda>(from, to, step).
       case step_values from to step of
         None \<Rightarrow> Crash
       | Some vs \<Rightarrow> field_parts parts low high names (set_bits vs bits))"

definition parseField :: "string \<Rightarrow> int \<Rightarrow> int \<Rightarrow> (string \<times> int) list \<Rightarrow> (go_error, 64 word) outcome" where
  "parseField field low high names = field_parts (split_on CHR '','' field) low high names 0"

fun year_parts :: "string list \<Rightarrow> int list \<Rightarrow> (go_error, int list) outcome" where
  "year_parts [] years = Done years"
| "year_parts (part # parts) years =
     obind (parseRange part 1970 2099 []) (\<lambda>(from, to, step).
       case step_values from to step of
         None \<Rightarrow> Crash
       | Some vs \<Rightarrow> year_parts parts (years @ vs))"

definition parseYears :: "string \<Rightarrow> (go_error, int list) outcome" where
  "parseYears field = year_parts (split_on CHR '','' field) []"

section \<open>The expression\<close>

record Schedule =
  sc_second :: int
  sc_minutes :: "64 word"
  sc_hours :: "64 word"
  sc_daysOfMonth :: "64 word"
  sc_months :: "64 word"
  sc_weeks :: "64 word"
  sc_years :: "int list option"
  sc_byDayOfMonth :: bool

fun wrap_error :: "string \<Rightarrow> (go_error, 'a) outcome \<Rightarrow> (go_error, 'a) outcome" where
  "wrap_error what (Fail e) = Fail (Wrapf (what @ '': %w'') e)"
| "wrap_error what r = r"

definition Parse :: "name_order \<Rightarrow> string \<Rightarrow> (go_error, Schedule) outcome" where
  "Parse order expression =
     (let parts = go_fields expression
      in if length parts \<noteq> 6 \<and> length parts \<noteq> 7 then
           Fail (Errorf ''a cron expression has 6 or 7 fields: seconds, minutes, hours, day of month, month, day of week and an optional year'' [])
         else if contains_any (ToUpper expression) ''LW#'' \<and> \<not> containsOnlyNames order parts then
           Fail (Errorf ''L, W and # are not supported in cron expressions'' [])
         else case (case atoi (parts ! 0) of None \<Rightarrow> None | Some v \<Rightarrow> if v < 0 \<or> v > 59 then None else Some v) of
           None \<Rightarrow> Fail (Errorf ''the seconds field must be one number from 0 to 59'' [])
         | Some sec \<Rightarrow>
             obind (wrap_error ''minutes'' (parseField (parts ! 1) 0 59 [])) (\<lambda>minutes.
             obind (wrap_error ''hours'' (parseField (parts ! 2) 0 23 [])) (\<lambda>hours.
               (let noDayOfMonth = (parts ! 3 = ''?''); noDayOfWeek = (parts ! 5 = ''?'')
                in if noDayOfMonth = noDayOfWeek then
                     Fail (Errorf ''exactly one of the day-of-month and day-of-week fields must be ?'' [])
                   else
                     obind (if noDayOfMonth then Done 0 else wrap_error ''day of month'' (parseField (parts ! 3) 1 31 [])) (\<lambda>days.
                     obind (wrap_error ''month'' (parseField (parts ! 4) 1 12 monthNames)) (\<lambda>months.
                     obind (if noDayOfWeek then Done 0 else wrap_error ''day of week'' (parseField (parts ! 5) 1 7 dayNames)) (\<lambda>weeks.
                     obind (if length parts = 7 \<and> parts ! 6 \<noteq> ''*'' then
                              omap Some (wrap_error ''year'' (parseYears (parts ! 6))) else Done None) (\<lambda>years.
                     Done \<lparr>sc_second = sec, sc_minutes = minutes, sc_hours = hours, sc_daysOfMonth = days,
                       sc_months = months, sc_weeks = weeks, sc_years = years, sc_byDayOfMonth = noDayOfWeek\<rparr>))))))))"

section \<open>The loop over a range ends\<close>

lemma loop_values_upper: "loop_values fuel v to step = Some vs \<Longrightarrow> x \<in> set vs \<Longrightarrow> x \<le> to"
  by (induction fuel v to step arbitrary: vs rule: loop_values.induct) (auto split: if_splits)

text \<open>Without a wrap-around the loop sees the arithmetic progression.\<close>

lemma loop_values_progression:
  "1 \<le> step \<Longrightarrow> to + step < 2 ^ 63 \<Longrightarrow> - (2 ^ 62) \<le> v \<Longrightarrow> nat (to - v + 1) < fuel \<Longrightarrow>
   \<exists>vs. loop_values fuel v to step = Some vs \<and> (\<forall>x. x \<in> set vs \<longleftrightarrow> v \<le> x \<and> x \<le> to \<and> (x - v) mod step = 0)"
proof (induction fuel arbitrary: v)
  case (Suc fuel)
  show ?case
  proof (cases "v \<le> to")
    case False
    then show ?thesis by auto
  next
    case True
    have w: "wrap64 (v + step) = v + step" using True Suc.prems by (intro wrap64_id) auto
    have "nat (to - (v + step) + 1) < fuel" using Suc.prems True by linarith
    with Suc.IH [of "v + step"] Suc.prems True obtain vs where
      vs: "loop_values fuel (v + step) to step = Some vs"
      "\<And>x. x \<in> set vs \<longleftrightarrow> v + step \<le> x \<and> x \<le> to \<and> (x - (v + step)) mod step = 0" by auto
    have "x = v \<or> v + step \<le> x \<and> x \<le> to \<and> (x - (v + step)) mod step = 0 \<longleftrightarrow>
        v \<le> x \<and> x \<le> to \<and> (x - v) mod step = 0" for x
    proof -
      have "(x - (v + step)) mod step = (x - v) mod step"
        by (metis diff_diff_eq minus_mod_self2)
      moreover have "x - v = 0 \<or> step \<le> x - v" if "v \<le> x" "(x - v) mod step = 0"
        using that Suc.prems(1) by (metis diff_ge_0_iff_ge linorder_not_le mod_pos_pos_trivial)
      ultimately show ?thesis using True Suc.prems(1) by auto
    qed
    with vs w True show ?thesis by auto
  qed
qed simp

text \<open>With one, every second value is \<open>2 * (2 ^ 63 - step)\<close> lower than before.\<close>

lemma wrap64_high: "2 ^ 63 \<le> i \<Longrightarrow> i < 2 ^ 64 \<Longrightarrow> wrap64 i = i - 2 ^ 64"
proof -
  assume i: "2 ^ 63 \<le> i" "i < 2 ^ 64"
  have "(i + 2 ^ 63) mod 2 ^ 64 = (i + 2 ^ 63 - 2 ^ 64) mod 2 ^ 64" by (simp only: minus_mod_self2)
  also have "\<dots> = i + 2 ^ 63 - 2 ^ 64" using i by (intro mod_pos_pos_trivial) auto
  finally show ?thesis by (simp add: wrap64_def)
qed

lemma loop_values_wrapping:
  assumes "to < 2 ^ 60" "step < 2 ^ 63" "2 ^ 63 \<le> to + step"
  shows "0 \<le> v \<Longrightarrow> v \<le> to \<Longrightarrow> nat (v + 3) \<le> fuel \<Longrightarrow> loop_values fuel v to step \<noteq> None"
proof (induction "nat v" arbitrary: v fuel rule: less_induct)
  case less
  have "3 \<le> fuel" using less.prems by linarith
  then obtain f where f: "fuel = Suc (Suc (Suc f))" by (metis Suc_le_D numeral_3_eq_3 Suc_le_mono)
  show ?case
  proof (cases "v + step < 2 ^ 63")
    case True
    then have "wrap64 (v + step) = v + step" using assms less.prems by (intro wrap64_id) auto
    moreover have "\<not> v + step \<le> to" using assms less.prems by auto
    ultimately show ?thesis using less.prems by (simp add: f)
  next
    case False
    then have w1: "wrap64 (v + step) = v + step - 2 ^ 64" using assms less.prems by (intro wrap64_high) auto
    let ?w = "v + step - 2 ^ 64 + step"
    have w2: "wrap64 ?w = ?w" using assms less.prems False by (intro wrap64_id) auto
    have le: "v + step - 2 ^ 64 \<le> to" "?w \<le> to" "?w \<le> v - 2" "v \<ge> 1" using assms less.prems False by auto
    show ?thesis
    proof (cases "0 \<le> ?w")
      case True
      then have "nat ?w < nat v" "nat (?w + 3) \<le> Suc f" using le less.prems f by auto
      from less.hyps [OF this(1) True le(2) this(2)] w1 w2 le less.prems show ?thesis
        by (simp add: f del: loop_values.simps) (simp add: loop_values.simps(2))
    next
      case False
      have "4 \<le> fuel" using le(4) less.prems by linarith
      then obtain g where g: "f = Suc g" using f by (cases f) auto
      have w3: "wrap64 (?w + step) = ?w + step" using assms less.prems False \<open>\<not> v + step < 2 ^ 63\<close>
        by (intro wrap64_id) auto
      have "\<not> ?w + step \<le> to" using assms less.prems \<open>\<not> v + step < 2 ^ 63\<close> by auto
      with w1 w2 w3 le less.prems show ?thesis by (simp add: f g)
    qed
  qed
qed

lemma step_values_defined:
  assumes "0 \<le> from" "from \<le> to" "to < 2 ^ 60" "1 \<le> step" "step < 2 ^ 63"
  shows "step_values from to step \<noteq> None"
proof (cases "to + step < 2 ^ 63")
  case True
  have "nat (to - from + 1) < loop_fuel to" using assms by (simp add: loop_fuel_def)
  from loop_values_progression [OF assms(4) True _ this] assms(1) show ?thesis
    by (auto simp: step_values_def)
next
  case False
  have "nat (from + 3) \<le> loop_fuel to" using assms by (simp add: loop_fuel_def)
  with loop_values_wrapping assms False show ?thesis by (simp add: step_values_def)
qed

section \<open>What a parsed field holds\<close>

lemma atoi_range: "atoi s = Some v \<Longrightarrow> - (2 ^ 63) \<le> v \<and> v < 2 ^ 63"
  by (auto simp: atoi_def Let_def split: list.splits option.splits if_splits prod.splits)

lemma range_step_Done: "range_step part t stepped = Done step \<Longrightarrow> 1 \<le> step \<and> step < 2 ^ 63"
  using atoi_range by (auto simp: range_step_def split: if_splits option.splits)

lemma parseRange_Done:
  "parseRange part low high names = Done (from, to, step) \<Longrightarrow>
   low \<le> from \<and> from \<le> to \<and> to \<le> high \<and> 1 \<le> step \<and> step < 2 ^ 63"
  using range_step_Done by (auto simp: parseRange_def split: prod.splits if_splits)

lemma parseRange_no_crash: "parseRange part low high names \<noteq> Crash"
  by (auto simp: parseRange_def range_step_def range_ends_def parseValue_def split: prod.splits option.splits if_splits)

lemma bit_one_bit: "bit (one_bit v) n \<longleftrightarrow> n < 64 \<and> v = int n"
  by (auto simp: one_bit_def bit_exp_iff)

lemma bit_set_bits: "bit (set_bits vs bits) n \<longleftrightarrow> bit bits n \<or> n < 64 \<and> int n \<in> set vs"
  unfolding set_bits_def
  by (induction vs arbitrary: bits) (auto simp: bit_or_iff bit_one_bit)

lemma step_values_upper: "step_values from to step = Some vs \<Longrightarrow> x \<in> set vs \<Longrightarrow> x \<le> to"
  unfolding step_values_def by (rule loop_values_upper)

lemma field_parts_total:
  "0 \<le> low \<Longrightarrow> high < 64 \<Longrightarrow> field_parts parts low high names bits \<noteq> Crash"
proof (induction parts low high names bits rule: field_parts.induct)
  case (2 part parts low high names bits)
  have "step_values a b step \<noteq> None" if "parseRange part low high names = Done (a, b, step)" for a b step
    using parseRange_Done [OF that] 2(2,3) by (intro step_values_defined) auto
  with 2 parseRange_no_crash show ?case by (fastforce split: option.splits)
qed simp

lemma field_parts_upper:
  "field_parts parts low high names bits = Done bits' \<Longrightarrow> (\<And>n. bit bits n \<Longrightarrow> int n \<le> high) \<Longrightarrow> bit bits' n \<Longrightarrow> int n \<le> high"
proof (induction parts low high names bits rule: field_parts.induct)
  case (2 part parts low high names bits)
  then obtain a b step vs where r: "parseRange part low high names = Done (a, b, step)"
    "step_values a b step = Some vs" "field_parts parts low high names (set_bits vs bits) = Done bits'"
    by (auto split: option.splits)
  have "int n \<le> high" if "bit (set_bits vs bits) n" for n
    using that 2(3) step_values_upper [OF r(2)] parseRange_Done [OF r(1)] by (fastforce simp: bit_set_bits)
  with 2 r show ?case by (metis (no_types, lifting))
qed simp

lemma parseField_total: "0 \<le> low \<Longrightarrow> high < 64 \<Longrightarrow> parseField field low high names \<noteq> Crash"
  by (simp add: parseField_def field_parts_total)

lemma parseField_upper: "parseField field low high names = Done bits \<Longrightarrow> bit bits n \<Longrightarrow> int n \<le> high"
  unfolding parseField_def by (erule field_parts_upper) simp_all

lemma year_parts_total: "year_parts parts years \<noteq> Crash"
proof (induction parts years rule: year_parts.induct)
  case (2 part parts years)
  have "step_values a b step \<noteq> None" if "parseRange part 1970 2099 [] = Done (a, b, step)" for a b step
    using parseRange_Done [OF that] by (intro step_values_defined) auto
  with 2 parseRange_no_crash show ?case by (fastforce split: option.splits)
qed simp

definition fits :: "64 word \<Rightarrow> nat \<Rightarrow> bool" where
  "fits bits high \<longleftrightarrow> (\<forall>n. bit bits n \<longrightarrow> n \<le> high)"

definition well_formed :: "Schedule \<Rightarrow> bool" where
  "well_formed s \<longleftrightarrow> 0 \<le> sc_second s \<and> sc_second s \<le> 59 \<and> fits (sc_minutes s) 59 \<and> fits (sc_hours s) 23 \<and>
     fits (sc_daysOfMonth s) 31 \<and> fits (sc_months s) 12 \<and> fits (sc_weeks s) 7 \<and>
     (if sc_byDayOfMonth s then sc_weeks s = 0 else sc_daysOfMonth s = 0)"

lemma wrap_error_Done [simp]: "wrap_error w m = Done a \<longleftrightarrow> m = Done a"
  by (cases m) auto

lemma wrap_error_Crash [simp]: "wrap_error w m = Crash \<longleftrightarrow> m = Crash"
  by (cases m) auto

lemma fits_field: "parseField field low (int high) names = Done bits \<Longrightarrow> fits bits high"
  unfolding fits_def using parseField_upper by fastforce

lemma fits_fields:
  "parseField field low 59 names = Done bits \<Longrightarrow> fits bits 59"
  "parseField field low 23 names = Done bits \<Longrightarrow> fits bits 23"
  "parseField field low 31 names = Done bits \<Longrightarrow> fits bits 31"
  "parseField field low 12 names = Done bits \<Longrightarrow> fits bits 12"
  "parseField field low 7 names = Done bits \<Longrightarrow> fits bits 7"
  using fits_field [of field low 59] fits_field [of field low 23] fits_field [of field low 31]
    fits_field [of field low 12] fits_field [of field low 7] by simp_all

lemma fits_0 [simp]: "fits 0 n"
  by (simp add: fits_def)

lemma Parse_well_formed: "Parse order e = Done s \<Longrightarrow> well_formed s"
  using fits_fields
  by (auto simp: Parse_def well_formed_def Let_def split: if_splits option.splits)

lemma Parse_no_crash: "Parse order e \<noteq> Crash"
  by (auto simp: Parse_def Let_def parseField_total parseYears_def year_parts_total split: option.splits)


text \<open>What one part covers, and what a list of parts does.\<close>

definition covers :: "int \<times> int \<times> int \<Rightarrow> int \<Rightarrow> bool" where
  "covers r n = (case r of (a, b, step) \<Rightarrow> a \<le> n \<and> n \<le> b \<and> (n - a) mod step = 0)"

definition part_covers :: "int \<Rightarrow> int \<Rightarrow> (string \<times> int) list \<Rightarrow> string \<Rightarrow> int \<Rightarrow> bool" where
  "part_covers low high names part n =
     (case parseRange part low high names of Done r \<Rightarrow> covers r n | _ \<Rightarrow> False)"

definition small_step :: "int \<Rightarrow> int \<Rightarrow> (string \<times> int) list \<Rightarrow> string \<Rightarrow> bool" where
  "small_step low high names part =
     (case parseRange part low high names of Done (a, b, step) \<Rightarrow> high + step < 2 ^ 63 | _ \<Rightarrow> True)"

lemma step_values_covers:
  assumes "0 \<le> a" "b + step < 2 ^ 63" "a \<le> b" "1 \<le> step"
  shows "\<exists>vs. step_values a b step = Some vs \<and> (\<forall>x. x \<in> set vs \<longleftrightarrow> covers (a, b, step) x)"
  using loop_values_progression [of step b a "loop_fuel b"] assms
  by (simp add: step_values_def covers_def loop_fuel_def)

lemma covers_upper: "covers (a, b, step) x \<Longrightarrow> x \<le> b"
  by (simp add: covers_def)

lemma field_parts_covers:
  "0 \<le> low \<Longrightarrow> high < 64 \<Longrightarrow> list_all (small_step low high names) parts \<Longrightarrow>
   field_parts parts low high names bits = Done bits' \<Longrightarrow>
   bit bits' n \<longleftrightarrow> bit bits n \<or> list_ex (\<lambda>p. part_covers low high names p (int n)) parts"
proof (induction parts arbitrary: bits)
  case (Cons part parts)
  from Cons.prems(4) obtain a b step where r: "parseRange part low high names = Done (a, b, step)" by auto
  note rd = parseRange_Done [OF r]
  have "b + step < 2 ^ 63" using Cons.prems(3) r rd by (simp add: small_step_def)
  moreover have "0 \<le> a" "a \<le> b" "1 \<le> step" using rd Cons.prems(1) by linarith+
  ultimately obtain vs where
    vs: "step_values a b step = Some vs" "\<And>x. x \<in> set vs \<longleftrightarrow> covers (a, b, step) x"
    using step_values_covers by blast
  have "n < 64 \<and> int n \<in> set vs \<longleftrightarrow> part_covers low high names part (int n)"
  proof -
    have "covers (a, b, step) (int n) \<Longrightarrow> n < 64" using covers_upper [of a b step "int n"] rd Cons.prems(2) by linarith
    moreover have "part_covers low high names part (int n) \<longleftrightarrow> covers (a, b, step) (int n)"
      by (simp only: part_covers_def r outcome.case)
    ultimately show ?thesis using vs(2) by blast
  qed
  moreover have "field_parts parts low high names (set_bits vs bits) = Done bits'"
    using Cons.prems(4) r vs(1) by simp
  ultimately show ?case
    using Cons.IH [of "set_bits vs bits"] Cons.prems(1-3) by (simp add: bit_set_bits disj_assoc)
qed simp

text \<open>Property C18: a field holds exactly the values its parts list. While no step comes within \<open>high\<close> of
  the largest \<open>int\<close>, value \<open>n\<close> is set iff some part of the comma list covers it: a range from \<open>a\<close> to
  \<open>b\<close> of which \<open>n\<close> is a whole number of steps in.\<close>

theorem field_holds_what_its_parts_cover:
  assumes "0 \<le> low" "high < 64" "parseField field low high names = Done bits"
    and "list_all (small_step low high names) (split_on CHR '','' field)"
  shows "bit bits n \<longleftrightarrow> list_ex (\<lambda>p. part_covers low high names p (int n)) (split_on CHR '','' field)"
  using field_parts_covers [OF assms(1,2,4)] assms(3) by (simp add: parseField_def)

lemma demo_numbers:
  "atoi ''10'' = Some 10" "atoi ''50'' = Some 50" "atoi ''20'' = Some 20" "atoi ''7'' = Some 7" "atoi ''5'' = Some 5"
  "atoi ''9223372036854775807'' = Some 9223372036854775807"
  by (simp_all add: atoi_def is_digit_def)

lemma demo_ranges:
  "parseRange ''10-50/20'' 0 59 [] = Done (10, 50, 20)" "parseRange ''7'' 0 59 [] = Done (7, 7, 1)"
  "parseRange ''5/9223372036854775807'' 0 59 [] = Done (5, 59, 9223372036854775807)"
  by (simp_all add: parseRange_def range_step_def range_ends_def parseValue_def demo_numbers del: obind_Done_iff)

lemma demo_loops:
  "step_values 10 50 20 = Some [10, 30, 50]" "step_values 7 7 1 = Some [7]"
  "step_values 5 59 9223372036854775807 = Some [5, -9223372036854775804, 3, -9223372036854775806, 1, -9223372036854775808, -1]"
  by (simp_all add: step_values_def loop_fuel_def eval_nat_numeral wrap64_def)

theorem field_holds_what_its_parts_cover_witness:
  "parseField ''10-50/20,7'' 0 59 [] = Done (set_bits [10, 30, 50, 7] 0) \<and> bit (set_bits [10, 30, 50, 7] 0) 30"
proof -
  have parts: "split_on CHR '','' ''10-50/20,7'' = [''10-50/20'', ''7'']" by simp
  have field: "parseField ''10-50/20,7'' 0 59 [] = Done (set_bits [10, 30, 50, 7] 0)"
    unfolding parseField_def parts by (simp add: demo_ranges demo_loops set_bits_def)
  have "list_all (small_step 0 59 []) (split_on CHR '','' ''10-50/20,7'')"
    unfolding parts by (simp add: small_step_def demo_ranges)
  from field_holds_what_its_parts_cover [OF _ _ field this, of 30] field show ?thesis
    unfolding parts by (simp add: part_covers_def demo_ranges covers_def)
qed


end
