(* ===== verification/CronNext.thy ===== *)
theory CronNext
  imports CronParse
begin

text \<open>
  \<open>internal/cron\<close>, \<open>Next\<close>: the first instant after a given one when a schedule fires in a zone. The
  scan goes day by day for \<open>searchDays\<close> days from the local midnight, hour by hour and minute by
  minute. \<open>fires\<close> says when a schedule fires without any scan.
\<close>

section \<open>The scan\<close>

text \<open>\<open>set & (1 << uint(v)) != 0\<close>\<close>

definition has_bit :: "64 word \<Rightarrow> int \<Rightarrow> bool" where
  "has_bit bits v \<longleftrightarrow> and bits (one_bit v) \<noteq> 0"

definition searchDays :: nat where "searchDays = 366 * 5"

fun first_some :: "('a \<Rightarrow> 'b option) \<Rightarrow> 'a list \<Rightarrow> 'b option" where
  "first_some f [] = None"
| "first_some f (x # xs) = (case f x of Some y \<Rightarrow> Some y | None \<Rightarrow> first_some f xs)"

definition day_allowed :: "Schedule \<Rightarrow> zone \<Rightarrow> int \<times> int \<times> int \<Rightarrow> bool" where
  "day_allowed s off ymd =
     (case ymd of (year, month, day) \<Rightarrow>
        if (case sc_years s of None \<Rightarrow> False | Some ys \<Rightarrow> year \<notin> set ys) \<or> \<not> has_bit (sc_months s) month then False
        else (let wd = weekday (civil_day (local off (go_date off year month day 12 0 0)))
              in \<not> (sc_byDayOfMonth s \<and> \<not> has_bit (sc_daysOfMonth s) day \<or>
                    \<not> sc_byDayOfMonth s \<and> \<not> has_bit (sc_weeks s) (wd + 1))))"

definition candidate :: "Schedule \<Rightarrow> zone \<Rightarrow> int \<Rightarrow> int \<times> int \<times> int \<Rightarrow> int \<Rightarrow> int \<Rightarrow> int option" where
  "candidate s off after ymd h mi =
     (case ymd of (year, month, day) \<Rightarrow>
        let u = go_date off year month day h mi (sc_second s); l = local off u
        in if snd (snd (civil (civil_day l))) \<noteq> day \<or> hour l \<noteq> h \<or> minute l \<noteq> mi then None
           else if after < u * 10 ^ 9 then Some (u * 10 ^ 9) else None)"

definition scan_day :: "Schedule \<Rightarrow> zone \<Rightarrow> int \<Rightarrow> int \<times> int \<times> int \<Rightarrow> int option" where
  "scan_day s off after ymd =
     (if \<not> day_allowed s off ymd then None
      else first_some (\<lambda>h. if \<not> has_bit (sc_hours s) (int h) then None
        else first_some (\<lambda>mi. if \<not> has_bit (sc_minutes s) (int mi) then None
          else candidate s off after ymd (int h) (int mi)) [0..<60]) [0..<24])"

definition Next :: "Schedule \<Rightarrow> zone \<Rightarrow> int \<Rightarrow> int option" where
  "Next s off after =
     (let l = local off (after div 10 ^ 9);
          start = (case civil (civil_day l) of (y, m, d) \<Rightarrow> go_date off y m d 0 0 0)
      in first_some (\<lambda>k. scan_day s off after (civil (civil_day (local off (add_date off start (int k))))))
           [0..<searchDays])"

section \<open>When a schedule fires\<close>

definition day_fits :: "Schedule \<Rightarrow> int \<Rightarrow> bool" where
  "day_fits s n =
     (case civil n of (year, month, day) \<Rightarrow>
        (case sc_years s of None \<Rightarrow> True | Some ys \<Rightarrow> year \<in> set ys) \<and> has_bit (sc_months s) month \<and>
        (if sc_byDayOfMonth s then has_bit (sc_daysOfMonth s) day else has_bit (sc_weeks s) (weekday n + 1)))"

definition fires :: "Schedule \<Rightarrow> zone \<Rightarrow> int \<Rightarrow> bool" where
  "fires s off t =
     (let l = local off (t div 10 ^ 9)
      in t mod 10 ^ 9 = 0 \<and> second l = sc_second s \<and> has_bit (sc_minutes s) (minute l) \<and>
         has_bit (sc_hours s) (hour l) \<and> day_fits s (civil_day l))"

definition local_day :: "zone \<Rightarrow> int \<Rightarrow> int" where
  "local_day off t = civil_day (local off (t div 10 ^ 9))"

section \<open>One loop instead of three\<close>

lemma first_some_append: "first_some f (xs @ ys) = (case first_some f xs of Some y \<Rightarrow> Some y | None \<Rightarrow> first_some f ys)"
  by (induction xs) (auto split: option.splits)

lemma first_some_concat: "first_some f (concat xss) = first_some (first_some f) xss"
  by (induction xss) (auto simp: first_some_append split: option.splits)

lemma first_some_map: "first_some f (map g xs) = first_some (\<lambda>x. f (g x)) xs"
  by (induction xs) (auto split: option.splits)

lemma first_some_cong: "(\<And>x. x \<in> set xs \<Longrightarrow> f x = g x) \<Longrightarrow> first_some f xs = first_some g xs"
  by (induction xs) (auto split: option.splits)

lemma first_some_None: "first_some f xs = None \<longleftrightarrow> (\<forall>x \<in> set xs. f x = None)"
  by (induction xs) (auto split: option.splits)

lemma first_some_upt_aux: "first_some f [0..<n] = Some z \<Longrightarrow> \<exists>i < n. f i = Some z \<and> (\<forall>j < i. f j = None)"
  by (induction n) (auto simp: first_some_append first_some_None less_Suc_eq split: option.splits)

lemma first_some_upt:
  "first_some f [0..<n] = Some y \<longleftrightarrow> (\<exists>i < n. f i = Some y \<and> (\<forall>j < i. f j = None))"
proof
  assume "\<exists>i < n. f i = Some y \<and> (\<forall>j < i. f j = None)"
  then obtain i where i: "i < n" "f i = Some y" "\<forall>j < i. f j = None" by blast
  then have "first_some f [0..<n] \<noteq> None" by (auto simp: first_some_None)
  then obtain z where z: "first_some f [0..<n] = Some z" by blast
  from first_some_upt_aux [OF z] obtain k where k: "f k = Some z" "\<forall>j < k. f j = None" by blast
  have "\<not> k < i" "\<not> i < k" using i k by auto
  with i k z show "first_some f [0..<n] = Some y" by (metis linorder_neqE_nat)
qed (rule first_some_upt_aux)

text \<open>\<open>n\<close> rounds of \<open>k\<close> rounds each are \<open>n * k\<close> rounds.\<close>

lemma first_some_nested:
  assumes "0 < k"
  shows "first_some (\<lambda>a. first_some (f a) [0..<k]) [0..<n] = first_some (\<lambda>i. f (i div k) (i mod k)) [0..<n * k]"
proof (induction n)
  case (Suc n)
  have "[0..<Suc n * k] = [0..<n * k] @ map (\<lambda>b. n * k + b) [0..<k]"
    using upt_add_eq_append [of 0 "n * k" k] map_add_upt [of "n * k" k] by (simp add: add.commute)
  moreover have "first_some (\<lambda>i. f (i div k) (i mod k)) (map (\<lambda>b. n * k + b) [0..<k]) = first_some (f n) [0..<k]"
    unfolding first_some_map using assms by (intro first_some_cong) simp
  ultimately show ?case using Suc by (simp add: first_some_append split: option.split)
qed simp

lemma first_some_if: "first_some (\<lambda>x. if P then f x else None) xs = (if P then first_some f xs else None)"
  by (induction xs) (auto split: option.splits)

section \<open>Zones with one offset\<close>

lemma of_civil_fixed: "of_civil (\<lambda>_. off) c = c - off"
  by (simp add: of_civil_def)

lemma local_fixed: "local (\<lambda>_. off) u = u + off"
  by (simp add: local_def)

lemma has_bit_iff: "has_bit bits v \<longleftrightarrow> 0 \<le> v \<and> v < 64 \<and> bit bits (nat v)"
proof
  assume "has_bit bits v"
  then obtain n where "bit (and bits (one_bit v)) n" unfolding has_bit_def by (metis bit_eq_iff bit_0_eq bot_apply bot_bool_def)
  then show "0 \<le> v \<and> v < 64 \<and> bit bits (nat v)" by (auto simp: bit_and_iff bit_one_bit)
next
  assume v: "0 \<le> v \<and> v < 64 \<and> bit bits (nat v)"
  then have "bit (and bits (one_bit v)) (nat v)" by (simp add: bit_and_iff bit_one_bit nat_less_iff)
  then show "has_bit bits v" unfolding has_bit_def by auto
qed

text \<open>The \<open>i\<close>th minute the scan looks at.\<close>

definition slot :: "Schedule \<Rightarrow> int \<Rightarrow> int \<Rightarrow> nat \<Rightarrow> int" where
  "slot s off n i = n * 86400 + 60 * int i + sc_second s - off"

lemma slot_fields:
  assumes "0 \<le> sc_second s" "sc_second s < 60" "l = slot s off n i + off"
  shows "civil_day l = n + int (i div 1440)" "hour l = int (i mod 1440 div 60)" "minute l = int (i mod 1440 mod 60)"
    "second l = sc_second s"
proof -
  obtain a b c where abc: "i div 1440 = a" "i mod 1440 div 60 = b" "i mod 1440 mod 60 = c" by blast
  have "i = i div 1440 * 1440 + i mod 1440" "i mod 1440 = i mod 1440 div 60 * 60 + i mod 1440 mod 60"
    by (simp_all only: div_mult_mod_eq)
  then have i: "i = a * 1440 + b * 60 + c" unfolding abc by linarith
  have "i mod 1440 < 1440" "c < 60" unfolding abc(3) [symmetric] by simp_all
  then have "b < 24" unfolding abc(2) [symmetric] by (intro less_mult_imp_div_less) simp
  have "l = (n + int a) * 86400 + int b * 3600 + int c * 60 + sc_second s"
    using assms(3) i by (simp add: slot_def algebra_simps)
  from clock_fields [OF _ _ _ _ assms(1,2) this] \<open>b < 24\<close> \<open>c < 60\<close>
  show "civil_day l = n + int (i div 1440)" "hour l = int (i mod 1440 div 60)" "minute l = int (i mod 1440 mod 60)"
    "second l = sc_second s" unfolding abc by simp_all
qed

lemma slot_of:
  assumes "0 \<le> sc_second s" "sc_second s < 60" "second (u + off) = sc_second s"
    and "n \<le> civil_day (u + off)" "civil_day (u + off) < n + int k"
  shows "\<exists>i < k * 1440. u = slot s off n i"
proof -
  let ?l = "u + off"
  define d h mi where "d = civil_day ?l - n" and "h = hour ?l" and "mi = minute ?l"
  have b: "0 \<le> h" "h < 24" "0 \<le> mi" "mi < 60"
    unfolding h_def mi_def by (rule clock_ranges)+
  have l: "?l = (n + d) * 86400 + h * 3600 + mi * 60 + sc_second s"
    using clock_split [of ?l] assms(3) by (simp add: d_def h_def mi_def)
  let ?i = "d * 1440 + h * 60 + mi"
  have d: "0 \<le> d" "d < int k" using assms by (simp_all add: d_def)
  have "0 \<le> ?i" "?i < int k * 1440" using b d by linarith+
  then have "nat ?i < k * 1440" "u = slot s off n (nat ?i)" using l by (simp_all add: slot_def)
  then show ?thesis by blast
qed


lemma day_allowed_fixed: "day_allowed s (\<lambda>_. off) (civil n) \<longleftrightarrow> day_fits s n"
proof -
  obtain y m d where c: "civil n = (y, m, d)" by (metis prod_cases3)
  have "local (\<lambda>_. off) (go_date (\<lambda>_. off) y m d 12 0 0) = n * 86400 + 12 * 3600 + 0 * 60 + 0"
    using day_number_civil [OF c] by (simp add: local_fixed go_date_def of_civil_fixed)
  from clock_fields(1) [OF _ _ _ _ _ _ this] have "civil_day (local (\<lambda>_. off) (go_date (\<lambda>_. off) y m d 12 0 0)) = n" by simp
  then show ?thesis by (auto simp: day_allowed_def day_fits_def c Let_def split: option.splits)
qed

lemma candidate_fixed:
  assumes "0 \<le> sc_second s" "sc_second s < 60" "0 \<le> h" "h < 24" "0 \<le> mi" "mi < 60"
  shows "candidate s (\<lambda>_. off) after (civil n) h mi =
    (let u = n * 86400 + h * 3600 + mi * 60 + sc_second s - off in if after < u * 10 ^ 9 then Some (u * 10 ^ 9) else None)"
proof -
  obtain y m d where c: "civil n = (y, m, d)" by (metis prod_cases3)
  let ?c = "n * 86400 + h * 3600 + mi * 60 + sc_second s"
  have u: "go_date (\<lambda>_. off) y m d h mi (sc_second s) = ?c - off"
    using day_number_civil [OF c] by (simp add: go_date_def of_civil_fixed)
  have "local (\<lambda>_. off) (?c - off) = ?c" by (simp add: local_fixed)
  with clock_fields [OF assms(3-6,1,2) refl, of n] c u show ?thesis
    by (simp add: candidate_def Let_def)
qed

text \<open>With one offset the three loops are one scan over the minutes.\<close>

definition scan_slot :: "Schedule \<Rightarrow> int \<Rightarrow> int \<Rightarrow> int \<Rightarrow> nat \<Rightarrow> int option" where
  "scan_slot s off after n i =
     (let t = slot s off n i * 10 ^ 9 in if after < t \<and> fires s (\<lambda>_. off) t then Some t else None)"

lemma Next_fixed:
  assumes "0 \<le> sc_second s" "sc_second s < 60"
  shows "Next s (\<lambda>_. off) after =
    first_some (scan_slot s off after (local_day (\<lambda>_. off) after)) [0..<searchDays * 24 * 60]"
proof -
  let ?n = "local_day (\<lambda>_. off) after"
  obtain y m d where c: "civil ?n = (y, m, d)" by (metis prod_cases3)
  let ?start = "go_date (\<lambda>_. off) y m d 0 0 0"
  have start: "local (\<lambda>_. off) ?start = ?n * 86400"
    using day_number_civil [OF c] by (simp add: local_fixed go_date_def of_civil_fixed)
  have day: "civil_day (local (\<lambda>_. off) (add_date (\<lambda>_. off) ?start (int k))) = ?n + int k" for k
    unfolding add_date_civil unfolding start unfolding of_civil_fixed local_fixed
    by (rule clock_fields(1) [of 0 0 0]) (simp_all add: algebra_simps)
  define g where "g k h mi = (if day_fits s (?n + int k) \<and> has_bit (sc_hours s) (int h) \<and> has_bit (sc_minutes s) (int mi)
     then candidate s (\<lambda>_. off) after (civil (?n + int k)) (int h) (int mi) else None)" for k h mi
  have none: "first_some (\<lambda>x. None) xs = None" for xs :: "nat list" by (simp add: first_some_None)
  have hour: "(if \<not> has_bit (sc_hours s) (int h) then None
        else first_some (\<lambda>mi. if \<not> has_bit (sc_minutes s) (int mi) then None
          else candidate s (\<lambda>_. off) after (civil (?n + int k)) (int h) (int mi)) [0..<60]) = first_some (g k h) [0..<60]"
    if "day_fits s (?n + int k)" for k h
  proof (cases "has_bit (sc_hours s) (int h)")
    case True
    then show ?thesis unfolding g_def using that by (simp only: simp_thms if_True if_False) (intro first_some_cong, simp)
  next
    case False
    then have "g k h = (\<lambda>mi. None)" by (simp add: g_def fun_eq_iff)
    with False show ?thesis by (simp only: none simp_thms if_True)
  qed
  have "scan_day s (\<lambda>_. off) after (civil (?n + int k)) = first_some (\<lambda>h. first_some (g k h) [0..<60]) [0..<24]" for k
  proof (cases "day_fits s (?n + int k)")
    case True
    then show ?thesis unfolding scan_day_def day_allowed_fixed using hour [OF True] by (simp only: simp_thms if_False)
  next
    case False
    then have "g k = (\<lambda>h mi. None)" by (simp add: g_def fun_eq_iff)
    with False show ?thesis unfolding scan_day_def day_allowed_fixed by (simp only: none simp_thms if_True)
  qed
  then have "Next s (\<lambda>_. off) after = first_some (\<lambda>k. first_some (\<lambda>h. first_some (g k h) [0..<60]) [0..<24]) [0..<searchDays]"
    by (simp only: Next_def Let_def local_day_def [symmetric] c prod.case day)
  also have "\<dots> = first_some (\<lambda>k. first_some (\<lambda>j. g k (j div 60) (j mod 60)) [0..<24 * 60]) [0..<searchDays]"
    by (simp only: first_some_nested zero_less_numeral)
  also have "\<dots> = first_some (\<lambda>i. g (i div (24 * 60)) (i mod (24 * 60) div 60) (i mod (24 * 60) mod 60)) [0..<searchDays * (24 * 60)]"
    by (rule first_some_nested [where f = "\<lambda>k j. g k (j div 60) (j mod 60)"]) simp
  also have "\<dots> = first_some (scan_slot s off after ?n) [0..<searchDays * (24 * 60)]"
  proof (rule first_some_cong)
    fix i :: nat
    let ?k = "i div 1440" and ?h = "i mod 1440 div 60" and ?mi = "i mod 1440 mod 60"
    let ?u = "slot s off ?n i"
    note fields = slot_fields [OF assms refl, of off ?n i]
    have "candidate s (\<lambda>_. off) after (civil (?n + int ?k)) (int ?h) (int ?mi) =
       (if after < ?u * 10 ^ 9 then Some (?u * 10 ^ 9) else None)"
      using clock_ranges [of "?u + off"] clock_split [of "?u + off"] unfolding fields
      by (subst candidate_fixed [OF assms]) (simp_all add: Let_def algebra_simps)
    then show "g (i div (24 * 60)) (i mod (24 * 60) div 60) (i mod (24 * 60) mod 60) = scan_slot s off after ?n i"
      by (auto simp: g_def scan_slot_def Let_def fires_def local_fixed fields)
  qed
  finally show ?thesis by (simp add: mult.assoc)
qed


text \<open>Property C9: in a zone with one offset \<open>Next\<close> answers the first firing after the given instant. For
  any schedule \<open>Parse\<close> accepts, an answer is an instant when the schedule fires, later than \<open>after\<close>,
  with no firing in between; without an answer the schedule does not fire between \<open>after\<close> and the
  end of the \<open>searchDays\<close> local days that begin with the day of \<open>after\<close>.\<close>

theorem next_is_the_first_firing:
  assumes "Parse order e = Done s"
  shows "case Next s (\<lambda>_. off) after of
      Some t \<Rightarrow> after < t \<and> fires s (\<lambda>_. off) t \<and> (\<forall>u. after < u \<and> u < t \<longrightarrow> \<not> fires s (\<lambda>_. off) u)
    | None \<Rightarrow> \<forall>u. after < u \<and> local_day (\<lambda>_. off) u < local_day (\<lambda>_. off) after + int searchDays \<longrightarrow>
        \<not> fires s (\<lambda>_. off) u"
proof -
  have sec: "0 \<le> sc_second s" "sc_second s < 60" using Parse_well_formed [OF assms] by (auto simp: well_formed_def)
  let ?n = "local_day (\<lambda>_. off) after"
  have mono: "?n \<le> local_day (\<lambda>_. off) u" if "after < u" for u
    using that by (simp add: local_day_def local_fixed civil_day_def zdiv_mono1)
  have found: "\<exists>i < searchDays * 24 * 60. u = slot s off ?n i * 10 ^ 9 \<and> scan_slot s off after ?n i = Some u"
    if u: "after < u" "fires s (\<lambda>_. off) u" "local_day (\<lambda>_. off) u < ?n + int searchDays" for u
  proof -
    have w: "u = u div 10 ^ 9 * 10 ^ 9" "second (u div 10 ^ 9 + off) = sc_second s"
      using u(2) div_mult_mod_eq [of u "10 ^ 9"] by (simp_all add: fires_def Let_def local_fixed)
    have "?n \<le> civil_day (u div 10 ^ 9 + off)" "civil_day (u div 10 ^ 9 + off) < ?n + int searchDays"
      using mono [OF u(1)] u(3) by (simp_all add: local_day_def local_fixed)
    from slot_of [OF sec w(2) this] obtain i where i: "i < searchDays * 1440" "u div 10 ^ 9 = slot s off ?n i" by blast
    with w(1) have "u = slot s off ?n i * 10 ^ 9" by simp
    then have "scan_slot s off after ?n i = Some u" using u unfolding scan_slot_def Let_def by (simp only: simp_thms if_True)
    moreover have "i < searchDays * 24 * 60" using i(1) by simp
    ultimately show ?thesis using \<open>u = slot s off ?n i * 10 ^ 9\<close> by blast
  qed
  show ?thesis
  proof (cases "Next s (\<lambda>_. off) after")
    case None
    then have none: "\<forall>i < searchDays * 24 * 60. scan_slot s off after ?n i = None"
      by (simp add: Next_fixed [OF sec] first_some_None)
    have "\<not> fires s (\<lambda>_. off) u" if "after < u" "local_day (\<lambda>_. off) u < ?n + int searchDays" for u
      using found [OF that(1) _ that(2)] none by fastforce
    with None show ?thesis by simp
  next
    case (Some t)
    then obtain i where i: "i < searchDays * 24 * 60" "scan_slot s off after ?n i = Some t"
      "\<forall>j < i. scan_slot s off after ?n j = None"
      by (auto simp: Next_fixed [OF sec] first_some_upt)
    then have t: "t = slot s off ?n i * 10 ^ 9" "after < t" "fires s (\<lambda>_. off) t"
      by (auto simp: scan_slot_def Let_def split: if_splits)
    have "False" if u: "after < u" "u < t" "fires s (\<lambda>_. off) u" for u
    proof -
      have "local_day (\<lambda>_. off) t < ?n + int searchDays"
      proof -
        have "local_day (\<lambda>_. off) t = ?n + int (i div 1440)"
          using slot_fields(1) [OF sec refl, of off ?n i] by (simp add: local_day_def local_fixed t(1))
        moreover have "i div 1440 < searchDays" using i(1) by (intro less_mult_imp_div_less) simp
        ultimately show ?thesis by simp
      qed
      moreover have "local_day (\<lambda>_. off) u \<le> local_day (\<lambda>_. off) t"
        using u(2) by (simp add: local_day_def local_fixed civil_day_def zdiv_mono1)
      ultimately have "local_day (\<lambda>_. off) u < ?n + int searchDays" by linarith
      from found [OF u(1,3) this] obtain j where j: "u = slot s off ?n j * 10 ^ 9" "scan_slot s off after ?n j = Some u" by blast
      then have "\<not> j < i" using i(3) by auto
      then have "slot s off ?n i \<le> slot s off ?n j" by (simp add: slot_def)
      with u(2) t(1) j(1) show False by simp
    qed
    with Some t show ?thesis by auto
  qed
qed

section \<open>Any zone\<close>

lemma first_some_SomeD: "first_some f xs = Some y \<Longrightarrow> \<exists>x \<in> set xs. f x = Some y"
  by (induction xs) (auto split: option.splits)

lemma near_day:
  assumes "l = n * 86400 + 43200 + d" "\<bar>d\<bar> < 43200"
  shows "civil_day l = n"
proof -
  have "l = 86400 * n + (43200 + d)" using assms(1) by simp
  from div_mod_unique [OF this] assms(2) show ?thesis by (simp add: civil_day_def)
qed

lemma local_of_civil: "local off (of_civil off c) = c + (off (of_civil off c) - off (c - off c))"
  by (simp add: local_def of_civil_def)

lemma candidate_fires:
  assumes "0 \<le> sc_second s" "sc_second s < 60" "\<forall>u. off u mod 60 = 0" "\<forall>u v. \<bar>off u - off v\<bar> < 43200"
    and "day_allowed s off (civil n)" "has_bit (sc_hours s) h" "has_bit (sc_minutes s) mi"
    and "candidate s off after (civil n) h mi = Some t"
  shows "after < t \<and> fires s off t"
proof -
  obtain y m d where c: "civil n = (y, m, d)" by (metis prod_cases3)
  note n = day_number_civil [OF c]
  let ?c = "n * 86400 + h * 3600 + mi * 60 + sc_second s"
  define u where "u = of_civil off ?c"
  have t: "t = u * 10 ^ 9" "after < t" "hour (local off u) = h" "minute (local off u) = mi"
    using assms(8) by (auto simp: candidate_def c Let_def go_date_def n u_def split: if_splits)
  let ?l = "local off u" and ?e = "off u - off (?c - off ?c)"
  have l: "?l = ?c + ?e" unfolding u_def by (rule local_of_civil)
  have "?e mod 60 = 0" using assms(3) mod_diff_eq [of "off u" 60 "off (?c - off ?c)"] by simp
  then have "?l mod 60 = ?c mod 60" unfolding l by (simp add: mod_add_eq [symmetric])
  also have "?c mod 60 = sc_second s"
    using div_mod_unique [of ?c 60 "n * 1440 + h * 60 + mi" "sc_second s"] assms(1,2) by simp
  finally have sec: "second ?l = sc_second s" by (simp add: second_def)
  have "?e = (civil_day ?l - n) * 86400" using clock_split [of ?l] t(3,4) sec l by simp
  moreover have "\<bar>?e\<bar> < 43200" using assms(4) by blast
  ultimately have day: "civil_day ?l = n" by simp
  let ?w = "n * 86400 + 12 * 3600 + 0 * 60 + 0"
  have "local off (of_civil off ?w) = n * 86400 + 43200 + (off (of_civil off ?w) - off (?w - off ?w))"
    unfolding local_of_civil by simp
  from near_day [OF this] assms(4) have "civil_day (local off (of_civil off ?w)) = n" by blast
  then have "civil_day (local off (go_date off y m d 12 0 0)) = n" by (simp only: go_date_def n)
  with assms(5) have "day_fits s n"
    by (auto simp: day_allowed_def day_fits_def c Let_def split: option.splits if_splits)
  with t sec day assms(6,7) show ?thesis by (simp add: fires_def Let_def)
qed


section \<open>A day that begins with a clock change\<close>

lemma first_some_only: "a < n \<Longrightarrow> first_some (\<lambda>h. if h \<noteq> a then None else f h) [0..<n] = f a"
proof (cases "f a")
  case None
  then show "a < n \<Longrightarrow> ?thesis" by (auto simp: first_some_None)
next
  case (Some y)
  then show "a < n \<Longrightarrow> ?thesis" by (auto simp: first_some_upt intro!: exI [of _ a])
qed

definition daily_at_nine :: Schedule where
  "daily_at_nine = \<lparr>sc_second = 0, sc_minutes = set_bits [0] 0, sc_hours = set_bits [9] 0,
     sc_daysOfMonth = set_bits [1..31] 0, sc_months = set_bits [1..12] 0, sc_weeks = 0, sc_years = None,
     sc_byDayOfMonth = True\<rparr>"

text \<open>Chile's zone around the start of summer time, at midnight of 8 September 2024.\<close>

definition santiago :: zone where
  "santiago u = (if u < 1725768000 then - 14400 else - 10800)"

lemma parse_numbers: "atoi ''0'' = Some 0" "atoi ''9'' = Some 9"
  by (simp_all add: atoi_def is_digit_def)

lemma parse_parts:
  "parseRange ''0'' 0 59 [] = Done (0, 0, 1)" "parseRange ''9'' 0 23 [] = Done (9, 9, 1)"
  "parseRange ''*'' 1 31 [] = Done (1, 31, 1)" "parseRange ''*'' 1 12 monthNames = Done (1, 12, 1)"
  by (simp_all add: parseRange_def range_step_def range_ends_def parseValue_def parse_numbers del: obind_Done_iff)

lemma parse_loops:
  "step_values 0 0 1 = Some [0]" "step_values 9 9 1 = Some [9]" "step_values 1 31 1 = Some [1..31]"
  "step_values 1 12 1 = Some [1..12]"
  by (simp_all add: step_values_def loop_fuel_def eval_nat_numeral wrap64_def upto_rec1)

lemma daily_fields: "go_fields ''0 0 9 * * ?'' = [''0'', ''0'', ''9'', ''*'', ''*'', ''?'']"
  by (simp add: go_fields_def fields_from.simps ascii_space_def wide_space_def)

lemma daily_parses: "Parse ([], []) ''0 0 9 * * ?'' = Done daily_at_nine"
  by (simp add: Parse_def daily_fields Let_def contains_any_def upper_char_def parse_numbers parseField_def parse_parts
      parse_loops daily_at_nine_def del: obind_Done_iff)

lemma set_bits_has_bit: "has_bit (set_bits vs 0) v \<longleftrightarrow> 0 \<le> v \<and> v < 64 \<and> v \<in> set vs"
  by (auto simp: has_bit_iff bit_set_bits)

lemma scan_daily:
  "scan_day daily_at_nine off after (y, m, d) =
     (if 1 \<le> m \<and> m \<le> 12 \<and> 1 \<le> d \<and> d \<le> 31 then candidate daily_at_nine off after (y, m, d) 9 0 else None)"
proof -
  have "day_allowed daily_at_nine off (y, m, d) \<longleftrightarrow> 1 \<le> m \<and> m \<le> 12 \<and> 1 \<le> d \<and> d \<le> 31"
    by (auto simp: day_allowed_def daily_at_nine_def set_bits_has_bit)
  moreover have "has_bit (sc_hours daily_at_nine) (int h) = (h = 9)" "has_bit (sc_minutes daily_at_nine) (int h) = (h = 0)" for h
    by (auto simp: daily_at_nine_def set_bits_has_bit)
  ultimately show ?thesis by (simp only: scan_day_def first_some_only zero_less_numeral numeral_less_iff semiring_norm of_nat_0 of_nat_numeral) simp
qed

lemma santiago_dates:
  "civil 19973 = (2024, 9, 7)" "civil 19974 = (2024, 9, 8)" "civil 19975 = (2024, 9, 9)"
  "day_number 2024 9 7 = 19973" "day_number 2024 9 9 = 19975"
  by code_simp+

lemma next_in_santiago: "Next daily_at_nine santiago (1725724800 * 10 ^ 9) = Some (1725883200 * 10 ^ 9)"
proof -
  define start where "start = go_date santiago 2024 9 7 0 0 0"
  have start: "start = 1725681600" by (simp add: start_def go_date_def santiago_dates of_civil_def santiago_def)
  have now: "civil (civil_day (local santiago (1725724800 * 10 ^ 9 div 10 ^ 9))) = (2024, 9, 7)"
    by (simp add: local_def santiago_def civil_day_def santiago_dates)
  have days: "civil (civil_day (local santiago (add_date santiago start (int 0)))) = (2024, 9, 7)"
    "civil (civil_day (local santiago (add_date santiago start (int 1)))) = (2024, 9, 7)"
    "civil (civil_day (local santiago (add_date santiago start (int 2)))) = (2024, 9, 9)"
    unfolding add_date_civil start by (simp_all add: local_def of_civil_def santiago_def civil_day_def santiago_dates)
  have cands: "candidate daily_at_nine santiago (1725724800 * 10 ^ 9) (2024, 9, 7) 9 0 = None"
    "candidate daily_at_nine santiago (1725724800 * 10 ^ 9) (2024, 9, 9) 9 0 = Some (1725883200 * 10 ^ 9)"
    by (simp_all add: candidate_def Let_def daily_at_nine_def go_date_def santiago_dates of_civil_def santiago_def local_def
        civil_day_def hour_def minute_def)
  have "[0..<n] = 0 # 1 # 2 # [3..<n]" if "3 \<le> n" for n using that by (simp add: upt_conv_Cons numeral_3_eq_3)
  then have scan: "[0..<searchDays] = 0 # 1 # 2 # [3..<searchDays]" by (simp add: searchDays_def)
  show ?thesis
    unfolding Next_def Let_def now prod.case start_def [symmetric] scan
    by (simp only: first_some.simps days scan_daily cands) simp
qed



theorem next_is_the_first_firing_witness:
  "case Next daily_at_nine (\<lambda>_. 0) 0 of Some t \<Rightarrow> 0 < t \<and> fires daily_at_nine (\<lambda>_. 0) t
     | None \<Rightarrow> \<not> fires daily_at_nine (\<lambda>_. 0) (32400 * 10 ^ 9)"
proof (cases "Next daily_at_nine (\<lambda>_. 0) 0")
  case None
  have "local_day (\<lambda>_. 0) (32400 * 10 ^ 9) < local_day (\<lambda>_. 0) 0 + int searchDays"
    by (simp add: local_day_def local_def civil_day_def searchDays_def)
  with next_is_the_first_firing [OF daily_parses, of 0 0] None show ?thesis by simp
next
  case (Some t)
  with next_is_the_first_firing [OF daily_parses, of 0 0] show ?thesis by simp
qed

end
