(* ===== verification/QueryText.thy ===== *)
theory QueryText
  imports GoPrelude
begin

text \<open>
  What the lexers of the two query languages share: the text of a quoted string, and \<open>strings.ToLower\<close>.
\<close>

text \<open>The text of a quoted string after its opening quote \<open>q\<close>: a backslash takes the next byte as it is.
  The result is the text, and the source after the closing quote with the number of bytes read.\<close>

fun quoted_text :: "char \<Rightarrow> string \<Rightarrow> (string \<times> nat \<times> string) option" where
  "quoted_text q [] = None"
| "quoted_text q [c] = (if c = q then Some ([], 1, []) else None)"
| "quoted_text q (c # d # r) =
     (if c = CHR 0x5C then
        map_option (\<lambda>(s, n, r'). (d # s, n + 2, r')) (quoted_text q r)
      else if c = q then Some ([], 1, d # r)
      else map_option (\<lambda>(s, n, r'). (c # s, n + 1, r')) (quoted_text q (d # r)))"

lemma quoted_text_shorter: "quoted_text q s = Some (t, n, r) \<Longrightarrow> length r < length s"
  by (induction q s arbitrary: t n r rule: quoted_text.induct) (fastforce split: if_splits)+

text \<open>\<open>strings.ToLower\<close>, as far as ASCII results go: the Kelvin sign and the dotted capital I are the only
  letters outside ASCII whose lower case is in it.\<close>

fun ToLower :: "string \<Rightarrow> string" where
  "ToLower [] = []"
| "ToLower [c] = [lower_char c]"
| "ToLower [c, d] = (if c = CHR 0xC4 \<and> d = CHR 0xB0 then [CHR ''i''] else [lower_char c, lower_char d])"
| "ToLower (c # d # e # r) =
     (if c = CHR 0xC4 \<and> d = CHR 0xB0 then CHR ''i'' # ToLower (e # r)
      else if c = CHR 0xE2 \<and> d = CHR 0x84 \<and> e = CHR 0xAA then CHR ''k'' # ToLower r
      else lower_char c # ToLower (d # e # r))"

end
