(* ===== verification/CqlParse.thy ===== *)
theory CqlParse
  imports QueryText
begin

text \<open>
  \<open>internal/cql/cql.go\<close>: the lexer and the recursive-descent parser of the Confluence Query Language.
  The parser's position is the list of tokens from it on; reading a token past the end is Go's index
  panic, \<open>Crash\<close>. Recursion is bounded by fuel, of which three units per token are enough. An error
  keeps the format and the quoted texts of its message.
\<close>

section \<open>Syntax trees\<close>

datatype cql_error = SyntaxError nat string "string list" | SemanticError string "string list"

record Order =
  o_field :: string
  o_desc :: bool

record Value =
  v_literal :: string
  v_function :: string
  v_arguments :: "string list"

datatype Node =
    Or "Node list"
  | And "Node list"
  | Not Node
  | Clause (cl_field: string) (cl_op: string) (cl_values: "Value list")

record Query =
  q_root :: Node
  q_orders :: "Order list"

definition literal :: "string \<Rightarrow> Value" where
  "literal s = \<lparr>v_literal = s, v_function = [], v_arguments = []\<rparr>"

definition call :: "string \<Rightarrow> string list \<Rightarrow> Value" where
  "call f as = \<lparr>v_literal = [], v_function = f, v_arguments = as\<rparr>"

section \<open>The lexer\<close>

datatype kind = Word | Quoted | LParen | RParen | Comma | Eof

record token =
  t_kind :: kind
  t_text :: string
  t_pos :: nat

definition tok :: "kind \<Rightarrow> string \<Rightarrow> nat \<Rightarrow> token" where
  "tok k s i = \<lparr>t_kind = k, t_text = s, t_pos = i\<rparr>"

definition blank :: "char \<Rightarrow> bool" where
  "blank c \<longleftrightarrow> c \<in> {CHR '' '', CHR 0x09, CHR 0x0A, CHR 0x0D}"

definition operator_char :: "char \<Rightarrow> bool" where
  "operator_char c \<longleftrightarrow> c \<in> set ''=!~<>''"

definition delimiter :: "char \<Rightarrow> bool" where
  "delimiter c \<longleftrightarrow> blank c \<or> c \<in> set ''(),'' \<or> c = CHR 0x27 \<or> c = CHR 0x22 \<or> operator_char c"

function lex_from :: "nat \<Rightarrow> string \<Rightarrow> (cql_error, token list) outcome" where
  "lex_from i [] = Done [tok Eof [] i]"
| "lex_from i (c # r) =
     (if blank c then lex_from (i + 1) r
      else if c = CHR ''('' then omap (Cons (tok LParen ''('' i)) (lex_from (i + 1) r)
      else if c = CHR '')'' then omap (Cons (tok RParen '')'' i)) (lex_from (i + 1) r)
      else if c = CHR '','' then omap (Cons (tok Comma '','' i)) (lex_from (i + 1) r)
      else if operator_char c then
        (case r of
           d # r' \<Rightarrow>
             if [c, d] \<in> {''!='', ''!~'', ''>='', ''<=''} then omap (Cons (tok Word [c, d] i)) (lex_from (i + 2) r')
             else omap (Cons (tok Word [c] i)) (lex_from (i + 1) r)
         | [] \<Rightarrow> omap (Cons (tok Word [c] i)) (lex_from (i + 1) r))
      else if c = CHR 0x27 \<or> c = CHR 0x22 then
        (case quoted_text c r of
           None \<Rightarrow> Fail (SyntaxError i ''unterminated string'' [])
         | Some (s, n, r') \<Rightarrow> omap (Cons (tok Quoted s i)) (lex_from (i + 1 + n) r'))
      else
        (let w = c # takeWhile (\<lambda>d. \<not> delimiter d) r
         in omap (Cons (tok Word w i)) (lex_from (i + length w) (dropWhile (\<lambda>d. \<not> delimiter d) r))))"
  by pat_completeness auto
termination
  by (relation "measure (\<lambda>(i, s). length s)")
    (auto dest!: quoted_text_shorter simp: less_Suc_eq_le length_dropWhile_le)

definition lex :: "string \<Rightarrow> (cql_error, token list) outcome" where
  "lex src = lex_from 0 src"

section \<open>The parser\<close>

type_synonym 'a parsed = "(cql_error, 'a \<times> token list) outcome"

fun peek :: "token list \<Rightarrow> (cql_error, token) outcome" where
  "peek [] = Crash"
| "peek (t # ts) = Done t"

fun at :: "string \<Rightarrow> token list \<Rightarrow> (cql_error, bool) outcome" where
  "at w [] = Crash"
| "at w (t # ts) = Done (t_kind t = Word \<and> equal_fold (t_text t) w)"

definition name_token :: "token \<Rightarrow> bool" where
  "name_token t \<longleftrightarrow> t_kind t = Word \<or> t_kind t = Quoted"

text \<open>The arguments of a call, from the first one on, to its closing bracket.\<close>

fun parse_arguments :: "token list \<Rightarrow> string list parsed" where
  "parse_arguments [] = Crash"
| "parse_arguments [t] =
     (if \<not> name_token t then Fail (SyntaxError (t_pos t) ''expected an argument'' []) else Crash)"
| "parse_arguments (t # u # ts) =
     (if \<not> name_token t then Fail (SyntaxError (t_pos t) ''expected an argument'' [])
      else if t_kind u = Comma then
        obind (parse_arguments ts) (\<lambda>(as, r). Done (t_text t # as, r))
      else if t_kind u \<noteq> RParen then Fail (SyntaxError (t_pos u) ''expected a closing bracket'' [])
      else Done ([t_text t], ts))"

definition parseValue :: "token list \<Rightarrow> Value parsed" where
  "parseValue toks =
     obind (peek toks) (\<lambda>t.
       if t_kind t = Quoted then Done (literal (t_text t), tl toks)
       else if t_kind t \<noteq> Word then Fail (SyntaxError (t_pos t) ''expected a value'' [])
       else obind (peek (tl toks)) (\<lambda>u.
         if t_kind u \<noteq> LParen then Done (literal (t_text t), tl toks)
         else obind (peek (tl (tl toks))) (\<lambda>v.
           if t_kind v = RParen then Done (call (ToLower (t_text t)) [], tl (tl (tl toks)))
           else obind (parse_arguments (tl (tl toks))) (\<lambda>(as, r). Done (call (ToLower (t_text t)) as, r)))))"

text \<open>The values of a bracketed list, one after the other; the fuel is the number of tokens.\<close>

fun parse_values :: "nat \<Rightarrow> token list \<Rightarrow> Value list parsed" where
  "parse_values 0 toks = Crash"
| "parse_values (Suc n) toks =
     obind (parseValue toks) (\<lambda>(v, r).
     obind (peek r) (\<lambda>t.
       if t_kind t = Comma then obind (parse_values n (tl r)) (\<lambda>(vs, r'). Done (v # vs, r'))
       else Done ([v], r)))"

definition parseValueList :: "token list \<Rightarrow> Value list parsed" where
  "parseValueList toks =
     obind (peek toks) (\<lambda>t.
       if t_kind t \<noteq> LParen then
         obind (parseValue toks) (\<lambda>(v, r).
           if v_function v = [] then
             obind (peek r) (\<lambda>t. Fail (SyntaxError (t_pos t) ''expected a bracketed list after IN'' []))
           else Done ([v], r))
       else obind (parse_values (length toks) (tl toks)) (\<lambda>(vs, r).
         obind (peek r) (\<lambda>t.
           if t_kind t \<noteq> RParen then Fail (SyntaxError (t_pos t) ''expected a closing bracket'' [])
           else if vs = [] then
             obind (peek (tl r)) (\<lambda>t. Fail (SyntaxError (t_pos t) ''expected at least one value'' []))
           else Done (vs, tl r))))"

definition operators :: "string list" where
  "operators = [''='', ''!='', ''~'', ''!~'', ''<'', ''<='', ''>'', ''>='']"

definition parse_comparison :: "string \<Rightarrow> token list \<Rightarrow> Node parsed" where
  "parse_comparison field toks =
     obind (peek toks) (\<lambda>t.
       if t_kind t \<noteq> Word then Fail (SyntaxError (t_pos t) ''expected an operator'' [])
       else if t_text t \<notin> set operators then Fail (SyntaxError (t_pos t) ''unknown operator %q'' [t_text t])
       else obind (parseValue (tl toks)) (\<lambda>(v, r). Done (Clause field (t_text t) [v], r)))"

definition parseClause :: "token list \<Rightarrow> Node parsed" where
  "parseClause toks =
     obind (peek toks) (\<lambda>f.
       if \<not> name_token f then Fail (SyntaxError (t_pos f) ''expected a field name'' [])
       else
         obind (at ''not'' (tl toks)) (\<lambda>negated.
           let r = (if negated then tl (tl toks) else tl toks)
           in obind (at ''in'' r) (\<lambda>within.
             if negated \<and> \<not> within then
               obind (peek r) (\<lambda>t. Fail (SyntaxError (t_pos t) ''expected IN after NOT'' []))
             else if within then
               obind (parseValueList (tl r)) (\<lambda>(vs, r').
                 Done (Clause (ToLower (t_text f)) (if negated then ''not in'' else ''in'') vs, r'))
             else parse_comparison (ToLower (t_text f)) r)))"

definition or_node :: "Node list \<Rightarrow> Node" where
  "or_node ts = (case ts of [t] \<Rightarrow> t | _ \<Rightarrow> Or ts)"

definition and_node :: "Node list \<Rightarrow> Node" where
  "and_node ts = (case ts of [t] \<Rightarrow> t | _ \<Rightarrow> And ts)"

fun parse_or :: "nat \<Rightarrow> token list \<Rightarrow> Node list parsed"
  and parse_and :: "nat \<Rightarrow> token list \<Rightarrow> Node list parsed"
  and parseUnit :: "nat \<Rightarrow> token list \<Rightarrow> Node parsed"
where
  "parse_or 0 toks = Crash"
| "parse_or (Suc n) toks =
     obind (parse_and n toks) (\<lambda>(ts, r).
     obind (at ''or'' r) (\<lambda>again.
       if again then obind (parse_or n (tl r)) (\<lambda>(us, r'). Done (and_node ts # us, r'))
       else Done ([and_node ts], r)))"
| "parse_and 0 toks = Crash"
| "parse_and (Suc n) toks =
     obind (parseUnit n toks) (\<lambda>(t, r).
     obind (at ''and'' r) (\<lambda>again.
       if again then obind (parse_and n (tl r)) (\<lambda>(us, r'). Done (t # us, r'))
       else Done ([t], r)))"
| "parseUnit 0 toks = Crash"
| "parseUnit (Suc n) toks =
     obind (at ''not'' toks) (\<lambda>negated.
       if negated then obind (parseUnit n (tl toks)) (\<lambda>(u, r). Done (Not u, r))
       else obind (peek toks) (\<lambda>t.
         if t_kind t = LParen then
           obind (parse_or n (tl toks)) (\<lambda>(ts, r).
           obind (peek r) (\<lambda>u.
             if t_kind u \<noteq> RParen then Fail (SyntaxError (t_pos u) ''expected a closing bracket'' [])
             else Done (or_node ts, tl r)))
         else parseClause toks))"

definition parseOr :: "token list \<Rightarrow> Node parsed" where
  "parseOr toks = omap (\<lambda>(ts, r). (or_node ts, r)) (parse_or (3 * length toks + 3) toks)"

text \<open>The first ORDER BY and what follows it.\<close>

fun split_order :: "token list \<Rightarrow> token list \<times> token list option" where
  "split_order [] = ([], None)"
| "split_order [t] = ([t], None)"
| "split_order (t # u # ts) =
     (if t_kind t = Word \<and> equal_fold (t_text t) ''order'' \<and> t_kind u = Word \<and> equal_fold (t_text u) ''by''
      then ([tok Eof [] (t_pos t)], Some ts)
      else case split_order (u # ts) of (m, ord) \<Rightarrow> (t # m, ord))"

fun parse_orders :: "nat \<Rightarrow> token list \<Rightarrow> Order list parsed" where
  "parse_orders 0 toks = Crash"
| "parse_orders (Suc n) toks =
     obind (peek toks) (\<lambda>f.
       if \<not> name_token f then Fail (SyntaxError (t_pos f) ''expected a field after ORDER BY'' [])
       else
         obind (at ''desc'' (tl toks)) (\<lambda>down.
         obind (at ''asc'' (tl toks)) (\<lambda>up.
           let r = (if down \<or> up then tl (tl toks) else tl toks);
               o1 = \<lparr>o_field = ToLower (t_text f), o_desc = down\<rparr>
           in obind (peek r) (\<lambda>t.
             if t_kind t = Comma then obind (parse_orders n (tl r)) (\<lambda>(os, r'). Done (o1 # os, r'))
             else Done ([o1], r)))))"

definition parse_root :: "token list \<Rightarrow> (cql_error, Node) outcome" where
  "parse_root toks =
     obind (peek toks) (\<lambda>t.
       if t_kind t = Eof then Done (And [])
       else obind (parseOr toks) (\<lambda>(n, r).
         obind (peek r) (\<lambda>u.
           if t_kind u \<noteq> Eof then Fail (SyntaxError (t_pos u) ''unexpected %q'' [t_text u]) else Done n)))"

definition Parse :: "string \<Rightarrow> (cql_error, Query) outcome" where
  "Parse src =
     obind (lex src) (\<lambda>toks.
       case split_order toks of
         (m, ord) \<Rightarrow> obind (parse_root m) (\<lambda>root.
           case ord of
             None \<Rightarrow> Done \<lparr>q_root = root, q_orders = []\<rparr>
           | Some ots \<Rightarrow>
               obind (parse_orders (length ots) ots) (\<lambda>(os, r).
               obind (peek r) (\<lambda>t.
                 if t_kind t \<noteq> Eof then
                   Fail (SyntaxError (t_pos t) ''unexpected input after the ORDER BY fields'' [])
                 else Done \<lparr>q_root = root, q_orders = os\<rparr>))))"

end
