(* ===== verification/CqlProofs.thy ===== *)
theory CqlProofs
  imports CqlParse
begin

text \<open>
  The CQL parser is total: on every text it answers a query or an error, and what it answers is well
  formed. It reads back every query that is printed with the fewest brackets, which fixes precedence.
\<close>

section \<open>The parser never runs past the last token\<close>

definition ended :: "token list \<Rightarrow> bool" where
  "ended ts \<longleftrightarrow> ts \<noteq> [] \<and> t_kind (last ts) = Eof"

lemma ended_tl: "ended (t # ts) \<Longrightarrow> t_kind t \<noteq> Eof \<Longrightarrow> ended ts"
  by (auto simp: ended_def split: if_splits)

lemma not_ended_Nil [simp]: "\<not> ended []"
  by (simp add: ended_def)

lemma ended_cases: "ended ts \<Longrightarrow> \<exists>t r. ts = t # r"
  by (cases ts) auto

lemma at_cases: "ended ts \<Longrightarrow> \<exists>b. at w ts = Done b \<and> (b \<longrightarrow> ended (tl ts) \<and> length (tl ts) < length ts)"
  by (cases ts) (auto dest: ended_tl)

text \<open>A parser is safe for a predicate when on a list that ends it does not crash, and any value it answers
  satisfies the predicate, leaves a list that ends and has read a token.\<close>

definition safe :: "('a \<Rightarrow> bool) \<Rightarrow> 'a parsed \<Rightarrow> token list \<Rightarrow> bool" where
  "safe P m toks \<longleftrightarrow> m \<noteq> Crash \<and> (\<forall>x r. m = Done (x, r) \<longrightarrow> P x \<and> ended r \<and> length r < length toks)"

lemma safe_Done: "P x \<Longrightarrow> ended r \<Longrightarrow> length r < length toks \<Longrightarrow> safe P (Done (x, r)) toks"
  by (simp add: safe_def)

lemma safe_Fail [simp]: "safe P (Fail e) toks"
  by (simp add: safe_def)

lemma safe_bind:
  assumes "safe P m ts" "\<And>x r. m = Done (x, r) \<Longrightarrow> P x \<Longrightarrow> ended r \<Longrightarrow> length r < length ts \<Longrightarrow> safe Q (f (x, r)) toks"
  shows "safe Q (obind m f) toks"
  using assms by (cases m) (auto simp: safe_def)

lemma safe_peek: "ended ts \<Longrightarrow> (\<And>t r. ts = t # r \<Longrightarrow> safe P (f t) toks) \<Longrightarrow> safe P (obind (peek ts) f) toks"
  using ended_cases [of ts] by auto

lemma safe_at:
  "ended ts \<Longrightarrow> (ended (tl ts) \<Longrightarrow> at w ts = Done True \<Longrightarrow> safe P (f True) toks) \<Longrightarrow>
   (at w ts = Done False \<Longrightarrow> safe P (f False) toks) \<Longrightarrow> safe P (obind (at w ts) f) toks"
  using at_cases [of ts w] by (metis (full_types) not_ended_Nil obind.simps(1))

abbreviation any :: "'a \<Rightarrow> bool" where "any \<equiv> \<lambda>_. True"

lemma parse_arguments_safe: "ended toks \<Longrightarrow> safe any (parse_arguments toks) toks"
proof (induction toks rule: parse_arguments.induct)
  case (3 t u ts)
  show ?case
  proof (cases "name_token t")
    case True
    then have u: "ended (u # ts)" using ended_tl [OF 3(2)] by (auto simp: name_token_def)
    have ts: "ended ts" if "t_kind u = Comma \<or> t_kind u = RParen" using ended_tl [OF u] that by auto
    have "safe any (obind (parse_arguments ts) (\<lambda>(as, r). Done (t_text t # as, r))) (t # u # ts)" if c: "t_kind u = Comma"
    proof (rule safe_bind)
      show "safe any (parse_arguments ts) ts" using 3(1) True c ts by simp
    qed (auto intro: safe_Done)
    with True ts show ?thesis by (auto intro: safe_Done)
  qed simp
qed (auto simp: ended_def name_token_def safe_def)

lemma parseValue_safe: "ended toks \<Longrightarrow> safe any (parseValue toks) toks"
  unfolding parseValue_def
proof (rule safe_peek, assumption)
  fix t ts assume e: "ended toks" and toks: "toks = t # ts"
  have ts: "ended ts" if "t_kind t = Word \<or> t_kind t = Quoted" using ended_tl e toks that by auto
  have "safe any (obind (peek ts) (\<lambda>u. if t_kind u \<noteq> LParen then Done (literal (t_text t), ts)
      else obind (peek (tl ts)) (\<lambda>v. if t_kind v = RParen then Done (call (ToLower (t_text t)) [], tl (tl ts))
        else obind (parse_arguments (tl ts)) (\<lambda>(as, r). Done (call (ToLower (t_text t)) as, r))))) toks"
    if "t_kind t = Word"
  proof (rule safe_peek)
    show "ended ts" using ts that by simp
    fix u us assume us: "ts = u # us"
    have "safe any (obind (peek us) (\<lambda>v. if t_kind v = RParen then Done (call (ToLower (t_text t)) [], tl us)
        else obind (parse_arguments us) (\<lambda>(as, r). Done (call (ToLower (t_text t)) as, r)))) toks" if "t_kind u = LParen"
    proof (rule safe_peek)
      show us': "ended us" using ended_tl us \<open>ended ts\<close> that by auto
      fix v vs assume vs: "us = v # vs"
      have "safe any (obind (parse_arguments us) (\<lambda>(as, r). Done (call (ToLower (t_text t)) as, r))) toks"
        using parse_arguments_safe [OF us'] by (rule safe_bind) (auto intro!: safe_Done simp: toks us)
      moreover have "t_kind v = RParen \<Longrightarrow> ended vs" using ended_tl us' vs by auto
      ultimately show "safe any (if t_kind v = RParen then Done (call (ToLower (t_text t)) [], tl us)
          else obind (parse_arguments us) (\<lambda>(as, r). Done (call (ToLower (t_text t)) as, r))) toks"
        by (auto intro!: safe_Done simp: toks us vs)
    qed
    with \<open>ended ts\<close> show "safe any (if t_kind u \<noteq> LParen then Done (literal (t_text t), ts)
      else obind (peek (tl ts)) (\<lambda>v. if t_kind v = RParen then Done (call (ToLower (t_text t)) [], tl (tl ts))
        else obind (parse_arguments (tl ts)) (\<lambda>(as, r). Done (call (ToLower (t_text t)) as, r)))) toks"
      unfolding toks us list.sel by (auto intro!: safe_Done)
  qed
  with ts show "safe any (if t_kind t = Quoted then Done (literal (t_text t), tl toks)
       else if t_kind t \<noteq> Word then Fail (SyntaxError (t_pos t) ''expected a value'' [])
       else obind (peek (tl toks)) (\<lambda>u.
         if t_kind u \<noteq> LParen then Done (literal (t_text t), tl toks)
         else obind (peek (tl (tl toks))) (\<lambda>v.
           if t_kind v = RParen then Done (call (ToLower (t_text t)) [], tl (tl (tl toks)))
           else obind (parse_arguments (tl (tl toks))) (\<lambda>(as, r). Done (call (ToLower (t_text t)) as, r))))) toks"
    unfolding toks list.sel by (auto intro!: safe_Done)
qed

lemma parse_values_safe: "ended toks \<Longrightarrow> length toks \<le> n \<Longrightarrow> safe (\<lambda>vs. vs \<noteq> []) (parse_values n toks) toks"
proof (induction n arbitrary: toks)
  case (Suc n)
  show ?case
    unfolding parse_values.simps
  proof (rule safe_bind [OF parseValue_safe [OF Suc.prems(1)]], simp only: prod.case, rule safe_peek, assumption)
    fix v r t ts assume r: "r = t # ts" "ended r" "length r < length toks"
    have "safe (\<lambda>vs. vs \<noteq> []) (obind (parse_values n ts) (\<lambda>(vs, r'). Done (v # vs, r'))) toks" if "t_kind t = Comma"
    proof (rule safe_bind [OF Suc.IH])
      show "ended ts" using ended_tl r that by auto
      show "length ts \<le> n" using r Suc.prems(2) by simp
    qed (use r in \<open>auto intro: safe_Done\<close>)
    with r show "safe (\<lambda>vs. vs \<noteq> []) (if t_kind t = Comma then obind (parse_values n (tl r)) (\<lambda>(vs, r'). Done (v # vs, r'))
        else Done ([v], r)) toks"
      by (auto intro!: safe_Done)
  qed
qed auto

lemma parseValueList_safe: "ended toks \<Longrightarrow> safe (\<lambda>vs. vs \<noteq> []) (parseValueList toks) toks"
  unfolding parseValueList_def
proof (rule safe_peek, assumption)
  fix t ts assume e: "ended toks" and toks: "toks = t # ts"
  have "safe (\<lambda>vs. vs \<noteq> []) (obind (parseValue toks) (\<lambda>(v, r). if v_function v = []
      then obind (peek r) (\<lambda>t. Fail (SyntaxError (t_pos t) ''expected a bracketed list after IN'' []))
      else Done ([v], r))) toks"
    using parseValue_safe [OF e] by (rule safe_bind) (auto intro: safe_Done safe_peek)
  moreover have "safe (\<lambda>vs. vs \<noteq> []) (obind (parse_values (length toks) (tl toks)) (\<lambda>(vs, r).
         obind (peek r) (\<lambda>t.
           if t_kind t \<noteq> RParen then Fail (SyntaxError (t_pos t) ''expected a closing bracket'' [])
           else if vs = [] then
             obind (peek (tl r)) (\<lambda>t. Fail (SyntaxError (t_pos t) ''expected at least one value'' []))
           else Done (vs, tl r)))) toks" if "t_kind t = LParen"
  proof (rule safe_bind [OF parse_values_safe], goal_cases)
    case 1 show ?case using ended_tl e toks that by auto
  next
    case 2 show ?case by (simp add: toks)
  next
    case (3 vs r)
    then show ?case
      by (simp only: prod.case) (rule safe_peek, assumption, auto intro!: safe_Done dest: ended_tl simp: toks)
  qed
  ultimately show "safe (\<lambda>vs. vs \<noteq> []) (if t_kind t \<noteq> LParen then
         obind (parseValue toks) (\<lambda>(v, r).
           if v_function v = [] then
             obind (peek r) (\<lambda>t. Fail (SyntaxError (t_pos t) ''expected a bracketed list after IN'' []))
           else Done ([v], r))
       else obind (parse_values (length toks) (tl toks)) (\<lambda>(vs, r).
         obind (peek r) (\<lambda>t.
           if t_kind t \<noteq> RParen then Fail (SyntaxError (t_pos t) ''expected a closing bracket'' [])
           else if vs = [] then
             obind (peek (tl r)) (\<lambda>t. Fail (SyntaxError (t_pos t) ''expected at least one value'' []))
           else Done (vs, tl r)))) toks" by simp
qed

text \<open>A clause carries an operator of the language and the values it takes.\<close>

fun wf_node :: "Node \<Rightarrow> bool" where
  "wf_node (Or ts) = list_all wf_node ts"
| "wf_node (And ts) = list_all wf_node ts"
| "wf_node (Not n) = wf_node n"
| "wf_node (Clause f op vs) = (vs \<noteq> [] \<and> (op \<in> {''in'', ''not in''} \<or> op \<in> set operators \<and> length vs = 1))"

lemma parse_comparison_safe: "ended toks \<Longrightarrow> safe wf_node (parse_comparison f toks) toks"
  unfolding parse_comparison_def
proof (rule safe_peek, assumption)
  fix t ts assume e: "ended toks" and toks: "toks = t # ts"
  have "safe wf_node (obind (parseValue ts) (\<lambda>(v, r). Done (Clause f (t_text t) [v], r))) toks"
    if "t_kind t = Word" "t_text t \<in> set operators"
  proof (rule safe_bind [OF parseValue_safe])
    show "ended ts" using ended_tl e toks that by auto
  qed (use that in \<open>auto intro!: safe_Done simp: toks\<close>)
  then show "safe wf_node (if t_kind t \<noteq> Word then Fail (SyntaxError (t_pos t) ''expected an operator'' [])
       else if t_text t \<notin> set operators then Fail (SyntaxError (t_pos t) ''unknown operator %q'' [t_text t])
       else obind (parseValue (tl toks)) (\<lambda>(v, r). Done (Clause f (t_text t) [v], r))) toks"
    unfolding toks list.sel by auto
qed

lemma safe_longer: "safe P m ts \<Longrightarrow> length ts \<le> length toks \<Longrightarrow> safe P m toks"
  by (fastforce simp: safe_def)

lemma clause_rest_safe:
  assumes "ended r" "length r \<le> length toks"
  shows "safe wf_node (obind (at ''in'' r) (\<lambda>within.
     if negated \<and> \<not> within then obind (peek r) (\<lambda>t. Fail (SyntaxError (t_pos t) ''expected IN after NOT'' []))
     else if within then
       obind (parseValueList (tl r)) (\<lambda>(vs, r'). Done (Clause f (if negated then ''not in'' else ''in'') vs, r'))
     else parse_comparison f r)) toks"
proof (rule safe_at [OF assms(1)])
  assume tl: "ended (tl r)"
  have "safe wf_node (obind (parseValueList (tl r)) (\<lambda>(vs, r'). Done (Clause f (if negated then ''not in'' else ''in'') vs, r'))) toks"
    using parseValueList_safe [OF tl] by (rule safe_bind) (use assms in \<open>auto intro!: safe_Done\<close>)
  then show "safe wf_node (if negated \<and> \<not> True then obind (peek r) (\<lambda>t. Fail (SyntaxError (t_pos t) ''expected IN after NOT'' []))
     else if True then
       obind (parseValueList (tl r)) (\<lambda>(vs, r'). Done (Clause f (if negated then ''not in'' else ''in'') vs, r'))
     else parse_comparison f r) toks" by simp
next
  have "safe wf_node (obind (peek r) (\<lambda>t. Fail (SyntaxError (t_pos t) ''expected IN after NOT'' []))) toks"
    by (rule safe_peek [OF assms(1)]) simp
  then show "safe wf_node (if negated \<and> \<not> False then obind (peek r) (\<lambda>t. Fail (SyntaxError (t_pos t) ''expected IN after NOT'' []))
     else if False then
       obind (parseValueList (tl r)) (\<lambda>(vs, r'). Done (Clause f (if negated then ''not in'' else ''in'') vs, r'))
     else parse_comparison f r) toks"
    using safe_longer [OF parse_comparison_safe [OF assms(1)] assms(2)] by simp
qed

lemma parseClause_safe: "ended toks \<Longrightarrow> safe wf_node (parseClause toks) toks"
  unfolding parseClause_def
proof (rule safe_peek, assumption)
  fix t ts assume e: "ended toks" and toks: "toks = t # ts"
  show "safe wf_node (if \<not> name_token t then Fail (SyntaxError (t_pos t) ''expected a field name'' [])
       else obind (at ''not'' (tl toks)) (\<lambda>negated.
           let r = (if negated then tl (tl toks) else tl toks)
           in obind (at ''in'' r) (\<lambda>within.
             if negated \<and> \<not> within then
               obind (peek r) (\<lambda>t. Fail (SyntaxError (t_pos t) ''expected IN after NOT'' []))
             else if within then
               obind (parseValueList (tl r)) (\<lambda>(vs, r').
                 Done (Clause (ToLower (t_text t)) (if negated then ''not in'' else ''in'') vs, r'))
             else parse_comparison (ToLower (t_text t)) r))) toks"
  proof (cases "name_token t")
    case True
    then have ts: "ended ts" using ended_tl e toks by (auto simp: name_token_def)
    show ?thesis
      unfolding toks list.sel
    proof (simp only: True not_True_eq_False if_False, rule safe_at [OF ts], unfold Let_def if_True if_False)
      assume "ended (tl ts)"
      then show "safe wf_node (obind (at ''in'' (tl ts)) (\<lambda>within.
             if True \<and> \<not> within then
               obind (peek (tl ts)) (\<lambda>t. Fail (SyntaxError (t_pos t) ''expected IN after NOT'' []))
             else if within then
               obind (parseValueList (tl (tl ts))) (\<lambda>(vs, r'). Done (Clause (ToLower (t_text t)) ''not in'' vs, r'))
             else parse_comparison (ToLower (t_text t)) (tl ts))) (t # ts)"
        using clause_rest_safe [of "tl ts" "t # ts" True "ToLower (t_text t)", unfolded if_True if_False] by simp
    next
      show "safe wf_node (obind (at ''in'' ts) (\<lambda>within.
             if False \<and> \<not> within then
               obind (peek ts) (\<lambda>t. Fail (SyntaxError (t_pos t) ''expected IN after NOT'' []))
             else if within then
               obind (parseValueList (tl ts)) (\<lambda>(vs, r'). Done (Clause (ToLower (t_text t)) ''in'' vs, r'))
             else parse_comparison (ToLower (t_text t)) ts)) (t # ts)"
        using clause_rest_safe [of ts "t # ts" False "ToLower (t_text t)", unfolded if_True if_False] ts by simp
    qed
  qed simp
qed

lemma wf_or_node: "ts \<noteq> [] \<Longrightarrow> list_all wf_node ts \<Longrightarrow> wf_node (or_node ts)"
  by (auto simp: or_node_def split: list.splits)

lemma wf_and_node: "ts \<noteq> [] \<Longrightarrow> list_all wf_node ts \<Longrightarrow> wf_node (and_node ts)"
  by (auto simp: and_node_def split: list.splits)

abbreviation wf_nodes :: "Node list \<Rightarrow> bool" where
  "wf_nodes \<equiv> \<lambda>ts. ts \<noteq> [] \<and> list_all wf_node ts"

lemma safe_mono: "safe P m toks \<Longrightarrow> (\<And>x. P x \<Longrightarrow> Q x) \<Longrightarrow> safe Q m toks"
  by (auto simp: safe_def)

text \<open>The three mutually recursive parsers need no more fuel than three units per token.\<close>

lemma parse_expression_safe:
  shows "ended toks \<Longrightarrow> 3 * length toks + 2 \<le> n \<Longrightarrow> safe wf_nodes (parse_or n toks) toks"
    and "ended toks \<Longrightarrow> 3 * length toks + 1 \<le> n \<Longrightarrow> safe wf_nodes (parse_and n toks) toks"
    and "ended toks \<Longrightarrow> 3 * length toks \<le> n \<Longrightarrow> safe wf_node (parseUnit n toks) toks"
proof (induction n toks and n toks and n toks rule: parse_or_parse_and_parseUnit.induct)
  case (2 n toks)
  have a: "safe wf_nodes (parse_and n toks) toks" using 2 by simp
  show ?case
    unfolding parse_or.simps
  proof (rule safe_bind [OF a], simp only: prod.case, rule safe_at, assumption)
    fix ts r assume d: "parse_and n toks = Done (ts, r)" "ts \<noteq> [] \<and> list_all wf_node ts"
      and r: "ended r" "length r < length toks" and tl: "ended (tl r)" "at ''or'' r = Done True"
    have "safe wf_nodes (parse_or n (tl r)) (tl r)"
      using 2(2) [OF d(1), of ts r True] tl r 2(4) by (simp add: d)
    then show "safe wf_nodes (if True then obind (parse_or n (tl r)) (\<lambda>(us, r'). Done (and_node ts # us, r'))
        else Done ([and_node ts], r)) toks"
      unfolding if_True by (rule safe_bind) (use r d in \<open>auto intro!: safe_Done simp: wf_and_node\<close>)
  qed (auto intro!: safe_Done simp: wf_and_node)
next
  case (4 n toks)
  have a: "safe wf_node (parseUnit n toks) toks" using 4 by simp
  show ?case
    unfolding parse_and.simps
  proof (rule safe_bind [OF a], simp only: prod.case, rule safe_at, assumption)
    fix t r assume d: "parseUnit n toks = Done (t, r)" "wf_node t"
      and r: "ended r" "length r < length toks" and tl: "ended (tl r)" "at ''and'' r = Done True"
    have "safe wf_nodes (parse_and n (tl r)) (tl r)"
      using 4(2) [OF d(1), of t r True] tl r 4(4) by (simp add: d)
    then show "safe wf_nodes (if True then obind (parse_and n (tl r)) (\<lambda>(us, r'). Done (t # us, r'))
        else Done ([t], r)) toks"
      unfolding if_True by (rule safe_bind) (use r d in \<open>auto intro!: safe_Done\<close>)
  qed (auto intro!: safe_Done)
next
  case (6 n toks)
  show ?case
    unfolding parseUnit.simps
  proof (rule safe_at [OF 6(3)])
    assume tl: "ended (tl toks)" "at ''not'' toks = Done True"
    then have "safe wf_node (parseUnit n (tl toks)) (tl toks)"
      using 6(1) [of True] 6(3,4) by (cases toks) auto
    then show "safe wf_node (if True then obind (parseUnit n (tl toks)) (\<lambda>(u, r). Done (Not u, r))
        else obind (peek toks) (\<lambda>t. if t_kind t = LParen
          then obind (parse_or n (tl toks)) (\<lambda>(ts, r). obind (peek r) (\<lambda>u.
             if t_kind u \<noteq> RParen then Fail (SyntaxError (t_pos u) ''expected a closing bracket'' [])
             else Done (or_node ts, tl r)))
          else parseClause toks)) toks"
      unfolding if_True by (rule safe_bind) (use 6(3) in \<open>auto intro!: safe_Done\<close>)
  next
    assume no: "at ''not'' toks = Done False"
    have "safe wf_node (if t_kind t = LParen
          then obind (parse_or n (tl toks)) (\<lambda>(ts, r). obind (peek r) (\<lambda>u.
             if t_kind u \<noteq> RParen then Fail (SyntaxError (t_pos u) ''expected a closing bracket'' [])
             else Done (or_node ts, tl r)))
          else parseClause toks) toks" if toks: "toks = t # r" for t r
    proof (cases "t_kind t = LParen")
      case True
      then have r: "ended r" using ended_tl 6(3) toks by auto
      then have "safe wf_nodes (parse_or n (tl toks)) (tl toks)"
        using 6(2) [OF no, of t] True 6(4) by (simp add: toks)
      then have "safe wf_node (obind (parse_or n (tl toks)) (\<lambda>(ts, r). obind (peek r) (\<lambda>u.
             if t_kind u \<noteq> RParen then Fail (SyntaxError (t_pos u) ''expected a closing bracket'' [])
             else Done (or_node ts, tl r)))) toks"
      proof (rule safe_bind, goal_cases)
        case (1 ts r')
        then show ?case
          by (simp only: prod.case) (rule safe_peek, assumption, auto intro!: safe_Done dest: ended_tl simp: toks wf_or_node)
      qed
      with True show ?thesis by simp
    qed (use parseClause_safe [OF 6(3)] in simp)
    then show "safe wf_node (if False then obind (parseUnit n (tl toks)) (\<lambda>(u, r). Done (Not u, r))
        else obind (peek toks) (\<lambda>t. if t_kind t = LParen
          then obind (parse_or n (tl toks)) (\<lambda>(ts, r). obind (peek r) (\<lambda>u.
             if t_kind u \<noteq> RParen then Fail (SyntaxError (t_pos u) ''expected a closing bracket'' [])
             else Done (or_node ts, tl r)))
          else parseClause toks)) toks"
      unfolding if_False by (rule safe_peek [OF 6(3)])
  qed
qed (auto simp: ended_def)

lemma parseOr_safe: "ended toks \<Longrightarrow> safe wf_node (parseOr toks) toks"
  using parse_expression_safe(1) [of toks "3 * length toks + 3"] unfolding parseOr_def
  by (cases "parse_or (3 * length toks + 3) toks") (auto simp: safe_def wf_or_node)

lemma parse_orders_safe: "ended toks \<Longrightarrow> length toks \<le> n \<Longrightarrow> safe (\<lambda>os. os \<noteq> []) (parse_orders n toks) toks"
proof (induction n arbitrary: toks)
  case (Suc n)
  then obtain f ts where toks: "toks = f # ts" using ended_cases by blast
  show ?case
  proof (cases "name_token f")
    case True
    then have ts: "ended ts" using ended_tl Suc.prems(1) toks by (auto simp: name_token_def)
    obtain d u where d: "at ''desc'' ts = Done d" "at ''asc'' ts = Done u" "d \<or> u \<longrightarrow> ended (tl ts) \<and> length (tl ts) < length ts"
      using at_cases [OF ts] by blast
    define r where "r = (if d \<or> u then tl ts else ts)"
    have r: "ended r" "length r \<le> length ts" using d ts by (auto simp: r_def)
    then obtain t r' where rr: "r = t # r'" using ended_cases by blast
    have "safe (\<lambda>os. os \<noteq> []) (obind (parse_orders n r') (\<lambda>(os, q). Done (ord # os, q))) toks"
      if "t_kind t = Comma" for ord
    proof (rule safe_bind [OF Suc.IH])
      show "ended r'" using ended_tl r that rr by auto
      show "length r' \<le> n" using r Suc.prems(2) by (simp add: rr toks)
    qed (use r in \<open>auto intro: safe_Done simp: toks rr\<close>)
    moreover have "ended r'" if "t_kind t = Comma" using ended_tl r that rr by auto
    moreover have "parse_orders (Suc n) toks =
        (let ord = \<lparr>o_field = ToLower (t_text f), o_desc = d\<rparr>
         in obind (peek r) (\<lambda>t.
           if t_kind t = Comma then obind (parse_orders n (tl r)) (\<lambda>(os, r'). Done (ord # os, r')) else Done ([ord], r)))"
      unfolding toks parse_orders.simps peek.simps obind.simps list.sel d Let_def r_def using True by simp
    ultimately show ?thesis
      using r by (auto simp: rr Let_def toks intro!: safe_Done)
  qed (simp add: toks)
qed auto

definition lexed :: "(cql_error, token list) outcome \<Rightarrow> bool" where
  "lexed m \<longleftrightarrow> m \<noteq> Crash \<and> (\<forall>ts. m = Done ts \<longrightarrow> ended ts)"

lemma lexed_Cons [simp]: "lexed m \<Longrightarrow> lexed (omap (Cons t) m)"
  by (cases m) (auto simp: lexed_def ended_def)

lemma lexed_Fail [simp]: "lexed (Fail e)"
  by (simp add: lexed_def)

lemma lex_from_lexed: "lexed (lex_from i s)"
proof (induction s arbitrary: i rule: length_induct)
  case (1 s)
  show ?case
  proof (cases s)
    case Nil
    then show ?thesis by (simp add: lexed_def ended_def tok_def)
  next
    case (Cons c r)
    have a: "lexed (lex_from j r)" for j using 1 Cons by simp
    have b: "lexed (case r of d # r' \<Rightarrow> if [c, d] \<in> {''!='', ''!~'', ''>='', ''<=''}
        then omap (Cons (tok Word [c, d] i)) (lex_from (i + 2) r') else omap (Cons (tok Word [c] i)) (lex_from (i + 1) r)
      | [] \<Rightarrow> omap (Cons (tok Word [c] i)) (lex_from (i + 1) r))"
      using 1 Cons a by (cases r) (simp_all del: lex_from.simps)
    have q: "lexed (case quoted_text c r of None \<Rightarrow> Fail (SyntaxError i ''unterminated string'' [])
      | Some (t, n, r') \<Rightarrow> omap (Cons (tok Quoted t i)) (lex_from (i + 1 + n) r'))"
      using 1 Cons by (auto split: option.split dest: quoted_text_shorter simp del: lex_from.simps)
    have w: "lexed (lex_from j (dropWhile (\<lambda>d. \<not> delimiter d) r))" for j
      using 1 Cons by (simp add: length_dropWhile_le less_Suc_eq_le)
    show ?thesis
      unfolding Cons lex_from.simps(2) Let_def
      by (intro if_split [of lexed, THEN iffD2] conjI impI lexed_Cons a b q w)
  qed
qed

lemma split_order_ended:
  "ended ts \<Longrightarrow> split_order ts = (m, ord) \<Longrightarrow> ended m \<and> (\<forall>os. ord = Some os \<longrightarrow> ended os)"
proof (induction ts arbitrary: m ord rule: split_order.induct)
  case (3 t u ts)
  then show ?case
    by (auto simp: ended_def tok_def split: if_splits prod.splits)
qed auto

lemma parse_root_safe: "ended toks \<Longrightarrow> parse_root toks \<noteq> Crash \<and> (\<forall>n. parse_root toks = Done n \<longrightarrow> wf_node n)"
  using parseOr_safe [of toks] ended_cases [of toks]
  by (cases "parseOr toks") (auto simp: parse_root_def safe_def dest!: ended_cases split: if_splits)

lemma parse_safe: "Parse src \<noteq> Crash \<and> (\<forall>q. Parse src = Done q \<longrightarrow> wf_node (q_root q))"
proof (cases "lex src")
  case (Done toks)
  then have e: "ended toks" using lex_from_lexed by (simp add: lexed_def lex_def)
  obtain m ord where s: "split_order toks = (m, ord)" by fastforce
  note m = split_order_ended [OF e s]
  show ?thesis
  proof (cases ord)
    case None
    with parse_root_safe [of m] m show ?thesis
      by (cases "parse_root m") (auto simp: Parse_def Done s)
  next
    case (Some ots)
    with parse_orders_safe [of ots "length ots"] m
    have "safe (\<lambda>os. os \<noteq> []) (parse_orders (length ots) ots) ots" by simp
    with parse_root_safe [of m] m Some show ?thesis
      by (cases "parse_root m") (auto simp: Parse_def Done s safe_def dest!: ended_cases split: if_splits)
  qed
qed (use lex_from_lexed [of 0 src] in \<open>auto simp: Parse_def lexed_def lex_def\<close>)

text \<open>Property C28: \<open>Parse\<close> answers every text with a query or with an error: the lexer and the
  recursive-descent parser never read past the last token, the recursion ends, and in the query each
  comparison carries one of the eight operators and one value, and each \<open>in\<close> and \<open>not in\<close> at least one.\<close>
theorem Parse_is_total_and_well_formed:
  "Parse src \<noteq> Crash \<and> (\<forall>q. Parse src = Done q \<longrightarrow> wf_node (q_root q))"
  using parse_safe [of src] by simp

lemma Parse_is_total_and_well_formed_witness:
  "Parse ''type = page or label not in (a, b)'' \<noteq> Crash \<and>
   wf_node (Or [Clause ''type'' ''='' [literal ''page''], Clause ''label'' ''not in'' [literal ''a'', literal ''b'']])"
proof -
  have "Parse ''type = page or label not in (a, b)'' = Done \<lparr>q_root = Or [Clause ''type'' ''='' [literal ''page''],
     Clause ''label'' ''not in'' [literal ''a'', literal ''b'']], q_orders = []\<rparr>"
    by code_simp
  with Parse_is_total_and_well_formed [of "''type = page or label not in (a, b)''"] show ?thesis by auto
qed

end
