(* ===== verification/CqlRound.thy ===== *)
theory CqlRound
  imports CqlProofs
begin

text \<open>
  Printing query trees as tokens with the fewest brackets, and the proof that the parser of
  \<open>CqlParse\<close> reads every such printing back.
\<close>

section \<open>Printing with the fewest brackets\<close>

definition word :: "string \<Rightarrow> token" where
  "word s = tok Word s 0"

definition quoted :: "string \<Rightarrow> token" where
  "quoted s = tok Quoted s 0"

definition bracketed :: "token list \<Rightarrow> token list" where
  "bracketed ts = tok LParen ''('' 0 # ts @ [tok RParen '')'' 0]"

fun joined :: "token \<Rightarrow> token list list \<Rightarrow> token list" where
  "joined s [] = []"
| "joined s [x] = x"
| "joined s (x # y # xs) = x @ s # joined s (y # xs)"

definition comma :: token where
  "comma = tok Comma '','' 0"

definition print_value :: "Value \<Rightarrow> token list" where
  "print_value v =
     (if v_function v = [] then [quoted (v_literal v)]
      else word (v_function v) # bracketed (joined comma (map (\<lambda>a. [quoted a]) (v_arguments v))))"

fun print_node :: "nat \<Rightarrow> Node \<Rightarrow> token list" where
  "print_node l (Or ts) =
     (let s = joined (word ''OR'') (map (print_node 1) ts) in if l = 0 then s else bracketed s)"
| "print_node l (And ts) =
     (let s = joined (word ''AND'') (map (print_node 2) ts) in if l \<le> 1 then s else bracketed s)"
| "print_node l (Not n) = word ''NOT'' # print_node 2 n"
| "print_node l (Clause f op vs) =
     quoted f #
     (if op = ''in'' then word ''IN'' # bracketed (joined comma (map print_value vs))
      else if op = ''not in'' then word ''NOT'' # word ''IN'' # bracketed (joined comma (map print_value vs))
      else word op # concat (map print_value vs))"

text \<open>Trees the parser can answer: a value is a literal or a call of a lower case name, and a
  disjunction or conjunction has two terms or more.\<close>

definition canonical_value :: "Value \<Rightarrow> bool" where
  "canonical_value v \<longleftrightarrow>
     (if v_function v = [] then v_arguments v = [] else v_literal v = [] \<and> ToLower (v_function v) = v_function v)"

fun canonical :: "Node \<Rightarrow> bool" where
  "canonical (Or ts) = (2 \<le> length ts \<and> list_all canonical ts)"
| "canonical (And ts) = (2 \<le> length ts \<and> list_all canonical ts)"
| "canonical (Not n) = canonical n"
| "canonical (Clause f op vs) =
     (wf_node (Clause f op vs) \<and> ToLower f = f \<and> list_all canonical_value vs)"

lemma tok_simps [simp]:
  "t_kind (tok k s i) = k" "t_text (tok k s i) = s" "t_pos (tok k s i) = i"
  by (simp_all add: tok_def)

lemmas printed_defs = word_def quoted_def comma_def bracketed_def name_token_def

lemma parse_arguments_print:
  "as \<noteq> [] \<Longrightarrow> parse_arguments (joined comma (map (\<lambda>a. [quoted a]) as) @ tok RParen s i # r) = Done (as, r)"
proof (induction as)
  case (Cons a as)
  then show ?case by (cases as) (auto simp: printed_defs)
qed simp

lemma parseValue_print:
  "canonical_value v \<Longrightarrow> parseValue (print_value v @ r) = Done (v, r)"
proof (cases "v_function v = [] \<or> v_arguments v = []")
  case True
  assume "canonical_value v"
  with True show ?thesis
    by (cases v) (auto simp: print_value_def canonical_value_def printed_defs parseValue_def literal_def call_def)
next
  case False
  assume c: "canonical_value v"
  obtain a as where a: "v_arguments v = a # as" using False by (cases "v_arguments v") auto
  have "parseValue (print_value v @ r) =
     obind (parse_arguments (joined comma (map (\<lambda>a. [quoted a]) (v_arguments v)) @ tok RParen '')'' 0 # r))
       (\<lambda>(as, r). Done (call (ToLower (v_function v)) as, r))"
    using False unfolding print_value_def parseValue_def a by (cases as) (simp_all add: printed_defs)
  then show ?thesis
    using False c by (cases v) (simp add: parse_arguments_print canonical_value_def call_def)
qed

lemma parse_values_print:
  "list_all canonical_value vs \<Longrightarrow> vs \<noteq> [] \<Longrightarrow> length vs \<le> n \<Longrightarrow>
   parse_values n (joined comma (map print_value vs) @ tok RParen s i # r) = Done (vs, tok RParen s i # r)"
proof (induction vs arbitrary: n)
  case (Cons v vs)
  then obtain n' where n: "n = Suc n'" by (cases n) auto
  show ?case
  proof (cases vs)
    case Nil
    with Cons.prems show ?thesis by (simp add: n parseValue_print)
  next
    case (Cons u us)
    with Cons.IH [of n'] Cons.prems show ?thesis
      by (simp add: n parseValue_print comma_def)
  qed
qed simp

lemma print_value_not_Nil: "print_value v \<noteq> []"
  by (simp add: print_value_def)

lemma length_joined: "[] \<notin> set xs \<Longrightarrow> length xs \<le> length (joined s xs)"
proof (induction xs rule: induct_list012)
  case (2 x)
  then show ?case by (cases x) auto
next
  case (3 x y zs)
  then have "length (y # zs) \<le> length (joined s (y # zs))" by simp
  then show ?case by simp
qed auto

lemma parseValueList_print:
  assumes "list_all canonical_value vs" "vs \<noteq> []"
  shows "parseValueList (bracketed (joined comma (map print_value vs)) @ r) = Done (vs, r)"
proof -
  let ?s = "joined comma (map print_value vs)"
  have "length vs \<le> length ?s"
    using length_joined [of "map print_value vs" comma] print_value_not_Nil by (metis (no_types, lifting) imageE length_map list.set_map)
  then have "parse_values (length (bracketed ?s @ r)) (?s @ tok RParen '')'' 0 # r) = Done (vs, tok RParen '')'' 0 # r)"
    using assms by (intro parse_values_print) (auto simp: bracketed_def)
  then show ?thesis
    using assms(2) by (simp add: parseValueList_def bracketed_def del: parse_values.simps obind_Done_iff)
qed

lemma fold_words [simp]:
  "equal_fold ''IN'' ''in''" "equal_fold ''NOT'' ''not''" "equal_fold ''OR'' ''or''" "equal_fold ''AND'' ''and''"
  "\<not> equal_fold ''IN'' ''not''" "\<not> equal_fold ''OR'' ''and''"
  by code_simp+

lemma operators_fold:
  "list_all (\<lambda>op. op \<noteq> ''in'' \<and> op \<noteq> ''not in'' \<and> \<not> equal_fold op ''in'' \<and> \<not> equal_fold op ''not'') operators"
  by code_simp

lemma parseClause_print:
  assumes "canonical (Clause f op vs)"
  shows "parseClause (print_node l (Clause f op vs) @ r) = Done (Clause f op vs, r)"
proof -
  have vs: "list_all canonical_value vs" "vs \<noteq> []" and f: "ToLower f = f" using assms by auto
  consider "op = ''in''" | "op = ''not in''" | "op \<in> set operators" "length vs = 1" using assms by auto
  then show ?thesis
  proof cases
    case 1
    then show ?thesis
      using parseValueList_print [OF vs]
      by (simp add: parseClause_def printed_defs f Let_def)
  next
    case 2
    then show ?thesis
      using parseValueList_print [OF vs]
      by (simp add: parseClause_def printed_defs f Let_def)
  next
    case 3
    then obtain v where v: "vs = [v]" by (cases vs) auto
    have op: "op \<noteq> ''in''" "op \<noteq> ''not in''" "\<not> equal_fold op ''in''" "\<not> equal_fold op ''not''"
      using 3(1) operators_fold by (auto simp: list_all_iff)
    show ?thesis
      using 3(1) vs op by (simp add: v parseClause_def printed_defs f parse_comparison_def parseValue_print)
  qed
qed

text \<open>A list that is neither empty nor starts with one of the two connectives.\<close>

definition stops :: "string \<Rightarrow> token list \<Rightarrow> bool" where
  "stops w r \<longleftrightarrow> at w r = Done False"

lemma at_simps [simp]: "at w (tok Word s i # r) = Done (equal_fold s w)"
  "k \<noteq> Word \<Longrightarrow> at w (tok k s i # r) = Done False"
  by simp_all

lemma parse_and_terms:
  assumes "\<And>t n r. t \<in> set ts \<Longrightarrow> 3 * length (print_node 2 t) \<le> n \<Longrightarrow> r \<noteq> [] \<Longrightarrow>
      parseUnit n (print_node 2 t @ r) = Done (t, r)"
    and "ts \<noteq> []" "stops ''and'' r" "3 * length (joined (word ''AND'') (map (print_node 2) ts)) + 1 \<le> n"
  shows "parse_and n (joined (word ''AND'') (map (print_node 2) ts) @ r) = Done (ts, r)"
  using assms
proof (induction ts arbitrary: n)
  case (Cons t ts)
  then obtain n' where n: "n = Suc n'" by (cases n) auto
  have "r \<noteq> []" using Cons.prems(3) by (auto simp: stops_def)
  show ?case
  proof (cases ts)
    case Nil
    with Cons.prems \<open>r \<noteq> []\<close> show ?thesis by (simp add: n stops_def del: obind_Done_iff)
  next
    case (Cons u us)
    let ?rest = "joined (word ''AND'') (map (print_node 2) ts)"
    have "parse_and n' (?rest @ r) = Done (ts, r)"
      using Cons.IH [of n'] Cons.prems by (simp add: Cons n)
    moreover have "parseUnit n' (print_node 2 t @ word ''AND'' # ?rest @ r) = Done (t, word ''AND'' # ?rest @ r)"
      using Cons.prems by (simp add: Cons n)
    ultimately show ?thesis by (simp add: n Cons word_def del: obind_Done_iff)
  qed
qed simp

text \<open>The three levels at which a node can be printed, and what reading each of them back means.\<close>

definition unit_reads :: "Node \<Rightarrow> bool" where
  "unit_reads t \<longleftrightarrow> (\<forall>n r. 3 * length (print_node 2 t) \<le> n \<longrightarrow> r \<noteq> [] \<longrightarrow>
     parseUnit n (print_node 2 t @ r) = Done (t, r))"

definition and_reads :: "Node \<Rightarrow> bool" where
  "and_reads t \<longleftrightarrow> (\<forall>n r. 3 * length (print_node 1 t) + 1 \<le> n \<longrightarrow> stops ''and'' r \<longrightarrow>
     (\<exists>ts. parse_and n (print_node 1 t @ r) = Done (ts, r) \<and> and_node ts = t))"

definition or_reads :: "Node \<Rightarrow> bool" where
  "or_reads t \<longleftrightarrow> (\<forall>n r. 3 * length (print_node 0 t) + 2 \<le> n \<longrightarrow> stops ''and'' r \<longrightarrow> stops ''or'' r \<longrightarrow>
     (\<exists>ts. parse_or n (print_node 0 t @ r) = Done (ts, r) \<and> or_node ts = t))"

lemma stops_not_Nil: "stops w r \<Longrightarrow> r \<noteq> []"
  by (auto simp: stops_def)

lemma and_readsE:
  assumes "and_reads t" "stops ''and'' r" "3 * length (print_node 1 t) + 1 \<le> n"
  obtains ts where "parse_and n (print_node 1 t @ r) = Done (ts, r)" "and_node ts = t"
  using assms by (auto simp: and_reads_def)

lemma or_readsE:
  assumes "or_reads t" "stops ''and'' r" "stops ''or'' r" "3 * length (print_node 0 t) + 2 \<le> n"
  obtains ts where "parse_or n (print_node 0 t @ r) = Done (ts, r)" "or_node ts = t"
  using assms by (auto simp: or_reads_def)

lemma or_node_long: "2 \<le> length ts \<Longrightarrow> or_node ts = Or ts"
  by (auto simp: or_node_def split: list.split)

lemma and_node_long: "2 \<le> length ts \<Longrightarrow> and_node ts = And ts"
  by (auto simp: and_node_def split: list.split)

lemma print_node_not_Eof: "canonical t \<Longrightarrow> \<exists>x xs. print_node l t = x # xs \<and> t_kind x \<noteq> Eof"
proof (induction t arbitrary: l)
  case (Or ts)
  then obtain a b us where "ts = a # b # us" by (cases ts rule: remdups_adj.cases) auto
  with Or.IH [of a 1] Or.prems show ?case by (auto simp: bracketed_def Let_def)
next
  case (And ts)
  then obtain a b us where "ts = a # b # us" by (cases ts rule: remdups_adj.cases) auto
  with And.IH [of a 2] And.prems show ?case by (auto simp: bracketed_def Let_def)
qed (auto simp: word_def quoted_def)

lemma unit_reads_and:
  assumes "unit_reads t" "print_node 1 t = print_node 2 t"
  shows "and_reads t"
  unfolding and_reads_def
proof (intro allI impI)
  fix n r assume n: "3 * length (print_node 1 t) + 1 \<le> n" and r: "stops ''and'' r"
  then obtain n' where "n = Suc n'" by (cases n) auto
  then show "\<exists>ts. parse_and n (print_node 1 t @ r) = Done (ts, r) \<and> and_node ts = t"
    using assms n r stops_not_Nil [OF r]
    by (simp add: unit_reads_def stops_def and_node_def del: obind_Done_iff)
qed

lemma and_reads_or:
  assumes "and_reads t" "print_node 0 t = print_node 1 t"
  shows "or_reads t"
  unfolding or_reads_def
proof (intro allI impI)
  fix n r assume n: "3 * length (print_node 0 t) + 2 \<le> n" and r: "stops ''and'' r" "stops ''or'' r"
  then obtain n' where n': "n = Suc n'" by (cases n) auto
  then obtain ts where "parse_and n' (print_node 0 t @ r) = Done (ts, r)" "and_node ts = t"
    using assms n r by (auto elim: and_readsE [of t r n'])
  then show "\<exists>ts. parse_or n (print_node 0 t @ r) = Done (ts, r) \<and> or_node ts = t"
    using r by (simp add: n' stops_def or_node_def del: obind_Done_iff)
qed

lemma or_reads_unit:
  assumes "or_reads t" "print_node 2 t = bracketed (print_node 0 t)"
  shows "unit_reads t"
  unfolding unit_reads_def
proof (intro allI impI)
  fix n and r :: "token list" assume n: "3 * length (print_node 2 t) \<le> n" and r: "r \<noteq> []"
  then obtain n' where n': "n = Suc n'" by (cases n) (auto simp: assms bracketed_def)
  let ?r = "tok RParen '')'' 0 # r"
  have s: "stops ''and'' ?r" "stops ''or'' ?r" by (simp_all add: stops_def)
  have l: "3 * length (print_node 0 t) + 2 \<le> n'" using n by (simp add: n' assms bracketed_def)
  obtain ts where "parse_or n' (print_node 0 t @ ?r) = Done (ts, ?r)" "or_node ts = t"
    by (rule or_readsE [OF assms(1) s l])
  then show "parseUnit n (print_node 2 t @ r) = Done (t, r)"
    by (simp add: n' assms bracketed_def del: obind_Done_iff)
qed

lemma parse_or_terms:
  assumes "\<And>t. t \<in> set ts \<Longrightarrow> and_reads t" "ts \<noteq> []" "stops ''and'' r" "stops ''or'' r"
    and "3 * length (joined (word ''OR'') (map (print_node 1) ts)) + 2 \<le> n"
  shows "parse_or n (joined (word ''OR'') (map (print_node 1) ts) @ r) = Done (ts, r)"
  using assms
proof (induction ts arbitrary: n)
  case (Cons t ts)
  then obtain n' where n: "n = Suc n'" by (cases n) auto
  have t: "and_reads t" using Cons.prems(1) by simp
  show ?case
  proof (cases ts)
    case Nil
    have l: "3 * length (print_node 1 t) + 1 \<le> n'" using Cons.prems(5) by (simp add: n Nil)
    obtain us where "parse_and n' (print_node 1 t @ r) = Done (us, r)" "and_node us = t"
      by (rule and_readsE [OF t Cons.prems(3) l])
    with Nil Cons.prems show ?thesis by (simp add: n stops_def del: obind_Done_iff)
  next
    case (Cons u us)
    let ?rest = "word ''OR'' # joined (word ''OR'') (map (print_node 1) ts) @ r"
    have "parse_or n' (tl ?rest) = Done (ts, r)"
      using Cons.IH [of n'] Cons.prems by (simp add: Cons n)
    moreover have s: "stops ''and'' ?rest" by (simp add: stops_def word_def)
    have l: "3 * length (print_node 1 t) + 1 \<le> n'" using Cons.prems(5) by (simp add: n Cons)
    obtain vs where "parse_and n' (print_node 1 t @ ?rest) = Done (vs, ?rest)" "and_node vs = t"
      by (rule and_readsE [OF t s l])
    ultimately show ?thesis by (simp add: n Cons word_def del: obind_Done_iff)
  qed
qed simp

lemma canonical_reads: "canonical t \<Longrightarrow> unit_reads t \<and> and_reads t \<and> or_reads t"
proof (induction t)
  case (Or ts)
  then have "or_reads (Or ts)"
    using parse_or_terms [of ts] or_node_long [of ts]
    by (fastforce simp: or_reads_def [of "Or ts"] list_all_iff)
  then show ?case
    using or_reads_unit [of "Or ts"] unit_reads_and [of "Or ts"] by simp
next
  case (And ts)
  then have "and_reads (And ts)"
    using parse_and_terms [of ts] and_node_long [of ts]
    by (fastforce simp: and_reads_def [of "And ts"] unit_reads_def list_all_iff)
  then show ?case
    using or_reads_unit [of "And ts"] and_reads_or [of "And ts"] by simp
next
  case (Not t)
  then have "unit_reads t" by simp
  have "parseUnit n (print_node 2 (Not t) @ r) = Done (Not t, r)"
    if n: "3 * length (print_node 2 (Not t)) \<le> n" and r: "r \<noteq> []" for n r
  proof -
    obtain n' where "n = Suc n'" using n by (cases n) auto
    with \<open>unit_reads t\<close> n r show ?thesis
      by (simp add: unit_reads_def word_def del: obind_Done_iff)
  qed
  then have "unit_reads (Not t)" by (simp add: unit_reads_def)
  then show ?case using unit_reads_and [of "Not t"] and_reads_or [of "Not t"] by simp
next
  case (Clause f op vs)
  have "parseUnit n (print_node 2 (Clause f op vs) @ r) = Done (Clause f op vs, r)"
    if n: "3 * length (print_node 2 (Clause f op vs)) \<le> n" for n r
  proof -
    obtain n' where n': "n = Suc n'" using n by (cases n) auto
    obtain xs where xs: "print_node 2 (Clause f op vs) = quoted f # xs" by simp
    show ?thesis
      using parseClause_print [OF Clause, of 2 r] unfolding n' xs
      by (simp add: quoted_def del: obind_Done_iff)
  qed
  then have "unit_reads (Clause f op vs)" by (simp add: unit_reads_def)
  then show ?case using unit_reads_and [of "Clause f op vs"] and_reads_or [of "Clause f op vs"] by simp
qed

text \<open>Property C23: the parser reads back every query tree printed with the fewest brackets, so \<open>NOT\<close> binds
  tighter than \<open>AND\<close>, \<open>AND\<close> tighter than \<open>OR\<close>, and brackets undo both; no clause, value, call or term is
  lost, reordered or regrouped.\<close>
theorem printed_query_reads_back:
  assumes "canonical t"
  shows "parse_root (print_node 0 t @ [tok Eof [] i]) = Done t"
proof -
  let ?e = "[tok Eof [] i]"
  have s: "stops ''and'' ?e" "stops ''or'' ?e" by (simp_all add: stops_def)
  have l: "3 * length (print_node 0 t) + 2 \<le> 3 * length (print_node 0 t @ ?e) + 3" by simp
  have r: "or_reads t" using canonical_reads [OF assms] by simp
  obtain ts where "parse_or (3 * length (print_node 0 t @ ?e) + 3) (print_node 0 t @ ?e) = Done (ts, ?e)" "or_node ts = t"
    by (rule or_readsE [OF r s l])
  then have p: "parseOr (print_node 0 t @ ?e) = Done (t, ?e)" unfolding parseOr_def by simp
  obtain x xs where "print_node 0 t @ ?e = x # xs" "t_kind x \<noteq> Eof"
    using print_node_not_Eof [OF assms, of 0] by auto
  with p show ?thesis by (simp add: parse_root_def del: obind_Done_iff)
qed

lemma printed_query_reads_back_witness:
  "parse_root (print_node 0
      (Or [And [Clause ''space'' ''='' [literal ''DEV''], Not (Or [Clause ''label'' ''in'' [literal ''a'', literal ''b''],
        Clause ''creator'' ''!='' [call ''currentuser'' []]])], Clause ''text'' ''~'' [literal ''plan'']])
      @ [tok Eof [] 0])
   = Done (Or [And [Clause ''space'' ''='' [literal ''DEV''], Not (Or [Clause ''label'' ''in'' [literal ''a'', literal ''b''],
        Clause ''creator'' ''!='' [call ''currentuser'' []]])], Clause ''text'' ''~'' [literal ''plan'']])"
  by (rule printed_query_reads_back) code_simp

end
