(* ===== verification/GoDate.thy ===== *)
theory GoDate
  imports GoTime
begin

text \<open>
  Dates in UTC to the nanosecond, as \<open>time.Date\<close>, \<open>AddDate\<close> and \<open>time.Parse\<close> handle them. Years are
  unbounded here; Go's calendar holds some 292 billion of them on either side of 0.
\<close>

section \<open>Instants\<close>

definition nanos :: int where "nanos = 10 ^ 9"

definition day_nanos :: int where "day_nanos = 86400 * nanos"

lemma day_nanos_pos [simp]: "0 < day_nanos" "day_nanos \<noteq> 0"
  by (simp_all add: day_nanos_def nanos_def)

text \<open>The day of a year, month and day, none of which needs to lie in its range.\<close>

definition norm_day :: "int \<Rightarrow> int \<Rightarrow> int \<Rightarrow> int" where
  "norm_day y m d = day_number (y + (m - 1) div 12) ((m - 1) mod 12 + 1) d"

text \<open>\<open>time.Date(y, m, d, 0, 0, 0, 0, time.UTC)\<close> and \<open>AddDate\<close> of an instant in UTC.\<close>

definition utc_date :: "int \<Rightarrow> int \<Rightarrow> int \<Rightarrow> int" where
  "utc_date y m d = norm_day y m d * day_nanos"

definition utc_add_date :: "int \<Rightarrow> int \<Rightarrow> int \<Rightarrow> int \<Rightarrow> int" where
  "utc_add_date t ys ms ds =
     (case civil (t div day_nanos) of (y, m, d) \<Rightarrow>
        norm_day (y + ys) (m + ms) (d + ds) * day_nanos + t mod day_nanos)"

lemma norm_day_id: "1 \<le> m \<Longrightarrow> m \<le> 12 \<Longrightarrow> norm_day y m d = day_number y m d"
  by (simp add: norm_day_def)

lemma norm_day_shift: "norm_day y m (d + k) = norm_day y m d + k"
  by (simp add: norm_day_def day_number_def)

lemma norm_day_civil: "civil n = (y, m, d) \<Longrightarrow> norm_day y m d = n"
  using civil_range day_number_civil by (metis norm_day_id)

text \<open>Adding days to an instant in UTC moves it by that many whole days.\<close>

lemma utc_add_days: "utc_add_date t 0 0 k = t + k * day_nanos"
proof -
  obtain y m d where c: "civil (t div day_nanos) = (y, m, d)" by (metis prod_cases3)
  have "utc_add_date t 0 0 k = (t div day_nanos + k) * day_nanos + t mod day_nanos"
    using norm_day_civil [OF c] by (simp add: utc_add_date_def c norm_day_shift)
  then show ?thesis by (simp only: distrib_right) (simp add: algebra_simps)
qed

text \<open>Months and years of whole dates.\<close>

lemma year_start_mono: "y \<le> z \<Longrightarrow> year_start y + 365 * (z - y) \<le> year_start z"
proof (induction "nat (z - y)" arbitrary: z)
  case (Suc n)
  then have "year_start y + 365 * (z - 1 - y) \<le> year_start (z - 1)" by (intro Suc.hyps) simp_all
  then show ?case using year_start_step [of "z - 1"] by (auto split: if_splits)
qed simp

lemma year_of_unique: "year_start y \<le> n \<Longrightarrow> n < year_start (y + 1) \<Longrightarrow> year_of n = y"
proof -
  assume n: "year_start y \<le> n" "n < year_start (y + 1)"
  have "\<not> y + 1 \<le> year_of n" using year_start_mono [of "y + 1" "year_of n"] year_of_bounds [of n] n by auto
  moreover have "\<not> year_of n + 1 \<le> y" using year_start_mono [of "year_of n + 1" y] year_of_bounds [of n] n by auto
  ultimately show ?thesis by simp
qed

section \<open>Reading dates\<close>

text \<open>Numbers of a fixed width, and of one or two digits.\<close>

definition digit_value :: "char \<Rightarrow> int" where
  "digit_value c = int (of_char c) - 48"

fun two_digits :: "string \<Rightarrow> (int \<times> string) option" where
  "two_digits (c # d # r) =
     (if is_digit c \<and> is_digit d then Some (10 * digit_value c + digit_value d, r) else None)"
| "two_digits s = None"

fun one_or_two_digits :: "string \<Rightarrow> (int \<times> string) option" where
  "one_or_two_digits [] = None"
| "one_or_two_digits (c # r) =
     (if \<not> is_digit c then None
      else case two_digits (c # r) of Some x \<Rightarrow> Some x | None \<Rightarrow> Some (digit_value c, r))"

definition four_digits :: "string \<Rightarrow> (int \<times> string) option" where
  "four_digits s =
     Option.bind (two_digits s) (\<lambda>(a, r). Option.bind (two_digits r) (\<lambda>(b, r'). Some (100 * a + b, r')))"

fun skip_char :: "char \<Rightarrow> string \<Rightarrow> string option" where
  "skip_char c [] = None"
| "skip_char c (d # r) = (if d = c then Some r else None)"

text \<open>A space of a layout matches one or more of them.\<close>

definition skip_spaces :: "string \<Rightarrow> string option" where
  "skip_spaces s = Option.bind (skip_char CHR '' '' s) (\<lambda>r. Some (dropWhile (\<lambda>c. c = CHR '' '') r))"

definition in_range :: "int \<Rightarrow> int \<Rightarrow> (int \<times> string) option \<Rightarrow> (int \<times> string) option" where
  "in_range lo hi x = Option.bind x (\<lambda>(n, r). if lo \<le> n \<and> n \<le> hi then Some (n, r) else None)"

definition month_days :: "int \<Rightarrow> int \<Rightarrow> int" where
  "month_days y m = norm_day y (m + 1) 1 - norm_day y m 1"

text \<open>The layouts \<open>2006\<close>, \<open>2006-01\<close> and \<open>2006-01-02\<close> at the front of a text.\<close>

definition read_month :: "string \<Rightarrow> ((int \<times> int) \<times> string) option" where
  "read_month s =
     Option.bind (four_digits s) (\<lambda>(y, r).
     Option.bind (skip_char CHR ''-'' r) (\<lambda>r.
     Option.bind (in_range 1 12 (two_digits r)) (\<lambda>(m, r). Some ((y, m), r))))"

definition read_day :: "string \<Rightarrow> (int \<times> string) option" where
  "read_day s =
     Option.bind (read_month s) (\<lambda>((y, m), r).
     Option.bind (skip_char CHR ''-'' r) (\<lambda>r.
     Option.bind (in_range 1 (month_days y m) (two_digits r)) (\<lambda>(d, r). Some (day_number y m d, r))))"

definition read_clock :: "string \<Rightarrow> (int \<times> string) option" where
  "read_clock s =
     Option.bind (in_range 0 23 (one_or_two_digits s)) (\<lambda>(h, r).
     Option.bind (skip_char CHR '':'' r) (\<lambda>r.
     Option.bind (in_range 0 59 (two_digits r)) (\<lambda>(mi, r). Some (h * 3600 + mi * 60, r))))"

text \<open>After the seconds, a fraction is read although the layout has none; the digits after the ninth are
  dropped.\<close>

fun fraction_value :: "nat \<Rightarrow> string \<Rightarrow> int" where
  "fraction_value 0 ds = 0"
| "fraction_value (Suc n) [] = 0"
| "fraction_value (Suc n) (d # ds) = digit_value d * 10 ^ n + fraction_value n ds"

fun read_fraction :: "string \<Rightarrow> int \<times> string" where
  "read_fraction (c # d # r) =
     (if c \<in> {CHR ''.'', CHR '',''} \<and> is_digit d
      then (fraction_value 9 (takeWhile is_digit (d # r)), dropWhile is_digit (d # r))
      else (0, c # d # r))"
| "read_fraction s = (0, s)"

text \<open>The layout \<open>2006-01-02T15:04:05\<close>, in nanoseconds.\<close>

definition read_seconds :: "string \<Rightarrow> (int \<times> string) option" where
  "read_seconds s =
     Option.bind (read_day s) (\<lambda>(n, r).
     Option.bind (skip_char CHR ''T'' r) (\<lambda>r.
     Option.bind (read_clock r) (\<lambda>(c, r).
     Option.bind (skip_char CHR '':'' r) (\<lambda>r.
     Option.bind (in_range 0 59 (two_digits r)) (\<lambda>(sec, r).
       case read_fraction r of (f, r') \<Rightarrow> Some ((n * 86400 + c + sec) * nanos + f, r'))))))"

text \<open>The zone \<open>Z07:00\<close>, in seconds east of UTC.\<close>

definition read_zone :: "string \<Rightarrow> (int \<times> string) option" where
  "read_zone s =
     (case s of
        [] \<Rightarrow> None
      | c # r \<Rightarrow>
          if c = CHR ''Z'' then Some (0, r)
          else if c \<in> {CHR ''+'', CHR ''-''} then
            Option.bind (in_range 0 24 (two_digits r)) (\<lambda>(h, r).
            Option.bind (skip_char CHR '':'' r) (\<lambda>r.
            Option.bind (in_range 0 60 (two_digits r)) (\<lambda>(mi, r).
              Some ((if c = CHR ''-'' then -1 else 1) * (h * 3600 + mi * 60), r))))
          else None)"

definition at_end :: "('a \<times> string) option \<Rightarrow> 'a option" where
  "at_end x = Option.bind x (\<lambda>(n, r). if r = [] then Some n else None)"

end
