(* ===== verification/CqlCompile.thy ===== *)
theory CqlCompile
  imports CqlParse GoDate
begin

text \<open>
  \<open>internal/cql/compile.go\<close>: a parsed query becomes a SQL predicate over the view of what can be
  searched, with the arguments its markers stand for. An instant is a number of nanoseconds in UTC.
\<close>

section \<open>The vocabulary\<close>

datatype fieldKind = kindText | kindArray | kindDate | kindFullText

record fieldSpec =
  fs_column :: string
  fs_kind :: fieldKind
  fs_user :: bool

definition spec :: "string \<Rightarrow> fieldKind \<Rightarrow> bool \<Rightarrow> fieldSpec" where
  "spec c k u = \<lparr>fs_column = c, fs_kind = k, fs_user = u\<rparr>"

definition field_table :: "(string \<times> fieldSpec) list" where
  "field_table =
     [(''type'', spec ''entity_type'' kindText False),
      (''id'', spec ''entity_id'' kindText False),
      (''space'', spec ''space_key'' kindText False),
      (''space.type'', spec ''space_type'' kindText False),
      (''title'', spec ''title'' kindText False),
      (''status'', spec ''status'' kindText False),
      (''text'', spec [] kindFullText False),
      (''parent'', spec ''parent_id'' kindText False),
      (''container'', spec ''container_id'' kindText False),
      (''creator'', spec ''creator'' kindText True),
      (''created'', spec ''created_at'' kindDate False),
      (''lastmodified'', spec ''last_modified'' kindDate False),
      (''label'', spec ''labels'' kindArray False),
      (''contributor'', spec ''contributors'' kindArray True),
      (''watcher'', spec ''watchers'' kindArray True),
      (''favourite'', spec ''favourited_by'' kindArray True),
      (''ancestor'', spec ''ancestors'' kindArray False),
      (''macro'', spec ''macros'' kindArray False),
      (''mention'', spec ''mentions'' kindArray True)]"

definition orderColumns :: "(string \<times> string) list" where
  "orderColumns =
     [(''created'', ''created_at''), (''lastmodified'', ''last_modified''), (''title'', ''title''),
      (''id'', ''entity_id''), (''type'', ''entity_type''), (''space'', ''space_key'')]"

text \<open>\<open>sorted\<close>: the value at \<open>j\<close> is swapped down while it is below its neighbour. The order in which Go
  ranges over the map of fields is not determined, so it is an argument of \<open>Fields\<close>.\<close>

fun sink :: "nat \<Rightarrow> string list \<Rightarrow> string list" where
  "sink 0 xs = xs"
| "sink (Suc j) xs =
     (if xs ! Suc j < xs ! j then sink j (xs[Suc j := xs ! j, j := xs ! Suc j]) else xs)"

definition sorted_values :: "string list \<Rightarrow> string list" where
  "sorted_values values = fold sink [1..<length values] values"

definition Fields :: "string list \<Rightarrow> string list" where
  "Fields ranged = sorted_values ranged"

section \<open>The compiler's state\<close>

record Context =
  Actor :: string
  Now :: int
  CurrentSpace :: string

datatype argument = Text string | Texts "string list" | Moment int | Number int

record compiler =
  c_args :: "argument list"
  c_next :: int

type_synonym 'a compiled = "(cql_error, 'a \<times> compiler) outcome"

definition placeholder :: "argument \<Rightarrow> compiler \<Rightarrow> string \<times> compiler" where
  "placeholder value c =
     (CHR ''$'' # itoa (c_next c), \<lparr>c_args = c_args c @ [value], c_next = wrap64 (c_next c + 1)\<rparr>)"

definition join_strings :: "string \<Rightarrow> string list \<Rightarrow> string" where
  "join_strings sep xs =
     (case xs of [] \<Rightarrow> [] | y # ys \<Rightarrow> y @ concat (map (\<lambda>x. sep @ x) ys))"

fun order_terms :: "Order list \<Rightarrow> (cql_error, string list) outcome" where
  "order_terms [] = Done []"
| "order_terms (ord # ords) =
     (case map_of orderColumns (o_field ord) of
        None \<Rightarrow> Fail (SemanticError ''results cannot be ordered by %q'' [o_field ord])
      | Some column \<Rightarrow>
          omap (Cons (column @ (if o_desc ord then '' DESC'' else '' ASC''))) (order_terms ords))"

definition compileOrder :: "Order list \<Rightarrow> (cql_error, string) outcome" where
  "compileOrder orders =
     (if orders = [] then Done ''last_modified DESC, entity_type, entity_id''
      else omap (\<lambda>terms. join_strings '', '' (terms @ [''entity_type'', ''entity_id''])) (order_terms orders))"

section \<open>Values\<close>

fun escapeLike :: "string \<Rightarrow> string" where
  "escapeLike [] = []"
| "escapeLike (c # r) = (if c \<in> {CHR 0x5C, CHR ''%'', CHR ''_''} then CHR 0x5C # c # escapeLike r else c # escapeLike r)"

definition containing :: "string \<Rightarrow> argument" where
  "containing v = Text (''%'' @ escapeLike v @ ''%'')"

definition resolve :: "Context \<Rightarrow> Value \<Rightarrow> fieldSpec \<Rightarrow> (cql_error, string) outcome" where
  "resolve ctx v fs =
     (if v_function v = [] then Done (v_literal v)
      else if v_function v = ''currentuser'' then
        (if v_arguments v \<noteq> [] then Fail (SemanticError ''currentUser() takes no arguments'' [])
         else if \<not> fs_user fs then
           Fail (SemanticError ''currentUser() names a person, so it belongs with a field that holds one'' [])
         else Done (Actor ctx))
      else if v_function v = ''currentspace'' then
        (if v_arguments v \<noteq> [] then Fail (SemanticError ''currentSpace() takes no arguments'' [])
         else if CurrentSpace ctx = [] then
           Fail (SemanticError ''currentSpace() needs a space, which is given in cqlcontext'' [])
         else Done (CurrentSpace ctx))
      else Fail (SemanticError ''unknown function %q()'' [v_function v]))"

fun resolveAll :: "Context \<Rightarrow> Value list \<Rightarrow> fieldSpec \<Rightarrow> (cql_error, string list) outcome" where
  "resolveAll ctx [] fs = Done []"
| "resolveAll ctx (v # vs) fs =
     obind (resolve ctx v fs) (\<lambda>s. omap (Cons s) (resolveAll ctx vs fs))"

text \<open>\<open>values[0]\<close>, and a predicate with one argument in the middle.\<close>

fun first_value :: "string list \<Rightarrow> (cql_error, string) outcome" where
  "first_value [] = Crash"
| "first_value (v # vs) = Done v"

definition with_argument :: "string \<Rightarrow> argument \<Rightarrow> string \<Rightarrow> compiler \<Rightarrow> string \<times> compiler" where
  "with_argument front a rear c = (case placeholder a c of (m, c') \<Rightarrow> (front @ m @ rear, c'))"

section \<open>Dates\<close>

definition isWholeDay :: "Value \<Rightarrow> bool" where
  "isWholeDay v \<longleftrightarrow> v_function v = [] \<and> length (v_literal v) = length ''2006-01-02''"

definition weekdayOffset :: "int \<Rightarrow> int" where
  "weekdayOffset t = (let day = weekday (t div day_nanos) in if day = 0 then 6 else day - 1)"

definition truncateDay :: "int \<Rightarrow> int" where
  "truncateDay t = (case civil (t div day_nanos) of (y, m, d) \<Rightarrow> utc_date y m d)"

text \<open>\<open>dateLayouts\<close>, in order: each a way to read a whole text.\<close>

definition dateLayouts :: "(string \<Rightarrow> int option) list" where
  "dateLayouts =
     [\<lambda>s. at_end (Option.bind (read_day s) (\<lambda>(n, r). Option.bind (skip_spaces r) (\<lambda>r.
            Option.bind (read_clock r) (\<lambda>(k, r). Some ((n * 86400 + k) * nanos, r))))),
      \<lambda>s. at_end (Option.bind (read_seconds s) (\<lambda>(t, r).
            Option.bind (read_zone r) (\<lambda>(z, r). Some (t - z * nanos, r)))),
      \<lambda>s. at_end (read_seconds s),
      \<lambda>s. map_option (\<lambda>n. n * day_nanos) (at_end (read_day s)),
      \<lambda>s. map_option (\<lambda>(y, m). utc_date y m 1) (at_end (read_month s)),
      \<lambda>s. map_option (\<lambda>y. utc_date y 1 1) (at_end (four_digits s))]"

fun first_layout :: "(string \<Rightarrow> int option) list \<Rightarrow> string \<Rightarrow> int option" where
  "first_layout [] s = None"
| "first_layout (l # ls) s = (case l s of Some t \<Rightarrow> Some t | None \<Rightarrow> first_layout ls s)"

definition parseDate :: "string \<Rightarrow> (cql_error, int) outcome" where
  "parseDate s =
     (case first_layout dateLayouts (trim_space s) of
        Some t \<Rightarrow> Done t
      | None \<Rightarrow> Fail (SemanticError ''a date is written as yyyy-mm-dd or yyyy-mm-dd hh:mm, not %q'' [trim_space s]))"

definition offset_error :: cql_error where
  "offset_error = SemanticError ''an offset is a number and a unit, as in %q'' [''-7d'']"

definition applyOffset :: "int \<Rightarrow> string \<Rightarrow> (cql_error, int) outcome" where
  "applyOffset base offset =
     (case trim_space offset of
        [] \<Rightarrow> Done base
      | c # r \<Rightarrow>
          let (sign, rest) = (if c = CHR ''-'' then (-1, r) else if c = CHR ''+'' then (1, r) else (1, c # r))
          in if rest = [] then Fail offset_error
             else case atoi (butlast rest) of
                 None \<Rightarrow> Fail offset_error
               | Some n \<Rightarrow>
                   if n < 0 then Fail offset_error
                   else
                     let number = n * sign; unit = last rest
                     in if unit = CHR ''m'' then Done (base + wrap64 (number * (60 * nanos)))
                        else if unit = CHR ''h'' then Done (base + wrap64 (number * (3600 * nanos)))
                        else if unit = CHR ''d'' then Done (utc_add_date base 0 0 number)
                        else if unit = CHR ''w'' then Done (utc_add_date base 0 0 (wrap64 (7 * number)))
                        else if unit = CHR ''M'' then Done (utc_add_date base 0 number 0)
                        else if unit = CHR ''y'' then Done (utc_add_date base number 0 0)
                        else Fail (SemanticError ''an offset unit is m, h, d, w, M or y'' []))"

text \<open>The moment a call names, before its offset.\<close>

definition call_base :: "int \<Rightarrow> string \<Rightarrow> int option" where
  "call_base now f =
     (case civil (now div day_nanos) of (y, m, d) \<Rightarrow>
       if f = ''now'' then Some now
       else if f = ''startofday'' then Some (truncateDay now)
       else if f = ''endofday'' then Some (utc_add_date (truncateDay now) 0 0 1 - nanos)
       else if f = ''startofweek'' then Some (utc_add_date (truncateDay now) 0 0 (- weekdayOffset now))
       else if f = ''endofweek'' then Some (utc_add_date (truncateDay now) 0 0 (7 - weekdayOffset now) - nanos)
       else if f = ''startofmonth'' then Some (utc_date y m 1)
       else if f = ''endofmonth'' then Some (utc_add_date (utc_date y m 1) 0 1 0 - nanos)
       else if f = ''startofyear'' then Some (utc_date y 1 1)
       else if f = ''endofyear'' then Some (utc_add_date (utc_date y 1 1) 1 0 0 - nanos)
       else None)"

text \<open>\<open>time.Time\<close>'s zero value; \<open>clock\<close> is what \<open>time.Now\<close> answers.\<close>

definition zero_time :: int where
  "zero_time = utc_date 1 1 1"

definition instant :: "int \<Rightarrow> Context \<Rightarrow> Value \<Rightarrow> (cql_error, int) outcome" where
  "instant clock ctx v =
     (let now = (if Now ctx = zero_time then clock else Now ctx)
      in if v_function v = [] then parseDate (v_literal v)
         else if length (v_arguments v) > 1 then
           Fail (SemanticError ''%s() takes at most one offset'' [v_function v])
         else
           let offset = (case v_arguments v of [] \<Rightarrow> [] | a # _ \<Rightarrow> a)
           in case call_base now (v_function v) of
                None \<Rightarrow> Fail (SemanticError ''unknown function %q() in a date'' [v_function v])
              | Some base \<Rightarrow> if offset = [] then Done base else applyOffset base offset)"

section \<open>Clauses\<close>

definition favourite_set :: "string \<Rightarrow> string" where
  "favourite_set marker =
     ''space_key IN (SELECT target_key FROM wiki_relations WHERE name='favourite' AND source_type='user' AND target_type='space' AND source_key='' @ marker @ '')''"

text \<open>\<open>subquery\<close> answers None for a clause that it does not handle.\<close>

definition subquery :: "Context \<Rightarrow> string \<Rightarrow> Value list \<Rightarrow> fieldSpec \<Rightarrow> compiler \<Rightarrow> string option compiled" where
  "subquery ctx op values fs c =
     (case values of
        [v] \<Rightarrow>
          if v_function v \<noteq> ''favouritespaces'' then Done (None, c)
          else if fs_column fs \<noteq> ''space_key'' then
            Fail (SemanticError ''favouriteSpaces() names spaces, so it belongs with the space field'' [])
          else
            let (marker, c') = placeholder (Text (Actor ctx)) c; set = favourite_set marker
            in if op = ''='' \<or> op = ''in'' then Done (Some set, c')
               else if op = ''!='' \<or> op = ''not in'' then Done (Some (''NOT ('' @ set @ '')''), c')
               else Fail (SemanticError ''favouriteSpaces() compares with =, !=, IN or NOT IN'' [])
      | _ \<Rightarrow> Done (None, c))"

definition text_clause :: "Context \<Rightarrow> string \<Rightarrow> string \<Rightarrow> Value list \<Rightarrow> fieldSpec \<Rightarrow> compiler \<Rightarrow> string compiled" where
  "text_clause ctx field op values fs c =
     obind (subquery ctx op values fs c) (\<lambda>(handled, c).
       case handled of
         Some p \<Rightarrow> Done (p, c)
       | None \<Rightarrow>
           obind (resolveAll ctx values fs) (\<lambda>vs.
             if op = ''='' then obind (first_value vs) (\<lambda>v. Done (with_argument (fs_column fs @ '' = '') (Text v) [] c))
             else if op = ''!='' then obind (first_value vs) (\<lambda>v. Done (with_argument (fs_column fs @ '' <> '') (Text v) [] c))
             else if op = ''~'' then
               obind (first_value vs) (\<lambda>v. Done (with_argument (fs_column fs @ '' ILIKE '') (containing v) [] c))
             else if op = ''!~'' then
               obind (first_value vs) (\<lambda>v. Done (with_argument (fs_column fs @ '' NOT ILIKE '') (containing v) [] c))
             else if op = ''in'' then Done (with_argument (fs_column fs @ '' = ANY('') (Texts vs) '')'' c)
             else if op = ''not in'' then Done (with_argument (''NOT ('' @ fs_column fs @ '' = ANY('') (Texts vs) ''))'' c)
             else Fail (SemanticError ''%q compares with =, !=, ~, !~, IN or NOT IN'' [field])))"

definition fullText :: "Context \<Rightarrow> string \<Rightarrow> Value list \<Rightarrow> compiler \<Rightarrow> string compiled" where
  "fullText ctx op values c =
     obind (resolveAll ctx values (spec [] kindText False)) (\<lambda>vs.
       if op = ''~'' then
         obind (first_value vs) (\<lambda>v. case placeholder (containing v) c of (m, c') \<Rightarrow>
           Done (''(title ILIKE '' @ m @ '' OR body ILIKE '' @ m @ '')'', c'))
       else if op = ''!~'' then
         obind (first_value vs) (\<lambda>v. case placeholder (containing v) c of (m, c') \<Rightarrow>
           Done (''(title NOT ILIKE '' @ m @ '' AND body NOT ILIKE '' @ m @ '')'', c'))
       else Fail (SemanticError ''text compares with ~ or !~'' []))"

definition array_clause :: "Context \<Rightarrow> string \<Rightarrow> string \<Rightarrow> Value list \<Rightarrow> fieldSpec \<Rightarrow> compiler \<Rightarrow> string compiled" where
  "array_clause ctx field op values fs c =
     obind (resolveAll ctx values fs) (\<lambda>vs.
       if op = ''='' then
         obind (first_value vs) (\<lambda>v. Done (with_argument [] (Text v) ('' = ANY('' @ fs_column fs @ '')'') c))
       else if op = ''!='' then
         obind (first_value vs) (\<lambda>v. Done (with_argument ''NOT ('' (Text v) ('' = ANY('' @ fs_column fs @ ''))'') c))
       else if op = ''~'' then
         obind (first_value vs) (\<lambda>v. Done (with_argument
           (''EXISTS (SELECT 1 FROM unnest('' @ fs_column fs @ '') AS element WHERE element ILIKE '') (containing v) '')'' c))
       else if op = ''!~'' then
         obind (first_value vs) (\<lambda>v. Done (with_argument
           (''NOT EXISTS (SELECT 1 FROM unnest('' @ fs_column fs @ '') AS element WHERE element ILIKE '') (containing v) '')'' c))
       else if op = ''in'' then Done (with_argument (fs_column fs @ '' && '') (Texts vs) [] c)
       else if op = ''not in'' then Done (with_argument (''NOT ('' @ fs_column fs @ '' && '') (Texts vs) '')'' c)
       else Fail (SemanticError ''%q compares with =, !=, ~, !~, IN or NOT IN'' [field]))"

definition date_clause :: "int \<Rightarrow> Context \<Rightarrow> string \<Rightarrow> string \<Rightarrow> Value list \<Rightarrow> fieldSpec \<Rightarrow> compiler \<Rightarrow> string compiled" where
  "date_clause clock ctx field op values fs c =
     (if op \<notin> {''='', ''!='', ''<'', ''<='', ''>'', ''>=''} then
        Fail (SemanticError ''%q compares with =, !=, <, <=, > or >='' [field])
      else case values of
        [v] \<Rightarrow>
          obind (instant clock ctx v) (\<lambda>moment.
            if op \<in> {''='', ''!=''} \<and> isWholeDay v then
              (case placeholder (Moment moment) c of (low, c1) \<Rightarrow>
               case placeholder (Moment (utc_add_date moment 0 0 1)) c1 of (high, c2) \<Rightarrow>
                 let within = ''('' @ fs_column fs @ '' >= '' @ low @ '' AND '' @ fs_column fs @ '' < '' @ high @ '')''
                 in Done (if op = ''!='' then ''NOT '' @ within else within, c2))
            else Done (with_argument (fs_column fs @ '' '' @ op @ '' '') (Moment moment) [] c))
      | _ \<Rightarrow> Fail (SemanticError ''%q compares against one date'' [field]))"

definition clause :: "string list \<Rightarrow> int \<Rightarrow> Context \<Rightarrow> string \<Rightarrow> string \<Rightarrow> Value list \<Rightarrow> compiler \<Rightarrow> string compiled" where
  "clause ranged clock ctx field op values c =
     (case map_of field_table field of
        None \<Rightarrow> Fail (SemanticError ''unknown field %q; searchable fields are %s'' [field, join_strings '', '' (Fields ranged)])
      | Some fs \<Rightarrow>
          (case fs_kind fs of
             kindFullText \<Rightarrow> fullText ctx op values c
           | kindDate \<Rightarrow> date_clause clock ctx field op values fs c
           | kindArray \<Rightarrow> array_clause ctx field op values fs c
           | kindText \<Rightarrow> text_clause ctx field op values fs c))"

section \<open>Nodes\<close>

fun node :: "string list \<Rightarrow> int \<Rightarrow> Context \<Rightarrow> Node \<Rightarrow> compiler \<Rightarrow> string compiled"
  and terms :: "string list \<Rightarrow> int \<Rightarrow> Context \<Rightarrow> Node list \<Rightarrow> compiler \<Rightarrow> string list compiled"
where
  "node ranged clock ctx (Or ts) c =
     (if ts = [] then Done (''false'', c)
      else obind (terms ranged clock ctx ts c) (\<lambda>(ps, c). Done (join_strings '' OR '' ps, c)))"
| "node ranged clock ctx (And ts) c =
     (if ts = [] then Done (''true'', c)
      else obind (terms ranged clock ctx ts c) (\<lambda>(ps, c). Done (join_strings '' AND '' ps, c)))"
| "node ranged clock ctx (Not n) c =
     obind (node ranged clock ctx n c) (\<lambda>(p, c). Done (''NOT ('' @ p @ '')'', c))"
| "node ranged clock ctx (Clause f op vs) c = clause ranged clock ctx f op vs c"
| "terms ranged clock ctx [] c = Done ([], c)"
| "terms ranged clock ctx (t # ts) c =
     obind (node ranged clock ctx t c) (\<lambda>(p, c).
     obind (terms ranged clock ctx ts c) (\<lambda>(ps, c). Done ((''('' @ p @ '')'') # ps, c)))"

definition Compile ::
  "string list \<Rightarrow> int \<Rightarrow> Query \<Rightarrow> Context \<Rightarrow> int \<Rightarrow> (cql_error, string \<times> argument list \<times> string) outcome" where
  "Compile ranged clock query ctx firstArg =
     obind (node ranged clock ctx (q_root query) \<lparr>c_args = [], c_next = firstArg\<rparr>) (\<lambda>(predicate, c).
     obind (compileOrder (q_orders query)) (\<lambda>order. Done (predicate, c_args c, order)))"

end
