(* ===== verification/CqlMeaning.thy ===== *)
theory CqlMeaning
  imports CqlCompile
begin

text \<open>
  What a query asks of an entity, what the emitted SQL asks of a row, and that the two agree: the
  predicate \<open>Compile\<close> emits, read by SQL's precedence with its arguments in place of its markers, holds
  of exactly the rows the query describes.
\<close>

section \<open>Rows\<close>

text \<open>A row of the searchable view: none of its columns is NULL. Of the database the model takes how
  \<open>ILIKE\<close> matches, which spaces a reader has marked as favourites, and what the driver makes of an
  instant (PostgreSQL keeps microseconds).\<close>

record row =
  row_text :: "string \<Rightarrow> string"
  row_array :: "string \<Rightarrow> string list"
  row_time :: "string \<Rightarrow> int"

record engine =
  ilike :: "string \<Rightarrow> string \<Rightarrow> bool"
  favourites :: "string \<Rightarrow> string set"
  stamp :: "int \<Rightarrow> int"

section \<open>What a query asks\<close>

definition named_value :: "Context \<Rightarrow> Value \<Rightarrow> string" where
  "named_value ctx v =
     (if v_function v = [] then v_literal v
      else if v_function v = ''currentuser'' then Actor ctx else CurrentSpace ctx)"

definition like_text :: "engine \<Rightarrow> string \<Rightarrow> string \<Rightarrow> bool" where
  "like_text E s v = ilike E s (''%'' @ escapeLike v @ ''%'')"

text \<open>The four operators that a value is compared by, and the complement that each of the others is.\<close>

definition positive :: "string \<Rightarrow> string" where
  "positive op = (if op = ''!='' then ''='' else if op = ''!~'' then ''~'' else if op = ''not in'' then ''in'' else op)"

definition text_holds :: "engine \<Rightarrow> Context \<Rightarrow> row \<Rightarrow> string \<Rightarrow> string \<Rightarrow> Value list \<Rightarrow> bool" where
  "text_holds E ctx r column op vs =
     (if map v_function vs = [''favouritespaces''] then row_text r ''space_key'' \<in> favourites E (Actor ctx)
      else let s = row_text r column; names = map (named_value ctx) vs
        in if op = ''='' then s = hd names
           else if op = ''~'' then like_text E s (hd names)
           else s \<in> set names)"

definition array_holds :: "engine \<Rightarrow> Context \<Rightarrow> row \<Rightarrow> string \<Rightarrow> string \<Rightarrow> Value list \<Rightarrow> bool" where
  "array_holds E ctx r column op vs =
     (let xs = row_array r column; names = map (named_value ctx) vs
      in if op = ''='' then hd names \<in> set xs
         else if op = ''~'' then list_ex (\<lambda>x. like_text E x (hd names)) xs
         else list_ex (\<lambda>x. x \<in> set names) xs)"

definition text_or_body_holds :: "engine \<Rightarrow> Context \<Rightarrow> row \<Rightarrow> Value list \<Rightarrow> bool" where
  "text_or_body_holds E ctx r vs =
     (let v = named_value ctx (hd vs) in like_text E (row_text r ''title'') v \<or> like_text E (row_text r ''body'') v)"

definition compares :: "string \<Rightarrow> int \<Rightarrow> int \<Rightarrow> bool" where
  "compares op t u =
     (if op = ''='' then t = u else if op = ''!='' then t \<noteq> u
      else if op = ''<'' then t < u else if op = ''<='' then t \<le> u
      else if op = ''>'' then t > u else t \<ge> u)"

definition date_holds :: "engine \<Rightarrow> int \<Rightarrow> Context \<Rightarrow> row \<Rightarrow> string \<Rightarrow> string \<Rightarrow> Value list \<Rightarrow> bool" where
  "date_holds E clock ctx r column op vs =
     (case instant clock ctx (hd vs) of
        Done m \<Rightarrow>
          let t = row_time r column
          in if op = ''='' \<and> isWholeDay (hd vs) then stamp E m \<le> t \<and> t < stamp E (m + day_nanos)
             else compares op t (stamp E m)
      | _ \<Rightarrow> False)"

definition clause_holds :: "engine \<Rightarrow> int \<Rightarrow> Context \<Rightarrow> row \<Rightarrow> string \<Rightarrow> string \<Rightarrow> Value list \<Rightarrow> bool" where
  "clause_holds E clock ctx r field op vs =
     (case map_of field_table field of
        None \<Rightarrow> False
      | Some fs \<Rightarrow>
          (case fs_kind fs of
             kindFullText \<Rightarrow> text_or_body_holds E ctx r vs
           | kindDate \<Rightarrow> date_holds E clock ctx r (fs_column fs) op vs
           | kindArray \<Rightarrow> array_holds E ctx r (fs_column fs) op vs
           | kindText \<Rightarrow> text_holds E ctx r (fs_column fs) op vs))"

fun matches :: "engine \<Rightarrow> int \<Rightarrow> Context \<Rightarrow> row \<Rightarrow> Node \<Rightarrow> bool" where
  "matches E clock ctx r (Or ts) = list_ex (matches E clock ctx r) ts"
| "matches E clock ctx r (And ts) = list_all (matches E clock ctx r) ts"
| "matches E clock ctx r (Not n) = (\<not> matches E clock ctx r n)"
| "matches E clock ctx r (Clause f op vs) =
     (if positive op = op then clause_holds E clock ctx r f op vs
      else \<not> clause_holds E clock ctx r f (positive op) vs)"

section \<open>What the SQL asks\<close>

definition marker :: "int \<Rightarrow> string" where
  "marker k = CHR ''$'' # itoa k"

definition argument_at :: "argument list \<Rightarrow> int \<Rightarrow> argument option" where
  "argument_at as k = (if 1 \<le> k \<and> k \<le> int (length as) then Some (as ! nat (k - 1)) else None)"

text \<open>Comparisons, with the argument each marker stands for.\<close>

definition sql_literal :: "string \<Rightarrow> string" where
  "sql_literal v = CHR 0x27 # v @ [CHR 0x27]"

inductive atom :: "engine \<Rightarrow> argument list \<Rightarrow> string \<Rightarrow> (row \<Rightarrow> bool) \<Rightarrow> bool" for E as where
  true: "atom E as ''true'' (\<lambda>r. True)"
| false: "atom E as ''false'' (\<lambda>r. False)"
| eq: "argument_at as k = Some (Text v) \<Longrightarrow> atom E as (c @ '' = '' @ marker k) (\<lambda>r. row_text r c = v)"
| neq: "argument_at as k = Some (Text v) \<Longrightarrow> atom E as (c @ '' <> '' @ marker k) (\<lambda>r. row_text r c \<noteq> v)"
| fixed_text: "CHR 0x27 \<notin> set v \<Longrightarrow> op \<in> {'' = '', '' <> ''} \<Longrightarrow>
    atom E as (c @ op @ sql_literal v) (\<lambda>r. (row_text r c = v) = (op = '' = ''))"
| ilike: "argument_at as k = Some (Text p) \<Longrightarrow> atom E as (c @ '' ILIKE '' @ marker k) (\<lambda>r. ilike E (row_text r c) p)"
| not_ilike: "argument_at as k = Some (Text p) \<Longrightarrow>
    atom E as (c @ '' NOT ILIKE '' @ marker k) (\<lambda>r. \<not> ilike E (row_text r c) p)"
| any_of: "argument_at as k = Some (Texts vs) \<Longrightarrow>
    atom E as (c @ '' = ANY('' @ marker k @ '')'') (\<lambda>r. row_text r c \<in> set vs)"
| element: "argument_at as k = Some (Text v) \<Longrightarrow>
    atom E as (marker k @ '' = ANY('' @ c @ '')'') (\<lambda>r. v \<in> set (row_array r c))"
| exists_element: "argument_at as k = Some (Text p) \<Longrightarrow>
    atom E as (''EXISTS (SELECT 1 FROM unnest('' @ c @ '') AS element WHERE element ILIKE '' @ marker k @ '')'')
      (\<lambda>r. list_ex (\<lambda>x. ilike E x p) (row_array r c))"
| overlap: "argument_at as k = Some (Texts vs) \<Longrightarrow>
    atom E as (c @ '' && '' @ marker k) (\<lambda>r. list_ex (\<lambda>x. x \<in> set vs) (row_array r c))"
| time: "argument_at as k = Some (Moment m) \<Longrightarrow> op \<in> {''='', ''!='', ''<'', ''<='', ''>'', ''>=''} \<Longrightarrow>
    atom E as (c @ '' '' @ op @ '' '' @ marker k) (\<lambda>r. compares op (row_time r c) (stamp E m))"
| favourite: "argument_at as k = Some (Text a) \<Longrightarrow>
    atom E as (favourite_set (marker k)) (\<lambda>r. row_text r ''space_key'' \<in> favourites E a)"

text \<open>A text read as a disjunction (level 0), a conjunction (1) or a unit (2) of SQL, and what it asks of a
  row: \<open>NOT\<close> binds tighter than \<open>AND\<close>, and \<open>AND\<close> tighter than \<open>OR\<close>.\<close>

inductive reads_as :: "engine \<Rightarrow> argument list \<Rightarrow> nat \<Rightarrow> string \<Rightarrow> (row \<Rightarrow> bool) \<Rightarrow> bool" for E as where
  atom: "atom E as p f \<Longrightarrow> reads_as E as 2 p f"
| bracket: "reads_as E as 0 p f \<Longrightarrow> reads_as E as 2 (''('' @ p @ '')'') f"
| negation: "reads_as E as 2 p f \<Longrightarrow> reads_as E as 2 (''NOT '' @ p) (\<lambda>r. \<not> f r)"
| unit: "reads_as E as 2 p f \<Longrightarrow> reads_as E as 1 p f"
| conjunction: "reads_as E as 2 p f \<Longrightarrow> reads_as E as 1 q g \<Longrightarrow>
    reads_as E as 1 (p @ '' AND '' @ q) (\<lambda>r. f r \<and> g r)"
| single: "reads_as E as 1 p f \<Longrightarrow> reads_as E as 0 p f"
| disjunction: "reads_as E as 1 p f \<Longrightarrow> reads_as E as 0 q g \<Longrightarrow>
    reads_as E as 0 (p @ '' OR '' @ q) (\<lambda>r. f r \<or> g r)"

lemma reads_unit: "reads_as E as 2 p f \<Longrightarrow> reads_as E as 0 p f"
  by (intro reads_as.single reads_as.unit)

lemma reads_below: "reads_as E as l p f \<Longrightarrow> l \<le> 2 \<Longrightarrow> reads_as E as 0 p f"
proof -
  assume "reads_as E as l p f" "l \<le> 2"
  moreover from this have "l = 0 \<or> l = 1 \<or> l = 2" by auto
  ultimately show ?thesis by (auto intro: reads_as.single reads_unit)
qed

lemma reads_not: "reads_as E as 0 p f \<Longrightarrow> reads_as E as 2 (''NOT ('' @ p @ '')'') (\<lambda>r. \<not> f r)"
  using reads_as.negation [OF reads_as.bracket, of E as p f] by simp

text \<open>Bracketed terms, joined.\<close>

lemma join_strings_simps [simp]:
  "join_strings sep [x] = x"
  "join_strings sep (x # y # ys) = x @ sep @ join_strings sep (y # ys)"
  by (simp_all add: join_strings_def)

lemma reads_or_join:
  "list_all2 (reads_as E as 2) ps fs \<Longrightarrow> ps \<noteq> [] \<Longrightarrow>
   reads_as E as 0 (join_strings '' OR '' ps) (\<lambda>r. list_ex (\<lambda>f. f r) fs)"
proof (induction ps fs rule: list_all2_induct)
  case (Cons p ps f fs)
  show ?case
  proof (cases ps)
    case Nil
    with Cons show ?thesis by (auto intro: reads_unit)
  next
    case (Cons q qs)
    with Cons.IH have "reads_as E as 0 (join_strings '' OR '' ps) (\<lambda>r. list_ex (\<lambda>f. f r) fs)" by simp
    from reads_as.disjunction [OF reads_as.unit [OF Cons.hyps(1)] this] show ?thesis
      by (simp add: \<open>ps = q # qs\<close>)
  qed
qed simp

lemma reads_and_join:
  "list_all2 (reads_as E as 2) ps fs \<Longrightarrow> ps \<noteq> [] \<Longrightarrow>
   reads_as E as 1 (join_strings '' AND '' ps) (\<lambda>r. list_all (\<lambda>f. f r) fs)"
proof (induction ps fs rule: list_all2_induct)
  case (Cons p ps f fs)
  show ?case
  proof (cases ps)
    case Nil
    with Cons show ?thesis by (simp add: reads_as.unit [unfolded One_nat_def])
  next
    case (Cons q qs)
    with Cons.IH have "reads_as E as 1 (join_strings '' AND '' ps) (\<lambda>r. list_all (\<lambda>f. f r) fs)" by simp
    from reads_as.conjunction [OF Cons.hyps(1) this] show ?thesis
      by (simp add: \<open>ps = q # qs\<close>)
  qed
qed simp

section \<open>What the compiler emits\<close>

text \<open>A step of the compiler that answers \<open>p\<close> appends its arguments. When the markers were counted right
  before it (after the caller's own arguments \<open>pre\<close>) they are so after it, and \<open>p\<close> asks for \<open>f\<close> at
  level \<open>l\<close> however the arguments go on.\<close>

definition counted :: "argument list \<Rightarrow> compiler \<Rightarrow> bool" where
  "counted pre c \<longleftrightarrow> c_next c = int (length pre + length (c_args c)) + 1"

definition fits :: "argument list \<Rightarrow> compiler \<Rightarrow> bool" where
  "fits pre c \<longleftrightarrow> int (length pre + length (c_args c)) + 1 < 2 ^ 63"

definition emits :: "engine \<Rightarrow> argument list \<Rightarrow> nat \<Rightarrow> compiler \<Rightarrow> string \<Rightarrow> compiler \<Rightarrow> (row \<Rightarrow> bool) \<Rightarrow> bool" where
  "emits E pre l c p c' f \<longleftrightarrow>
     prefix (c_args c) (c_args c') \<and>
     (fits pre c' \<longrightarrow> counted pre c \<longrightarrow> counted pre c' \<and> (\<forall>post. reads_as E (pre @ c_args c' @ post) l p f))"

lemma placeholder_counts:
  assumes "placeholder a c = (m, c')"
  shows "prefix (c_args c) (c_args c')" "m = marker (c_next c)" "fits pre c' \<Longrightarrow> fits pre c"
    "fits pre c' \<Longrightarrow> counted pre c \<Longrightarrow> counted pre c'"
    "counted pre c \<Longrightarrow> argument_at (pre @ c_args c' @ post) (c_next c) = Some a"
  using assms
  by (auto simp: placeholder_def marker_def counted_def fits_def wrap64_id argument_at_def nth_append)

lemma emits_with_argument:
  assumes "with_argument front a rear c = (p, c')"
    and "\<And>as k. argument_at as k = Some a \<Longrightarrow> reads_as E as l (front @ marker k @ rear) f"
  shows "emits E pre l c p c' f"
proof -
  obtain m where m: "placeholder a c = (m, c')" and p: "p = front @ m @ rear"
    using assms(1) by (auto simp: with_argument_def split: prod.splits)
  note m' = placeholder_counts [OF m]
  show ?thesis
    unfolding emits_def p m'(2) using m'(1,3,4,5) assms(2) by blast
qed

lemma emits_atom:
  assumes "with_argument front a rear c = (p, c')"
    and "\<And>as k. argument_at as k = Some a \<Longrightarrow> atom E as (front @ marker k @ rear) f"
  shows "emits E pre 2 c p c' f"
  using assms by (intro emits_with_argument [OF assms(1)] reads_as.atom)

lemma fits_prefix: "prefix (c_args c) (c_args c') \<Longrightarrow> fits pre c' \<Longrightarrow> fits pre c"
  by (auto simp: fits_def prefix_def)

text \<open>Reading on: what was read with fewer arguments is read the same with more.\<close>

lemma emits_then:
  assumes "emits E pre l c p c' f" "prefix (c_args c') (c_args d)" "fits pre d" "counted pre c"
  shows "reads_as E (pre @ c_args d @ post) l p f" "counted pre c'"
proof -
  obtain xs where xs: "c_args d = c_args c' @ xs" using assms(2) by (auto elim: prefixE)
  have "fits pre c'" using assms(2,3) by (rule fits_prefix)
  then have "counted pre c' \<and> reads_as E (pre @ c_args c' @ xs @ post) l p f"
    using assms(1,4) unfolding emits_def by blast
  then show "reads_as E (pre @ c_args d @ post) l p f" "counted pre c'" by (simp_all add: xs)
qed

lemma emits_not: "emits E pre 0 c p c' f \<Longrightarrow> emits E pre 2 c (''NOT ('' @ p @ '')'') c' (\<lambda>r. \<not> f r)"
  unfolding emits_def using reads_not by blast

lemma emits_negation: "emits E pre 2 c p c' f \<Longrightarrow> emits E pre 2 c (''NOT '' @ p) c' (\<lambda>r. \<not> f r)"
  unfolding emits_def using reads_as.negation by blast

lemma emits_mono: "emits E pre 2 c p c' f \<Longrightarrow> emits E pre 0 c p c' f"
  unfolding emits_def using reads_unit by blast

lemma emits_cong: "emits E pre l c p c' f \<Longrightarrow> (\<And>r. g r = f r) \<Longrightarrow> emits E pre l c p c' g"
proof -
  assume e: "emits E pre l c p c' f" and eq: "\<And>r. g r = f r"
  from eq have "g = f" by (rule ext)
  with e show "emits E pre l c p c' g" by simp
qed

lemma resolve_named: "resolve ctx v fs = Done s \<Longrightarrow> s = named_value ctx v"
  by (auto simp: resolve_def named_value_def split: if_splits)

lemma resolveAll_named: "resolveAll ctx vs fs = Done ss \<Longrightarrow> ss = map (named_value ctx) vs"
  by (induction vs arbitrary: ss) (auto dest: resolve_named)

lemma first_value_named:
  "resolveAll ctx vs fs = Done ss \<Longrightarrow> first_value ss = Done s \<Longrightarrow> s = hd (map (named_value ctx) vs)"
  by (cases ss) (auto dest: resolveAll_named)

section \<open>Clauses\<close>

lemma emits_text:
  "with_argument (col @ '' = '') (Text v) [] c = (p, c') \<Longrightarrow> emits E pre 2 c p c' (\<lambda>r. row_text r col = v)"
  "with_argument (col @ '' <> '') (Text v) [] c = (p, c') \<Longrightarrow> emits E pre 2 c p c' (\<lambda>r. row_text r col \<noteq> v)"
  "with_argument (col @ '' ILIKE '') (containing v) [] c = (p, c') \<Longrightarrow>
     emits E pre 2 c p c' (\<lambda>r. like_text E (row_text r col) v)"
  "with_argument (col @ '' NOT ILIKE '') (containing v) [] c = (p, c') \<Longrightarrow>
     emits E pre 2 c p c' (\<lambda>r. \<not> like_text E (row_text r col) v)"
  "with_argument (col @ '' = ANY('') (Texts vs) '')'' c = (p, c') \<Longrightarrow>
     emits E pre 2 c p c' (\<lambda>r. row_text r col \<in> set vs)"
  unfolding containing_def like_text_def
  by (erule emits_atom, use atom.eq [of _ _ v E col] atom.neq [of _ _ v E col] atom.ilike [of _ _ _ E col]
    atom.not_ilike [of _ _ _ E col] atom.any_of [of _ _ vs E col] in simp)+

lemma emits_array:
  "with_argument [] (Text v) ('' = ANY('' @ col @ '')'') c = (p, c') \<Longrightarrow>
     emits E pre 2 c p c' (\<lambda>r. v \<in> set (row_array r col))"
  "with_argument (''EXISTS (SELECT 1 FROM unnest('' @ col @ '') AS element WHERE element ILIKE '') (containing v) '')'' c = (p, c') \<Longrightarrow>
     emits E pre 2 c p c' (\<lambda>r. list_ex (\<lambda>x. like_text E x v) (row_array r col))"
  "with_argument (col @ '' && '') (Texts vs) [] c = (p, c') \<Longrightarrow>
     emits E pre 2 c p c' (\<lambda>r. list_ex (\<lambda>x. x \<in> set vs) (row_array r col))"
  unfolding containing_def like_text_def
  by (erule emits_atom, use atom.element [of _ _ v E col] atom.exists_element [of _ _ _ E col]
    atom.overlap [of _ _ vs E col] in simp)+

text \<open>The negated forms wrap the text of a positive one.\<close>

lemma with_argument_wrapped:
  "with_argument (x @ front) a (rear @ y) c = (p, c') \<longleftrightarrow>
   (\<exists>q. with_argument front a rear c = (q, c') \<and> p = x @ q @ y)"
  by (auto simp: with_argument_def split: prod.splits)

lemma emits_negated:
  assumes "with_argument (''NOT ('' @ front) a (rear @ '')'') c = (p, c')"
    and "\<And>q. with_argument front a rear c = (q, c') \<Longrightarrow> emits E pre 2 c q c' f"
  shows "emits E pre 2 c p c' (\<lambda>r. \<not> f r)"
proof -
  obtain q where "with_argument front a rear c = (q, c')" "p = ''NOT ('' @ q @ '')''"
    using assms(1) unfolding with_argument_wrapped by blast
  with assms(2) show ?thesis using emits_not emits_mono by blast
qed

lemma emits_not_exists:
  assumes "with_argument (''NOT '' @ front) a rear c = (p, c')"
    and "\<And>q. with_argument front a rear c = (q, c') \<Longrightarrow> emits E pre 2 c q c' f"
  shows "emits E pre 2 c p c' (\<lambda>r. \<not> f r)"
proof -
  obtain q where "with_argument front a rear c = (q, c')" "p = ''NOT '' @ q"
    using assms(1) with_argument_wrapped [of "''NOT ''" front a rear "[]"] by auto
  with assms(2) show ?thesis using emits_negation by blast
qed

text \<open>A clause's own meaning: its operator's, or the complement of the operator it negates.\<close>

definition complemented :: "string \<Rightarrow> (string \<Rightarrow> row \<Rightarrow> bool) \<Rightarrow> row \<Rightarrow> bool" where
  "complemented op h r = (if positive op = op then h op r else \<not> h (positive op) r)"

lemma array_clause_emits:
  assumes "array_clause ctx field op vs fs c = Done (p, c')"
  shows "emits E pre 2 c p c' (complemented op (\<lambda>op r. array_holds E ctx r (fs_column fs) op vs))"
proof -
  let ?col = "fs_column fs"
  obtain ss where ss: "resolveAll ctx vs fs = Done ss"
    using assms by (auto simp: array_clause_def)
  note names = resolveAll_named [OF ss] first_value_named [OF ss]
  consider (eq) v where "op = ''=''" "v = hd (map (named_value ctx) vs)"
      "with_argument [] (Text v) ('' = ANY('' @ ?col @ '')'') c = (p, c')"
    | (neq) v where "op = ''!=''" "v = hd (map (named_value ctx) vs)"
      "with_argument ''NOT ('' (Text v) ('' = ANY('' @ ?col @ ''))'') c = (p, c')"
    | (like) v where "op = ''~''" "v = hd (map (named_value ctx) vs)"
      "with_argument (''EXISTS (SELECT 1 FROM unnest('' @ ?col @ '') AS element WHERE element ILIKE '') (containing v) '')'' c = (p, c')"
    | (unlike) v where "op = ''!~''" "v = hd (map (named_value ctx) vs)"
      "with_argument (''NOT EXISTS (SELECT 1 FROM unnest('' @ ?col @ '') AS element WHERE element ILIKE '') (containing v) '')'' c = (p, c')"
    | (within) "op = ''in''" "with_argument (?col @ '' && '') (Texts (map (named_value ctx) vs)) [] c = (p, c')"
    | (without) "op = ''not in''"
      "with_argument (''NOT ('' @ ?col @ '' && '') (Texts (map (named_value ctx) vs)) '')'' c = (p, c')"
    using assms names by (auto simp: array_clause_def ss simp del: append.simps split: if_splits)
  then show ?thesis
  proof cases
    case eq
    show ?thesis
      by (rule emits_cong [OF emits_array(1) [OF eq(3)]]) (simp add: eq complemented_def positive_def array_holds_def)
  next
    case neq
    have w: "with_argument (''NOT ('' @ []) (Text v) (('' = ANY('' @ ?col @ '')'') @ '')'') c = (p, c')"
      using neq(3) by simp
    show ?thesis
      by (rule emits_cong, rule emits_negated [OF w], erule emits_array(1)) (simp add: neq complemented_def positive_def array_holds_def)
  next
    case like
    show ?thesis
      by (rule emits_cong [OF emits_array(2) [OF like(3)]]) (simp add: like complemented_def positive_def array_holds_def)
  next
    case unlike
    have w: "with_argument (''NOT '' @ (''EXISTS (SELECT 1 FROM unnest('' @ ?col @ '') AS element WHERE element ILIKE ''))
        (containing v) '')'' c = (p, c')" using unlike(3) by simp
    show ?thesis
      by (rule emits_cong, rule emits_not_exists [OF w], erule emits_array(2)) (simp add: unlike complemented_def positive_def array_holds_def)
  next
    case within
    show ?thesis
      by (rule emits_cong [OF emits_array(3) [OF within(2)]]) (simp add: within complemented_def positive_def array_holds_def)
  next
    case without
    have w: "with_argument (''NOT ('' @ (?col @ '' && '')) (Texts (map (named_value ctx) vs)) ([] @ '')'') c = (p, c')"
      using without(2) by simp
    show ?thesis
      by (rule emits_cong, rule emits_negated [OF w], erule emits_array(3)) (simp add: without complemented_def positive_def array_holds_def)
  qed
qed

lemma subquery_emits:
  assumes "subquery ctx op vs fs c = Done (Some p, c')"
  shows "emits E pre 2 c p c' (complemented op (\<lambda>op r. text_holds E ctx r (fs_column fs) op vs))"
proof -
  obtain v where v: "vs = [v]" "v_function v = ''favouritespaces''"
    using assms by (auto simp: subquery_def split: list.splits if_splits)
  obtain m where m: "placeholder (Text (Actor ctx)) c = (m, c')"
    and p: "op = ''='' \<or> op = ''in'' \<Longrightarrow> p = favourite_set m"
      "op = ''!='' \<or> op = ''not in'' \<Longrightarrow> p = ''NOT ('' @ favourite_set m @ '')''"
    and op: "op = ''='' \<or> op = ''in'' \<or> op = ''!='' \<or> op = ''not in''"
    using assms by (auto simp: subquery_def v Let_def split: prod.splits if_splits)
  note m' = placeholder_counts [OF m]
  have set: "emits E pre 2 c (favourite_set m) c' (\<lambda>r. row_text r ''space_key'' \<in> favourites E (Actor ctx))"
    unfolding emits_def m'(2) using m' by (blast intro: reads_as.atom atom.favourite)
  have holds: "text_holds E ctx r (fs_column fs) op' vs = (row_text r ''space_key'' \<in> favourites E (Actor ctx))" for op' r
    by (simp add: text_holds_def v)
  from op consider "op = ''='' \<or> op = ''in''" | "op = ''!='' \<or> op = ''not in''" by blast
  then show ?thesis
  proof cases
    case 1
    with set show ?thesis unfolding p(1) [OF 1]
      by (elim emits_cong) (auto simp: holds complemented_def positive_def)
  next
    case 2
    from emits_not [OF emits_mono [OF set]] show ?thesis unfolding p(2) [OF 2]
      by (rule emits_cong) (use 2 in \<open>auto simp: holds complemented_def positive_def\<close>)
  qed
qed

lemma subquery_None: "subquery ctx op vs fs c = Done (None, d) \<Longrightarrow> d = c \<and> map v_function vs \<noteq> [''favouritespaces'']"
  by (auto simp: subquery_def Let_def split: list.splits if_splits prod.splits)

lemma text_clause_emits:
  assumes "text_clause ctx field op vs fs c = Done (p, c')"
  shows "emits E pre 2 c p c' (complemented op (\<lambda>op r. text_holds E ctx r (fs_column fs) op vs))"
proof (cases "\<exists>q d. subquery ctx op vs fs c = Done (Some q, d)")
  case True
  then have "subquery ctx op vs fs c = Done (Some p, c')"
    using assms by (auto simp: text_clause_def)
  then show ?thesis by (rule subquery_emits)
next
  case False
  let ?col = "fs_column fs" and ?names = "map (named_value ctx) vs"
  have sub: "subquery ctx op vs fs c = Done (None, c)" and plain: "map v_function vs \<noteq> [''favouritespaces'']"
    using assms False subquery_None [of ctx op vs fs c] by (auto simp: text_clause_def split: option.splits)
  obtain ss where ss: "resolveAll ctx vs fs = Done ss"
    using assms by (auto simp: text_clause_def sub)
  note names = resolveAll_named [OF ss] first_value_named [OF ss]
  note holds = complemented_def positive_def text_holds_def plain Let_def
  consider (eq) "op = ''=''" "with_argument (?col @ '' = '') (Text (hd ?names)) [] c = (p, c')"
    | (neq) "op = ''!=''" "with_argument (?col @ '' <> '') (Text (hd ?names)) [] c = (p, c')"
    | (like) "op = ''~''" "with_argument (?col @ '' ILIKE '') (containing (hd ?names)) [] c = (p, c')"
    | (unlike) "op = ''!~''" "with_argument (?col @ '' NOT ILIKE '') (containing (hd ?names)) [] c = (p, c')"
    | (within) "op = ''in''" "with_argument (?col @ '' = ANY('') (Texts ?names) '')'' c = (p, c')"
    | (without) "op = ''not in''"
      "with_argument (''NOT ('' @ ?col @ '' = ANY('') (Texts ?names) ''))'' c = (p, c')"
    using assms names by (auto simp: text_clause_def sub ss simp del: append.simps split: if_splits)
  then show ?thesis
  proof cases
    case eq
    show ?thesis by (rule emits_cong [OF emits_text(1) [OF eq(2)]]) (simp add: eq(1) holds)
  next
    case neq
    show ?thesis by (rule emits_cong [OF emits_text(2) [OF neq(2)]]) (simp add: neq(1) holds)
  next
    case like
    show ?thesis by (rule emits_cong [OF emits_text(3) [OF like(2)]]) (simp add: like(1) holds)
  next
    case unlike
    show ?thesis by (rule emits_cong [OF emits_text(4) [OF unlike(2)]]) (simp add: unlike(1) holds)
  next
    case within
    show ?thesis by (rule emits_cong [OF emits_text(5) [OF within(2)]]) (simp add: within(1) holds)
  next
    case without
    have w: "with_argument (''NOT ('' @ ?col @ '' = ANY('') (Texts ?names) ('')'' @ '')'') c = (p, c')"
      using without(2) by simp
    show ?thesis
      by (rule emits_cong, rule emits_negated [OF w], erule emits_text(5)) (simp add: without(1) holds)
  qed
qed

lemma fullText_emits:
  assumes "fullText ctx op vs c = Done (p, c')"
  shows "emits E pre 2 c p c' (complemented op (\<lambda>op r. text_or_body_holds E ctx r vs))"
proof -
  let ?v = "hd (map (named_value ctx) vs)"
  obtain ss where ss: "resolveAll ctx vs (spec [] kindText False) = Done ss" "vs \<noteq> []"
    using assms by (cases vs) (auto simp: fullText_def split: if_splits)
  have fv: "first_value ss = Done ?v" using ss by (cases vs) (auto simp: resolveAll_named [OF ss(1)])
  obtain m d where d: "placeholder (containing ?v) c = (m, d)" by fastforce
  have m: "placeholder (containing ?v) c = (m, c')"
    and p: "op = ''~'' \<Longrightarrow> p = ''('' @ ((''title'' @ '' ILIKE '' @ m) @ '' OR '' @ (''body'' @ '' ILIKE '' @ m)) @ '')''"
      "op = ''!~'' \<Longrightarrow> p = ''('' @ ((''title'' @ '' NOT ILIKE '' @ m) @ '' AND '' @ (''body'' @ '' NOT ILIKE '' @ m)) @ '')''"
    and op: "op = ''~'' \<or> op = ''!~''"
    using assms by (auto simp: fullText_def ss(1) fv d split: if_splits)
  note m' = placeholder_counts [OF m]
  have v: "hd (map (named_value ctx) vs) = named_value ctx (hd vs)" using ss(2) by (cases vs) auto
  have at: "argument_at as k = Some (containing ?v) \<Longrightarrow>
      atom E as (col @ '' ILIKE '' @ marker k) (\<lambda>r. like_text E (row_text r col) ?v) \<and>
      atom E as (col @ '' NOT ILIKE '' @ marker k) (\<lambda>r. \<not> like_text E (row_text r col) ?v)" for as k col
    unfolding like_text_def containing_def by (intro conjI atom.ilike atom.not_ilike)
  from op show ?thesis
  proof
    assume op: "op = ''~''"
    have "argument_at as k = Some (containing ?v) \<Longrightarrow>
      reads_as E as 2 (''('' @ ((''title'' @ '' ILIKE '' @ marker k) @ '' OR '' @ (''body'' @ '' ILIKE '' @ marker k)) @ '')'')
        (\<lambda>r. like_text E (row_text r ''title'') ?v \<or> like_text E (row_text r ''body'') ?v)" for as k
      by (rule reads_as.bracket, rule reads_as.disjunction, rule reads_as.unit, rule reads_as.atom,
          erule at [THEN conjunct1], rule reads_unit, rule reads_as.atom, erule at [THEN conjunct1])
    then have "emits E pre 2 c p c' (\<lambda>r. like_text E (row_text r ''title'') ?v \<or> like_text E (row_text r ''body'') ?v)"
      unfolding emits_def p(1) [OF op] m'(2) using m'(1,3,4,5) by blast
    then show ?thesis by (rule emits_cong) (simp add: op complemented_def positive_def text_or_body_holds_def v Let_def)
  next
    assume op: "op = ''!~''"
    have "argument_at as k = Some (containing ?v) \<Longrightarrow>
      reads_as E as 2 (''('' @ ((''title'' @ '' NOT ILIKE '' @ marker k) @ '' AND '' @ (''body'' @ '' NOT ILIKE '' @ marker k)) @ '')'')
        (\<lambda>r. \<not> like_text E (row_text r ''title'') ?v \<and> \<not> like_text E (row_text r ''body'') ?v)" for as k
      by (rule reads_as.bracket, rule reads_as.single, rule reads_as.conjunction, rule reads_as.atom,
          erule at [THEN conjunct2], rule reads_as.unit, rule reads_as.atom, erule at [THEN conjunct2])
    then have "emits E pre 2 c p c' (\<lambda>r. \<not> like_text E (row_text r ''title'') ?v \<and> \<not> like_text E (row_text r ''body'') ?v)"
      unfolding emits_def p(2) [OF op] m'(2) using m'(1,3,4,5) by blast
    then show ?thesis by (rule emits_cong) (simp add: op complemented_def positive_def text_or_body_holds_def v Let_def)
  qed
qed

lemma date_clause_emits:
  assumes "date_clause clock ctx field op vs fs c = Done (p, c')"
  shows "emits E pre 2 c p c' (complemented op (\<lambda>op r. date_holds E clock ctx r (fs_column fs) op vs))"
proof -
  let ?col = "fs_column fs"
  let ?cmp = "\<lambda>t. ?col @ '' '' @ t @ '' ''"
  obtain v m where v: "vs = [v]" "instant clock ctx v = Done m" and op: "op \<in> {''='', ''!='', ''<'', ''<='', ''>'', ''>=''}"
    using assms by (auto simp: date_clause_def split: if_splits list.splits)
  have op_le: "''<='' \<in> {''='', ''!='', ''<'', ''<='', ''>'', ''>=''}" by simp
  show ?thesis
  proof (cases "op \<in> {''='', ''!=''} \<and> isWholeDay v")
    case True
    let ?f = "\<lambda>r. stamp E m \<le> row_time r ?col \<and> row_time r ?col < stamp E (m + day_nanos)"
    obtain low c1 where l: "placeholder (Moment m) c = (low, c1)" by fastforce
    obtain high c2 where h: "placeholder (Moment (utc_add_date m 0 0 1)) c1 = (high, c2)" by fastforce
    note l' = placeholder_counts [OF l] and h' = placeholder_counts [OF h]
    let ?within = "''('' @ (?col @ '' >= '' @ low) @ '' AND '' @ (?col @ '' < '' @ high) @ '')''"
    have p: "p = (if op = ''!='' then ''NOT '' @ ?within else ?within)" "c2 = c'"
      using assms True by (auto simp: date_clause_def v l h split: if_splits)
    have within: "emits E pre 2 c ?within c' ?f"
      unfolding emits_def
    proof (intro conjI impI allI)
      show pre: "prefix (c_args c) (c_args c')" using l'(1) h'(1) p(2) by auto
      assume fits: "fits pre c'" and count: "counted pre c"
      then have c1: "counted pre c1" using l'(4) h'(3) p(2) by blast
      then show "counted pre c'" using h'(4) fits p(2) by blast
      fix post
      obtain xs where xs: "c_args c' = c_args c1 @ xs" using h'(1) p(2) by (auto elim: prefixE)
      have lo: "atom E (pre @ c_args c' @ post) (?col @ '' >= '' @ low) (\<lambda>r. compares ''>='' (row_time r ?col) (stamp E m))"
        using atom.time [of "pre @ c_args c' @ post" "c_next c" m "''>=''" E ?col] l'(5) [OF count, of "xs @ post"]
        by (simp add: xs l'(2))
      have hi: "atom E (pre @ c_args c' @ post) (?col @ '' < '' @ high) (\<lambda>r. compares ''<'' (row_time r ?col) (stamp E (m + day_nanos)))"
        using atom.time [of "pre @ c_args c' @ post" "c_next c1" "m + day_nanos" "''<''" E ?col] h'(5) [OF c1, of post]
        by (simp add: p(2) h'(2) utc_add_days)
      from reads_as.bracket [OF reads_as.single [OF reads_as.conjunction [OF reads_as.atom [OF lo] reads_as.unit [OF reads_as.atom [OF hi]]]]]
      show "reads_as E (pre @ c_args c' @ post) 2 ?within ?f"
        by (simp add: compares_def)
    qed
    show ?thesis
    proof (cases "op = ''!=''")
      case op: True
      have "emits E pre 2 c (''NOT '' @ ?within) c' (\<lambda>r. \<not> ?f r)"
        using within by (rule emits_negation)
      with op True show ?thesis unfolding p(1)
        by (simp only: op if_True) (erule emits_cong, use True in \<open>simp add: Let_def complemented_def positive_def date_holds_def v\<close>)
    next
      case False
      with True have op: "op = ''=''" by blast
      from within show ?thesis unfolding p(1)
        by (simp only: op if_False) (rule emits_cong, use True in \<open>auto simp: op complemented_def positive_def date_holds_def v Let_def\<close>)
    qed
  next
    case False
    have w: "with_argument (?cmp op) (Moment m) [] c = (p, c')"
      using assms False op by (auto simp: date_clause_def v split: if_splits)
    have "emits E pre 2 c p c' (\<lambda>r. compares op (row_time r ?col) (stamp E m))"
      using w by (rule emits_atom) (use atom.time [OF _ op, of _ _ m E ?col] in simp)
    then show ?thesis
    proof (rule emits_cong)
      fix r
      consider "op = ''!=''" "\<not> isWholeDay v" | "positive op = op" using op False by (auto simp: positive_def)
      then show "complemented op (\<lambda>op r. date_holds E clock ctx r ?col op vs) r = compares op (row_time r ?col) (stamp E m)"
      proof cases
        case 1
        then show ?thesis by (simp add: complemented_def positive_def date_holds_def v compares_def)
      next
        case 2
        have "\<not> (op = ''='' \<and> isWholeDay v)" using False by blast
        with 2 show ?thesis by (simp only: complemented_def date_holds_def v Let_def list.sel outcome.case refl if_True if_False)
      qed
    qed
  qed
qed

lemma clause_emits:
  assumes "clause ranged clock ctx f op vs c = Done (p, c')"
  shows "emits E pre 2 c p c' (\<lambda>r. matches E clock ctx r (Clause f op vs))"
proof -
  obtain fs where fs: "map_of field_table f = Some fs"
    using assms by (auto simp: clause_def split: option.splits)
  have m: "matches E clock ctx r (Clause f op vs) = complemented op (\<lambda>op r. clause_holds E clock ctx r f op vs) r" for r
    by (simp add: complemented_def)
  show ?thesis
  proof (cases "fs_kind fs")
    case kindText
    with assms have "text_clause ctx f op vs fs c = Done (p, c')" by (simp add: clause_def fs)
    then show ?thesis by (elim emits_cong [OF text_clause_emits]) (simp add: m clause_holds_def fs kindText complemented_def)
  next
    case kindArray
    with assms have "array_clause ctx f op vs fs c = Done (p, c')" by (simp add: clause_def fs)
    then show ?thesis by (elim emits_cong [OF array_clause_emits]) (simp add: m clause_holds_def fs kindArray complemented_def)
  next
    case kindDate
    with assms have "date_clause clock ctx f op vs fs c = Done (p, c')" by (simp add: clause_def fs)
    then show ?thesis by (elim emits_cong [OF date_clause_emits]) (simp add: m clause_holds_def fs kindDate complemented_def)
  next
    case kindFullText
    with assms have "fullText ctx op vs c = Done (p, c')" by (simp add: clause_def fs)
    then show ?thesis by (elim emits_cong [OF fullText_emits]) (simp add: m clause_holds_def fs kindFullText complemented_def)
  qed
qed

section \<open>Queries\<close>

text \<open>The level at which a node's text reads: a disjunction is not bracketed by the compiler.\<close>

fun node_level :: "Node \<Rightarrow> nat" where
  "node_level (Or ts) = (if ts = [] then 2 else 0)"
| "node_level (And ts) = (if ts = [] then 2 else 1)"
| "node_level n = 2"

lemma node_level_le: "node_level n \<le> 2"
  by (cases n) auto

lemma emits_constant:
  "emits E pre 2 c ''false'' c (\<lambda>r. False)" "emits E pre 2 c ''true'' c (\<lambda>r. True)"
  by (auto simp: emits_def intro: reads_as.atom atom.true atom.false)

lemma emits_below: "emits E pre l c p c' f \<Longrightarrow> l \<le> 2 \<Longrightarrow> emits E pre 0 c p c' f"
  unfolding emits_def using reads_below by blast

text \<open>Terms are emitted one after the other, each in brackets.\<close>

definition emits_terms :: "engine \<Rightarrow> argument list \<Rightarrow> compiler \<Rightarrow> string list \<Rightarrow> compiler \<Rightarrow> (row \<Rightarrow> bool) list \<Rightarrow> bool" where
  "emits_terms E pre c ps c' fs \<longleftrightarrow>
     prefix (c_args c) (c_args c') \<and> length ps = length fs \<and>
     (fits pre c' \<longrightarrow> counted pre c \<longrightarrow>
        counted pre c' \<and> (\<forall>post. list_all2 (reads_as E (pre @ c_args c' @ post) 2) ps fs))"

lemma emits_terms_Cons:
  assumes "emits E pre 0 c p c1 f" "emits_terms E pre c1 ps c' fs"
  shows "emits_terms E pre c ((''('' @ p @ '')'') # ps) c' (f # fs)"
  unfolding emits_terms_def
proof (intro conjI impI allI)
  have pre: "prefix (c_args c) (c_args c1)" "prefix (c_args c1) (c_args c')"
    using assms by (auto simp: emits_def emits_terms_def)
  then show "prefix (c_args c) (c_args c')" by auto
  show "length ((''('' @ p @ '')'') # ps) = length (f # fs)" using assms(2) by (simp add: emits_terms_def)
  assume h: "fits pre c'" "counted pre c"
  note p = emits_then [OF assms(1) pre(2) h]
  then show "counted pre c'" using assms(2) h(1) by (auto simp: emits_terms_def)
  fix post
  show "list_all2 (reads_as E (pre @ c_args c' @ post) 2) ((''('' @ p @ '')'') # ps) (f # fs)"
    using assms(2) h(1) p reads_as.bracket [OF p(1)] unfolding emits_terms_def list_all2_Cons by blast
qed

lemma emits_or: "emits_terms E pre c ps c' fs \<Longrightarrow> ps \<noteq> [] \<Longrightarrow>
    emits E pre 0 c (join_strings '' OR '' ps) c' (\<lambda>r. list_ex (\<lambda>f. f r) fs)"
  unfolding emits_terms_def emits_def using reads_or_join by blast

lemma emits_and: "emits_terms E pre c ps c' fs \<Longrightarrow> ps \<noteq> [] \<Longrightarrow>
    emits E pre 1 c (join_strings '' AND '' ps) c' (\<lambda>r. list_all (\<lambda>f. f r) fs)"
  unfolding emits_terms_def emits_def using reads_and_join by blast

lemma node_emits:
  "node ranged clock ctx n c = Done (p, c') \<Longrightarrow> emits E pre (node_level n) c p c' (\<lambda>r. matches E clock ctx r n)"
  "terms ranged clock ctx ts c = Done (ps, c') \<Longrightarrow>
     emits_terms E pre c ps c' (map (\<lambda>t r. matches E clock ctx r t) ts)"
proof (induction ranged clock ctx n c and ranged clock ctx ts c arbitrary: p c' and ps c' rule: node_terms.induct)
  case (1 ranged clock ctx ts c)
  show ?case
  proof (cases "ts = []")
    case False
    with 1(2) obtain ps where ps: "terms ranged clock ctx ts c = Done (ps, c')" "p = join_strings '' OR '' ps" by auto
    note t = 1(1) [OF False ps(1)]
    then have "ps \<noteq> []" using False by (auto simp: emits_terms_def)
    from emits_or [OF t this] show ?thesis
      unfolding ps(2) by (simp add: False list_ex_iff)
  qed (use 1(2) emits_constant in auto)
next
  case (2 ranged clock ctx ts c)
  show ?case
  proof (cases "ts = []")
    case False
    with 2(2) obtain ps where ps: "terms ranged clock ctx ts c = Done (ps, c')" "p = join_strings '' AND '' ps" by auto
    note t = 2(1) [OF False ps(1)]
    then have "ps \<noteq> []" using False by (auto simp: emits_terms_def)
    from emits_and [OF t this] show ?thesis
      unfolding ps(2) by (simp add: False list_all_iff)
  qed (use 2(2) emits_constant in auto)
next
  case (3 ranged clock ctx n c)
  then obtain q where q: "node ranged clock ctx n c = Done (q, c')" "p = ''NOT ('' @ q @ '')''" by auto
  from emits_not [OF emits_below [OF 3(1) [OF q(1)] node_level_le]] show ?case by (simp add: q(2))
next
  case (4 ranged clock ctx f op vs c)
  then show ?case using clause_emits by simp
next
  case (5 ranged clock ctx c)
  then show ?case by (simp add: emits_terms_def)
next
  case (6 ranged clock ctx t ts c)
  then obtain q c1 qs where q: "node ranged clock ctx t c = Done (q, c1)" "terms ranged clock ctx ts c1 = Done (qs, c')"
      "ps = (''('' @ q @ '')'') # qs" by auto
  from emits_terms_Cons [OF emits_below [OF 6(1) [OF q(1)] node_level_le] 6(2) [OF q(1) _ q(2)]]
  show ?case by (simp add: q(3))
qed

text \<open>Property C6: the predicate \<open>Compile\<close> emits, read by SQL's precedence with the emitted arguments in
  the places its markers name (after the caller's own and before any the caller adds), holds of exactly
  the rows the query describes: every marker is counted right, every bracket that is needed is there,
  and each of \<open>!=\<close>, \<open>!~\<close> and \<open>not in\<close> is the complement of the operator it negates.\<close>
theorem compiled_query_asks_what_was_written:
  assumes "Compile ranged clock q ctx first = Done (p, args, order)"
    and "first = int (length pre) + 1" "int (length pre + length args) + 1 < 2 ^ 63"
  shows "reads_as E (pre @ args @ post) (node_level (q_root q)) p (\<lambda>r. matches E clock ctx r (q_root q))"
proof -
  obtain c where c: "node ranged clock ctx (q_root q) \<lparr>c_args = [], c_next = first\<rparr> = Done (p, c)" "args = c_args c"
    using assms(1) by (auto simp: Compile_def)
  from node_emits(1) [OF c(1), of E pre] show ?thesis
    using assms(2,3) by (simp add: emits_def fits_def counted_def c(2))
qed

lemma compiled_query_asks_what_was_written_witness:
  "\<forall>E. reads_as E ([Text ''w''] @ [Text ''page'', Texts [''old'', ''draft''], Text ''me''] @ [Number 25]) 1
     ''((entity_type = $2) AND (NOT (labels && $3))) AND (creator = $4)''
     (\<lambda>r. matches E 0 \<lparr>Actor = ''me'', Now = 0, CurrentSpace = []\<rparr> r
       (And [And [Clause ''type'' ''='' [literal ''page''], Not (Clause ''label'' ''in'' [literal ''old'', literal ''draft''])],
         Clause ''creator'' ''='' [call ''currentuser'' []]]))"
proof -
  let ?q = "\<lparr>q_root = And [And [Clause ''type'' ''='' [literal ''page''], Not (Clause ''label'' ''in'' [literal ''old'', literal ''draft''])],
     Clause ''creator'' ''='' [call ''currentuser'' []]], q_orders = []\<rparr>"
  have "Compile [] 0 ?q \<lparr>Actor = ''me'', Now = 0, CurrentSpace = []\<rparr> 2 =
     Done (''((entity_type = $2) AND (NOT (labels && $3))) AND (creator = $4)'',
       [Text ''page'', Texts [''old'', ''draft''], Text ''me''], ''last_modified DESC, entity_type, entity_id'')"
    by code_simp
  from compiled_query_asks_what_was_written [OF this, of "[Text ''w'']" _ "[Number 25]"] show ?thesis by simp
qed

end
