(* ===== verification/CqlSearch.thy ===== *)
theory CqlSearch
  imports CqlProofs CqlMeaning
begin

text \<open>
  \<open>SearchWiki\<close> of \<open>internal/store/wiki_search.go\<close>, up to the statement it runs: which requests it
  refuses, the condition and the order of the statement and its arguments. The view the statement reads
  is SQL text and stays outside; so does running the statement.
\<close>

section \<open>Parsed queries compile without a panic\<close>

lemma resolveAll_cases:
  "vs \<noteq> [] \<Longrightarrow> (\<exists>e. resolveAll ctx vs fs = Fail e) \<or> (\<exists>s ss. resolveAll ctx vs fs = Done (s # ss))"
proof -
  have total: "resolveAll ctx vs fs \<noteq> Crash" for vs by (induction vs) (auto simp: resolve_def)
  assume "vs \<noteq> []"
  with total [of vs] show ?thesis by (cases vs; cases "resolveAll ctx vs fs") auto
qed

lemma parseDate_no_Crash: "parseDate s \<noteq> Crash"
  by (simp add: parseDate_def split: option.split)

lemma applyOffset_no_Crash: "applyOffset base s \<noteq> Crash"
proof (cases "trim_space s")
  case (Cons c r)
  show ?thesis
    by (cases "c = CHR ''-''"; cases "c = CHR ''+''") (simp_all add: applyOffset_def Cons Let_def split: option.split)
qed (simp add: applyOffset_def)

lemma instant_no_Crash: "instant clock ctx v \<noteq> Crash"
  unfolding instant_def Let_def
  by (simp add: parseDate_no_Crash applyOffset_no_Crash split: option.split)

lemma text_clause_no_Crash: "vs \<noteq> [] \<Longrightarrow> text_clause ctx f op vs fs c \<noteq> Crash"
proof (cases "subquery ctx op vs fs c")
  case (Done x)
  assume "vs \<noteq> []"
  from resolveAll_cases [OF this, of ctx fs] show ?thesis
    by (cases x; cases "fst x") (auto simp: text_clause_def Done simp del: obind_Crash_iff split: if_split_asm)
qed (auto simp: text_clause_def subquery_def Let_def split: list.splits prod.splits if_splits)

lemma array_clause_no_Crash: "vs \<noteq> [] \<Longrightarrow> array_clause ctx f op vs fs c \<noteq> Crash"
  using resolveAll_cases [of vs ctx fs] by (auto simp: array_clause_def simp del: obind_Crash_iff split: if_split_asm)

lemma fullText_no_Crash: "vs \<noteq> [] \<Longrightarrow> fullText ctx op vs c \<noteq> Crash"
  using resolveAll_cases [of vs ctx "spec [] kindText False"]
  by (auto simp: fullText_def simp del: obind_Crash_iff split: if_split_asm prod.splits)

lemma date_clause_no_Crash: "date_clause clock ctx f op vs fs c \<noteq> Crash"
  by (auto simp: date_clause_def instant_no_Crash Let_def split: list.split prod.splits)

lemma clause_no_Crash: "vs \<noteq> [] \<Longrightarrow> clause ranged clock ctx f op vs c \<noteq> Crash"
  by (auto simp: clause_def text_clause_no_Crash array_clause_no_Crash fullText_no_Crash date_clause_no_Crash
      split: option.split fieldKind.split)

lemma node_no_Crash:
  "wf_node n \<Longrightarrow> node ranged clock ctx n c \<noteq> Crash"
  "list_all wf_node ts \<Longrightarrow> terms ranged clock ctx ts c \<noteq> Crash"
proof (induction ranged clock ctx n c and ranged clock ctx ts c rule: node_terms.induct)
  case (4 ranged clock ctx f op vs c)
  then show ?case by (simp add: clause_no_Crash)
qed auto

lemma order_terms_no_Crash: "order_terms os \<noteq> Crash"
  by (induction os) (auto split: option.split)

text \<open>Property C29: no query text makes \<open>Compile\<close> panic: a query that \<open>Parse\<close> accepts gives each clause a
  value to read, so compiling it answers a predicate or an error.\<close>
theorem parsed_queries_compile:
  assumes "Parse src = Done q"
  shows "Compile ranged clock q ctx first \<noteq> Crash"
proof -
  have "wf_node (q_root q)" using parse_safe assms by blast
  then show ?thesis
    using node_no_Crash(1) order_terms_no_Crash [of "q_orders q"] by (auto simp: Compile_def compileOrder_def)
qed

section \<open>The statement of a search\<close>

record WikiSearchRequest =
  CQL :: string
  EntityTypes :: "string list"
  ContentStatuses :: "string list"
  SpaceKey :: string
  ContentID :: string
  IncludeArchivedSpaces :: bool
  ExcludeCurrentSpaces :: bool
  Start :: int
  Limit :: int
  SearchNow :: int

datatype search_error = NotAMember | QueryError cql_error | StatusError | NoContentType

definition searchable_types :: "string list" where
  "searchable_types = [''page'', ''blogpost'', ''comment'', ''attachment'', ''space'']"

definition content_statuses :: "string list" where
  "content_statuses = [''current'', ''draft'', ''archived'', ''trashed'']"

text \<open>The conditions the request adds to the predicate, with the arguments they refer to.\<close>

definition search_scope :: "WikiSearchRequest \<Rightarrow> argument list \<Rightarrow> string list \<times> argument list" where
  "search_scope request args =
     (let (scope1, args1) = (if SpaceKey request \<noteq> []
            then ([''space_key = '' @ marker (int (length args) + 1)], args @ [Text (SpaceKey request)])
            else ([], args));
          (scope2, args2) = (if ContentID request \<noteq> []
            then (scope1 @ [''entity_id = '' @ marker (int (length args1) + 1)], args1 @ [Text (ContentID request)])
            else (scope1, args1));
          scope3 = scope2 @ [''space_status <> '' @ sql_literal ''trashed''];
          scope4 = (if ExcludeCurrentSpaces request then scope3 @ [''space_status = '' @ sql_literal ''archived'']
            else if \<not> IncludeArchivedSpaces request then scope3 @ [''space_status <> '' @ sql_literal ''archived'']
            else scope3)
      in (scope4, args2))"

record search_statement =
  st_condition :: string
  st_order :: string
  st_args :: "argument list"
  st_limit :: string
  st_offset :: string

text \<open>The first three arguments are the workspace, the reader and the statuses searched.\<close>

definition SearchWiki ::
  "bool \<Rightarrow> string list \<Rightarrow> int \<Rightarrow> string \<Rightarrow> string \<Rightarrow> WikiSearchRequest \<Rightarrow> (search_error, search_statement) outcome" where
  "SearchWiki member ranged clock ws actor request =
     (if \<not> member then Fail NotAMember
      else case Parse (CQL request) of
        Crash \<Rightarrow> Crash
      | Fail e \<Rightarrow> Fail (QueryError e)
      | Done query \<Rightarrow>
          let statuses = (if ContentStatuses request = [] then [''current''] else ContentStatuses request)
          in if \<not> list_all (\<lambda>s. s \<in> set content_statuses) statuses then Fail StatusError
             else if \<not> list_ex (\<lambda>t. t \<in> set (EntityTypes request)) searchable_types then Fail NoContentType
             else
               let args = [Text ws, Text actor, Texts statuses]
               in case Compile ranged clock query \<lparr>Actor = actor, Now = SearchNow request, CurrentSpace = SpaceKey request\<rparr>
                      (int (length args) + 1) of
                    Crash \<Rightarrow> Crash
                  | Fail e \<Rightarrow> Fail (QueryError e)
                  | Done (predicate, queryArgs, order) \<Rightarrow>
                      (case search_scope request (args @ queryArgs) of
                         (scope, args2) \<Rightarrow>
                           let args3 = args2 @ [Number (max (Limit request) 0), Number (max (Start request) 0)]
                           in Done \<lparr>st_condition = join_strings '' AND '' (predicate # scope), st_order = order,
                                st_args = args3, st_limit = marker (int (length args3) - 1),
                                st_offset = marker (int (length args3))\<rparr>))"

definition in_scope :: "WikiSearchRequest \<Rightarrow> row \<Rightarrow> bool" where
  "in_scope request r \<longleftrightarrow>
     (SpaceKey request \<noteq> [] \<longrightarrow> row_text r ''space_key'' = SpaceKey request) \<and>
     (ContentID request \<noteq> [] \<longrightarrow> row_text r ''entity_id'' = ContentID request) \<and>
     row_text r ''space_status'' \<noteq> ''trashed'' \<and>
     (if ExcludeCurrentSpaces request then row_text r ''space_status'' = ''archived''
      else IncludeArchivedSpaces request \<or> row_text r ''space_status'' \<noteq> ''archived'')"

text \<open>Each condition of the scope is a unit of SQL, and together they ask for the request's scope.\<close>

lemma atom_fixed:
  "CHR 0x27 \<notin> set v \<Longrightarrow> atom E as (c @ '' <> '' @ sql_literal v) (\<lambda>r. row_text r c \<noteq> v)"
  "CHR 0x27 \<notin> set v \<Longrightarrow> atom E as (c @ '' = '' @ sql_literal v) (\<lambda>r. row_text r c = v)"
  using atom.fixed_text [of v "'' <> ''" E as c] atom.fixed_text [of v "'' = ''" E as c] by simp_all

lemma argument_at_last: "argument_at (as @ a # post) (int (length as) + 1) = Some a"
  by (simp add: argument_at_def nth_append)

lemma search_scope_reads:
  assumes "search_scope request args = (scope, args')"
  shows "prefix args args' \<and>
    (\<exists>fs. list_all2 (reads_as E (args' @ post) 2) scope fs \<and> (\<forall>r. list_all (\<lambda>f. f r) fs = in_scope request r)) \<and> scope \<noteq> []"
proof -
  define args1 where "args1 = (if SpaceKey request \<noteq> [] then args @ [Text (SpaceKey request)] else args)"
  define part1 where "part1 = (if SpaceKey request \<noteq> [] then [''space_key = '' @ marker (int (length args) + 1)] else [])"
  define part2 where "part2 = (if ContentID request \<noteq> [] then [''entity_id = '' @ marker (int (length args1) + 1)] else [])"
  define part4 where "part4 = (if ExcludeCurrentSpaces request then [''space_status = '' @ sql_literal ''archived'']
    else if \<not> IncludeArchivedSpaces request then [''space_status <> '' @ sql_literal ''archived''] else [])"
  have args': "args' = args1 @ (if ContentID request \<noteq> [] then [Text (ContentID request)] else [])"
    and scope: "scope = part1 @ part2 @ [''space_status <> '' @ sql_literal ''trashed''] @ part4"
    using assms unfolding search_scope_def args1_def part1_def part2_def part4_def
    by (auto simp: Let_def split: if_splits)
  note unit = reads_as.atom
  have r1: "\<exists>fs. list_all2 (reads_as E (args' @ post) 2) part1 fs \<and>
      (\<forall>r. list_all (\<lambda>f. f r) fs = (SpaceKey request \<noteq> [] \<longrightarrow> row_text r ''space_key'' = SpaceKey request))"
  proof (cases "SpaceKey request = []")
    case False
    obtain xs where "args' @ post = args @ Text (SpaceKey request) # xs"
      using False by (auto simp: args' args1_def)
    from atom.eq [of "args' @ post" "int (length args) + 1" "SpaceKey request" E "''space_key''"]
      argument_at_last [of args "Text (SpaceKey request)" xs] this
    have "reads_as E (args' @ post) 2 (''space_key = '' @ marker (int (length args) + 1)) (\<lambda>r. row_text r ''space_key'' = SpaceKey request)"
      by (intro unit) simp
    with False show ?thesis unfolding part1_def
      by (intro exI [of _ "[\<lambda>r. row_text r ''space_key'' = SpaceKey request]"]) simp
  qed (simp add: part1_def exI [of _ "[]"])
  have r2: "\<exists>fs. list_all2 (reads_as E (args' @ post) 2) part2 fs \<and>
      (\<forall>r. list_all (\<lambda>f. f r) fs = (ContentID request \<noteq> [] \<longrightarrow> row_text r ''entity_id'' = ContentID request))"
  proof (cases "ContentID request = []")
    case False
    from atom.eq [of "args' @ post" "int (length args1) + 1" "ContentID request" E "''entity_id''"]
      argument_at_last [of args1 "Text (ContentID request)" post]
    have "reads_as E (args' @ post) 2 (''entity_id = '' @ marker (int (length args1) + 1)) (\<lambda>r. row_text r ''entity_id'' = ContentID request)"
      using False by (intro unit) (simp add: args')
    with False show ?thesis unfolding part2_def
      by (intro exI [of _ "[\<lambda>r. row_text r ''entity_id'' = ContentID request]"]) simp
  qed (simp add: part2_def exI [of _ "[]"])
  have quote: "CHR 0x27 \<notin> set ''archived''" "CHR 0x27 \<notin> set ''trashed''" by simp_all
  have r3: "reads_as E (args' @ post) 2 (''space_status <> '' @ sql_literal ''trashed'') (\<lambda>r. row_text r ''space_status'' \<noteq> ''trashed'')"
    using unit [OF atom_fixed(1) [OF quote(2), of E _ "''space_status''"]] by simp
  have r4: "\<exists>fs. list_all2 (reads_as E (args' @ post) 2) part4 fs \<and>
      (\<forall>r. list_all (\<lambda>f. f r) fs = (if ExcludeCurrentSpaces request then row_text r ''space_status'' = ''archived''
        else IncludeArchivedSpaces request \<or> row_text r ''space_status'' \<noteq> ''archived''))"
    using unit [OF atom_fixed(1) [OF quote(1), of E "args' @ post" "''space_status''"]]
      unit [OF atom_fixed(2) [OF quote(1), of E "args' @ post" "''space_status''"]]
    unfolding part4_def
    by (intro exI [of _ "if ExcludeCurrentSpaces request then [\<lambda>r. row_text r ''space_status'' = ''archived'']
      else if \<not> IncludeArchivedSpaces request then [\<lambda>r. row_text r ''space_status'' \<noteq> ''archived''] else []"]) simp
  from r1 r2 r4 obtain f1 f2 f4 where
    "list_all2 (reads_as E (args' @ post) 2) part1 f1" "list_all2 (reads_as E (args' @ post) 2) part2 f2"
    "list_all2 (reads_as E (args' @ post) 2) part4 f4" and
    holds: "\<forall>r. list_all (\<lambda>f. f r) f1 = (SpaceKey request \<noteq> [] \<longrightarrow> row_text r ''space_key'' = SpaceKey request)"
    "\<forall>r. list_all (\<lambda>f. f r) f2 = (ContentID request \<noteq> [] \<longrightarrow> row_text r ''entity_id'' = ContentID request)"
    "\<forall>r. list_all (\<lambda>f. f r) f4 = (if ExcludeCurrentSpaces request then row_text r ''space_status'' = ''archived''
        else IncludeArchivedSpaces request \<or> row_text r ''space_status'' \<noteq> ''archived'')"
    by blast
  with r3 have "list_all2 (reads_as E (args' @ post) 2) scope (f1 @ f2 @ [\<lambda>r. row_text r ''space_status'' \<noteq> ''trashed''] @ f4)"
    unfolding scope by (intro list_all2_appendI) simp_all
  moreover have "\<forall>r. list_all (\<lambda>f. f r) (f1 @ f2 @ [\<lambda>r. row_text r ''space_status'' \<noteq> ''trashed''] @ f4) = in_scope request r"
    using holds by (simp add: in_scope_def)
  moreover have "prefix args args'" by (auto simp: args' args1_def)
  ultimately show ?thesis by (auto simp: scope)
qed

section \<open>What a search finds\<close>

lemma reads_and_append:
  "reads_as E as l p f \<Longrightarrow> l = 1 \<Longrightarrow> reads_as E as 1 q g \<Longrightarrow> reads_as E as 1 (p @ '' AND '' @ q) (\<lambda>r. f r \<and> g r)"
proof (induction rule: reads_as.induct)
  case unit
  then show ?case by (intro reads_as.conjunction)
next
  case (conjunction p f p' f')
  then have "reads_as E as 1 (p' @ '' AND '' @ q) (\<lambda>r. f' r \<and> g r)" by simp
  from reads_as.conjunction [OF conjunction(1) this] show ?case by simp
qed (simp_all only: zero_neq_one numeral_eq_one_iff num.distinct False_implies_equals)

lemma reads_or_append:
  "list_all2 (reads_as E as 2) ps fs \<Longrightarrow> ps \<noteq> [] \<Longrightarrow> reads_as E as 1 q g \<Longrightarrow>
   reads_as E as 0 (join_strings '' OR '' ps @ '' AND '' @ q) (\<lambda>r. list_ex (\<lambda>f. f r) (butlast fs) \<or> last fs r \<and> g r)"
proof (induction ps fs rule: list_all2_induct)
  case (Cons p ps f fs)
  show ?case
  proof (cases ps)
    case Nil
    with Cons.hyps(2) have "fs = []" by simp
    with Nil reads_as.single [OF reads_as.conjunction [OF Cons.hyps(1) Cons.prems(2)]] show ?thesis by simp
  next
    case (Cons p' ps')
    with Cons.hyps(2) obtain f' fs' where fs: "fs = f' # fs'" by (cases fs) auto
    from Cons.IH Cons.prems Cons
    have "reads_as E as 0 (join_strings '' OR '' ps @ '' AND '' @ q) (\<lambda>r. list_ex (\<lambda>f. f r) (butlast fs) \<or> last fs r \<and> g r)"
      by simp
    from reads_as.disjunction [OF reads_as.unit [OF Cons.hyps(1)] this] show ?thesis
      by (simp add: Cons fs disj_assoc)
  qed
qed simp

lemma join_strings_Cons: "xs \<noteq> [] \<Longrightarrow> join_strings sep (x # xs) = x @ sep @ join_strings sep xs"
  by (cases xs) simp_all

text \<open>The parts of a statement: the predicate \<open>Compile\<close> answers for the query, and the scope.\<close>

lemma SearchWiki_parts:
  assumes "SearchWiki member ranged clock ws actor request = Done st"
  obtains q pre p args order scope args' where "Parse (CQL request) = Done q" "length pre = 3"
    "Compile ranged clock q \<lparr>Actor = actor, Now = SearchNow request, CurrentSpace = SpaceKey request\<rparr> (int (length pre) + 1)
       = Done (p, args, order)"
    "search_scope request (pre @ args) = (scope, args')" "st_condition st = join_strings '' AND '' (p # scope)"
    "st_args st = args' @ [Number (max (Limit request) 0), Number (max (Start request) 0)]"
proof (cases "Parse (CQL request)")
  case (Done q)
  define statuses where "statuses = (if ContentStatuses request = [] then [''current''] else ContentStatuses request)"
  let ?pre = "[Text ws, Text actor, Texts statuses]"
  let ?compile = "Compile ranged clock q \<lparr>Actor = actor, Now = SearchNow request, CurrentSpace = SpaceKey request\<rparr> (int (length ?pre) + 1)"
  obtain p args order where c: "?compile = Done (p, args, order)"
    using assms by (cases ?compile) (auto simp: SearchWiki_def Done Let_def statuses_def split: if_splits)
  obtain scope args' where s: "search_scope request (?pre @ args) = (scope, args')" by fastforce
  show ?thesis
    using assms c s that [of q ?pre p args order scope args']
    by (auto simp: SearchWiki_def Done Let_def statuses_def split: if_splits)
qed (use assms in \<open>auto simp: SearchWiki_def split: if_splits\<close>)

lemma node_level_Or: "node_level n = 0 \<longleftrightarrow> (\<exists>ts. n = Or ts \<and> ts \<noteq> [])"
  by (cases n) auto

text \<open>Property C8: a search whose query is not a disjunction finds exactly the entities that the query
  describes and that lie in the request's scope: its space, its content, no trashed space, and archived
  spaces as the request says.\<close>
theorem search_stays_in_scope:
  assumes "SearchWiki member ranged clock ws actor request = Done st" "Parse (CQL request) = Done q"
    and "\<nexists>ts. q_root q = Or ts \<and> ts \<noteq> []" "length (st_args st) < 2 ^ 62"
  shows "reads_as E (st_args st) 1 (st_condition st)
    (\<lambda>r. matches E clock \<lparr>Actor = actor, Now = SearchNow request, CurrentSpace = SpaceKey request\<rparr> r (q_root q)
         \<and> in_scope request r)"
  using assms(1)
proof (rule SearchWiki_parts)
  fix q' pre p args order scope args'
  assume parts: "Parse (CQL request) = Done q'" "length pre = 3"
    "Compile ranged clock q' \<lparr>Actor = actor, Now = SearchNow request, CurrentSpace = SpaceKey request\<rparr> (int (length pre) + 1)
       = Done (p, args, order)"
    "search_scope request (pre @ args) = (scope, args')" "st_condition st = join_strings '' AND '' (p # scope)"
    "st_args st = args' @ [Number (max (Limit request) 0), Number (max (Start request) 0)]"
  let ?ctx = "\<lparr>Actor = actor, Now = SearchNow request, CurrentSpace = SpaceKey request\<rparr>"
  from search_scope_reads [OF parts(4)] obtain fs xs where
    fs: "list_all2 (reads_as E (st_args st) 2) scope fs" "\<forall>r. list_all (\<lambda>f. f r) fs = in_scope request r"
    and scope: "scope \<noteq> []" and args': "args' = pre @ args @ xs"
    unfolding parts(6) by (metis append.assoc prefixE)
  have q: "q' = q" using parts(1) assms(2) by simp
  have l: "int (length pre + length args) + 1 < 2 ^ 63" using assms(4) by (simp add: parts(6) args')
  have "reads_as E (st_args st) (node_level (q_root q)) p (\<lambda>r. matches E clock ?ctx r (q_root q))"
    using node_emits(1) [of ranged clock ?ctx "q_root q" "\<lparr>c_args = [], c_next = int (length pre) + 1\<rparr>" p _ E pre] parts(3) l
    by (auto simp: Compile_def emits_def fits_def counted_def q parts(6) args')
  moreover have "node_level (q_root q) = 1 \<or> node_level (q_root q) = 2"
    using node_level_Or [of "q_root q"] node_level_le [of "q_root q"] assms(3) by auto
  ultimately have p: "reads_as E (st_args st) 1 p (\<lambda>r. matches E clock ?ctx r (q_root q))"
    using reads_as.unit by auto
  have "reads_as E (st_args st) 1 (join_strings '' AND '' scope) (in_scope request)"
    using reads_and_join [OF fs(1) scope] fs(2) by simp
  from reads_and_append [OF p refl this] show ?thesis
    by (simp add: parts(5) join_strings_Cons [OF scope])
qed

text \<open>Property C7: the scope of a search binds only the last term of a disjunction, since \<open>SearchWiki\<close> joins
  the predicate to it with \<open>AND\<close> and no brackets: an entity that an earlier term describes is found
  whatever space it lies in, trashed and archived spaces included.\<close>
theorem disjunction_escapes_scope:
  assumes "SearchWiki member ranged clock ws actor request = Done st" "Parse (CQL request) = Done q"
    and "q_root q = Or ts" "ts \<noteq> []" "length (st_args st) < 2 ^ 62"
  shows "reads_as E (st_args st) 0 (st_condition st)
    (\<lambda>r. list_ex (matches E clock \<lparr>Actor = actor, Now = SearchNow request, CurrentSpace = SpaceKey request\<rparr> r) (butlast ts)
         \<or> matches E clock \<lparr>Actor = actor, Now = SearchNow request, CurrentSpace = SpaceKey request\<rparr> r (last ts)
           \<and> in_scope request r)"
  using assms(1)
proof (rule SearchWiki_parts)
  fix q' pre p args order scope args'
  assume parts: "Parse (CQL request) = Done q'" "length pre = 3"
    "Compile ranged clock q' \<lparr>Actor = actor, Now = SearchNow request, CurrentSpace = SpaceKey request\<rparr> (int (length pre) + 1)
       = Done (p, args, order)"
    "search_scope request (pre @ args) = (scope, args')" "st_condition st = join_strings '' AND '' (p # scope)"
    "st_args st = args' @ [Number (max (Limit request) 0), Number (max (Start request) 0)]"
  let ?ctx = "\<lparr>Actor = actor, Now = SearchNow request, CurrentSpace = SpaceKey request\<rparr>"
  let ?fs = "map (\<lambda>t r. matches E clock ?ctx r t) ts"
  let ?c = "\<lparr>c_args = [], c_next = int (length pre) + 1\<rparr>"
  from search_scope_reads [OF parts(4)] obtain fs xs where
    fs: "list_all2 (reads_as E (st_args st) 2) scope fs" "\<forall>r. list_all (\<lambda>f. f r) fs = in_scope request r"
    and scope: "scope \<noteq> []" and args': "args' = pre @ args @ xs"
    unfolding parts(6) by (metis append.assoc prefixE)
  have q: "q_root q' = Or ts" using parts(1) assms(2,3) by simp
  obtain ps c where c: "terms ranged clock ?ctx ts ?c = Done (ps, c)" "p = join_strings '' OR '' ps" "args = c_args c"
    using parts(3) assms(4) by (auto simp: Compile_def q)
  have l: "int (length pre + length args) + 1 < 2 ^ 63" using assms(5) by (simp add: parts(6) args')
  note t = node_emits(2) [OF c(1), of E pre]
  then have ps: "ps \<noteq> []" using assms(4) by (auto simp: emits_terms_def)
  have terms: "list_all2 (reads_as E (st_args st) 2) ps ?fs"
    using t l by (simp add: emits_terms_def fits_def counted_def parts(6) args' c(3))
  have "reads_as E (st_args st) 1 (join_strings '' AND '' scope) (in_scope request)"
    using reads_and_join [OF fs(1) scope] fs(2) by simp
  from reads_or_append [OF terms ps this] show ?thesis
    using assms(4) by (simp add: parts(5) join_strings_Cons [OF scope] c(2) last_map map_butlast [symmetric] list_ex_iff)
qed

definition leaking_request :: WikiSearchRequest where
  "leaking_request =
     \<lparr>CQL = ''type = page or type = comment'', EntityTypes = searchable_types, ContentStatuses = [], SpaceKey = ''DEV'',
      ContentID = [], IncludeArchivedSpaces = False, ExcludeCurrentSpaces = False, Start = 0, Limit = 25, SearchNow = 0\<rparr>"

lemma leaking_statement:
  "SearchWiki True [] 0 ''w'' ''me'' leaking_request = Done
     \<lparr>st_condition = ''(entity_type = $4) OR (entity_type = $5) AND space_key = $6 AND space_status <> '' @
        sql_literal ''trashed'' @ '' AND space_status <> '' @ sql_literal ''archived'',
      st_order = ''last_modified DESC, entity_type, entity_id'',
      st_args = [Text ''w'', Text ''me'', Texts [''current''], Text ''page'', Text ''comment'', Text ''DEV'', Number 25, Number 0],
      st_limit = ''$7'', st_offset = ''$8''\<rparr>"
  by code_simp

lemma leaking_query:
  "Parse ''type = page or type = comment'' = Done \<lparr>q_root = Or [Clause ''type'' ''='' [literal ''page''],
     Clause ''type'' ''='' [literal ''comment'']], q_orders = []\<rparr>"
  by code_simp

definition scoped_request :: WikiSearchRequest where
  "scoped_request = leaking_request\<lparr>CQL := ''type = page and not label in (old, draft)''\<rparr>"

lemma parsed_queries_compile_witness:
  "Compile [] 0 \<lparr>q_root = Or [Clause ''type'' ''='' [literal ''page''], Clause ''type'' ''='' [literal ''comment'']], q_orders = []\<rparr>
     \<lparr>Actor = ''me'', Now = 0, CurrentSpace = []\<rparr> 1 \<noteq> Crash"
  by (rule parsed_queries_compile [OF leaking_query])

lemma search_stays_in_scope_witness:
  "\<exists>st q. SearchWiki True [] 0 ''w'' ''me'' scoped_request = Done st \<and> Parse (CQL scoped_request) = Done q \<and>
     (\<forall>E. reads_as E (st_args st) 1 (st_condition st)
       (\<lambda>r. matches E 0 \<lparr>Actor = ''me'', Now = 0, CurrentSpace = ''DEV''\<rparr> r (q_root q) \<and> in_scope scoped_request r))"
proof -
  let ?q = "\<lparr>q_root = And [Clause ''type'' ''='' [literal ''page''], Not (Clause ''label'' ''in'' [literal ''old'', literal ''draft''])],
     q_orders = []\<rparr>"
  have q: "Parse (CQL scoped_request) = Done ?q" by code_simp
  have st: "SearchWiki True [] 0 ''w'' ''me'' scoped_request = Done
     \<lparr>st_condition = ''(entity_type = $4) AND (NOT (labels && $5)) AND space_key = $6 AND space_status <> '' @
        sql_literal ''trashed'' @ '' AND space_status <> '' @ sql_literal ''archived'',
      st_order = ''last_modified DESC, entity_type, entity_id'',
      st_args = [Text ''w'', Text ''me'', Texts [''current''], Text ''page'', Texts [''old'', ''draft''], Text ''DEV'', Number 25, Number 0],
      st_limit = ''$7'', st_offset = ''$8''\<rparr>"
    by code_simp
  have c: "SearchNow scoped_request = 0" "SpaceKey scoped_request = ''DEV''"
    by (simp_all add: scoped_request_def leaking_request_def)
  note found = search_stays_in_scope [OF st q, unfolded c]
  show ?thesis
    by (intro exI conjI allI, rule st, rule q, rule found) simp_all
qed

lemma disjunction_escapes_scope_witness:
  "\<exists>st. SearchWiki True [] 0 ''w'' ''me'' leaking_request = Done st \<and>
     (\<forall>E. reads_as E (st_args st) 0 (st_condition st)
       (\<lambda>r. list_ex (matches E 0 \<lparr>Actor = ''me'', Now = 0, CurrentSpace = ''DEV''\<rparr> r) [Clause ''type'' ''='' [literal ''page'']] \<or>
            matches E 0 \<lparr>Actor = ''me'', Now = 0, CurrentSpace = ''DEV''\<rparr> r (Clause ''type'' ''='' [literal ''comment'']) \<and>
            in_scope leaking_request r))"
proof -
  have q: "Parse (CQL leaking_request) = Done \<lparr>q_root = Or [Clause ''type'' ''='' [literal ''page''],
     Clause ''type'' ''='' [literal ''comment'']], q_orders = []\<rparr>"
    using leaking_query by (simp add: leaking_request_def)
  have c: "SearchNow leaking_request = 0" "SpaceKey leaking_request = ''DEV''"
    by (simp_all add: leaking_request_def)
  let ?ts = "[Clause ''type'' ''='' [literal ''page''], Clause ''type'' ''='' [literal ''comment'']]"
  have ts: "butlast ?ts = [Clause ''type'' ''='' [literal ''page'']]" "last ?ts = Clause ''type'' ''='' [literal ''comment'']"
    by simp_all
  note found = disjunction_escapes_scope [OF leaking_statement q, where ts = ?ts, unfolded c ts]
  show ?thesis
    by (intro exI conjI allI, rule leaking_statement, rule found) simp_all
qed

end
