(* ===== verification/JqlParse.thy ===== *)
theory JqlParse
  imports QueryText
begin

text \<open>
  \<open>internal/jql/jql.go\<close>, up to the compiler: the lexer and the recursive-descent parser of the Jira Query
  Language, with the positions it records for rewriting a query. The parser's state is the record
  \<open>parser\<close>, whose position is the list of tokens from it on; reading past the last token is Go's index
  panic, \<open>Crash\<close>. Recursion is bounded by fuel, three units per token. An error keeps the format and
  the texts of its message.
\<close>

section \<open>Syntax trees\<close>

datatype jql_error = SyntaxError nat string "string list"

record Order =
  o_field :: string
  o_desc :: bool

record HistoryPredicate =
  hp_kind :: string
  hp_values :: "string list"

datatype Node =
    Or "Node list"
  | And "Node list"
  | Not Node
  | Clause string string "string list"
  | HistoryClause string string "string list" "HistoryPredicate list"
  | Text string

record Query =
  q_root :: Node
  q_orders :: "Order list"

section \<open>The lexer\<close>

datatype kind = Word | Quoted | LParen | RParen | Comma | Eof

record token =
  t_kind :: kind
  t_text :: string
  t_pos :: nat
  t_end :: nat

definition tok :: "kind \<Rightarrow> string \<Rightarrow> nat \<Rightarrow> nat \<Rightarrow> token" where
  "tok k s i j = \<lparr>t_kind = k, t_text = s, t_pos = i, t_end = j\<rparr>"

definition blank :: "char \<Rightarrow> bool" where
  "blank c \<longleftrightarrow> c \<in> {CHR '' '', CHR 0x09, CHR 0x0A}"

definition operator_char :: "char \<Rightarrow> bool" where
  "operator_char c \<longleftrightarrow> c \<in> set ''=!~<>''"

definition delimiter :: "char \<Rightarrow> bool" where
  "delimiter c \<longleftrightarrow> blank c \<or> c \<in> set ''(),'' \<or> c = CHR 0x27 \<or> operator_char c"

function lex_from :: "nat \<Rightarrow> string \<Rightarrow> (jql_error, token list) outcome" where
  "lex_from i [] = Done [tok Eof [] i i]"
| "lex_from i (c # r) =
     (if blank c then lex_from (i + 1) r
      else if c = CHR ''('' then omap (Cons (tok LParen ''('' i (i + 1))) (lex_from (i + 1) r)
      else if c = CHR '')'' then omap (Cons (tok RParen '')'' i (i + 1))) (lex_from (i + 1) r)
      else if c = CHR '','' then omap (Cons (tok Comma '','' i (i + 1))) (lex_from (i + 1) r)
      else if operator_char c then
        (case r of
           d # r' \<Rightarrow>
             if [c, d] \<in> {''!='', ''!~'', ''~='', ''>='', ''<=''}
             then omap (Cons (tok Word [c, d] i (i + 2))) (lex_from (i + 2) r')
             else omap (Cons (tok Word [c] i (i + 1))) (lex_from (i + 1) r)
         | [] \<Rightarrow> omap (Cons (tok Word [c] i (i + 1))) (lex_from (i + 1) r))
      else if c = CHR 0x27 \<or> c = CHR 0x22 then
        (case quoted_text c r of
           None \<Rightarrow> Fail (SyntaxError i ''unterminated string'' [])
         | Some (s, n, r') \<Rightarrow> omap (Cons (tok Quoted s i (i + 1 + n))) (lex_from (i + 1 + n) r'))
      else
        (let w = c # takeWhile (\<lambda>d. \<not> delimiter d) r
         in omap (Cons (tok Word w i (i + length w))) (lex_from (i + length w) (dropWhile (\<lambda>d. \<not> delimiter d) r))))"
  by pat_completeness auto
termination
  by (relation "measure (\<lambda>(i, s). length s)")
    (auto dest!: quoted_text_shorter simp: less_Suc_eq_le length_dropWhile_le)

definition lex :: "string \<Rightarrow> (jql_error, token list) outcome" where
  "lex src = lex_from 0 src"

section \<open>The parser's state\<close>

definition operators :: "string list" where
  "operators = [''='', ''!='', ''~'', ''~='', ''!~'', ''>'', ''>='', ''<'', ''<='']"

record Operand =
  od_field :: string
  od_operator :: string
  od_role :: string
  od_value :: string
  od_start :: nat
  od_end :: nat
  od_operator_start :: nat
  od_operator_end :: nat
  od_quoted :: bool
  od_function :: bool
  od_in_parentheses :: bool

record FieldReference =
  fr_name :: string
  fr_start :: nat
  fr_end :: nat

record parser =
  p_toks :: "token list"
  p_collect :: bool
  p_operands :: "Operand list"
  p_fields :: "FieldReference list"
  p_clause :: Operand
  p_call :: nat

definition no_operand :: Operand where
  "no_operand = \<lparr>od_field = [], od_operator = [], od_role = [], od_value = [], od_start = 0, od_end = 0,
     od_operator_start = 0, od_operator_end = 0, od_quoted = False, od_function = False, od_in_parentheses = False\<rparr>"

definition parser_on :: "token list \<Rightarrow> bool \<Rightarrow> parser" where
  "parser_on toks collect = \<lparr>p_toks = toks, p_collect = collect, p_operands = [], p_fields = [],
     p_clause = no_operand, p_call = 0\<rparr>"

type_synonym 'a parsed = "(jql_error, 'a \<times> parser) outcome"

definition peek :: "parser \<Rightarrow> (jql_error, token) outcome" where
  "peek p = (case p_toks p of [] \<Rightarrow> Crash | t # _ \<Rightarrow> Done t)"

definition advance :: "parser \<Rightarrow> parser" where
  "advance p = p\<lparr>p_toks := tl (p_toks p)\<rparr>"

definition is_word :: "string \<Rightarrow> token \<Rightarrow> bool" where
  "is_word w t \<longleftrightarrow> t_kind t = Word \<and> equal_fold (t_text t) w"

definition atWord :: "string \<Rightarrow> parser \<Rightarrow> (jql_error, bool) outcome" where
  "atWord w p = omap (is_word w) (peek p)"

definition name_token :: "token \<Rightarrow> bool" where
  "name_token t \<longleftrightarrow> t_kind t = Word \<or> t_kind t = Quoted"

text \<open>\<open>expectWord\<close>: an empty quoted name is skipped before it is refused.\<close>

definition expectWord :: "string \<Rightarrow> parser \<Rightarrow> string parsed" where
  "expectWord what p =
     obind (peek p) (\<lambda>t.
       if name_token t \<and> t_text t \<noteq> [] then Done (t_text t, advance p)
       else obind (peek (if name_token t then advance p else p)) (\<lambda>u.
         Fail (SyntaxError (t_pos u) ''expected %s'' [what])))"

definition record_operand :: "token \<Rightarrow> string \<Rightarrow> nat \<Rightarrow> bool \<Rightarrow> parser \<Rightarrow> parser" where
  "record_operand t value end function p =
     (if \<not> p_collect p \<or> 0 < p_call p \<or> od_field (p_clause p) = [] then p
      else p\<lparr>p_operands := p_operands p @
        [(p_clause p)\<lparr>od_value := value, od_start := t_pos t, od_end := end, od_quoted := t_kind t = Quoted,
           od_function := function\<rparr>]\<rparr>)"

section \<open>Values\<close>

definition join_commas :: "string list \<Rightarrow> string" where
  "join_commas xs = (case xs of [] \<Rightarrow> [] | y # ys \<Rightarrow> y @ concat (map (\<lambda>x. CHR '','' # x) ys))"

text \<open>A value is kept as text, a call with its arguments joined by commas.\<close>

fun parse_value :: "nat \<Rightarrow> parser \<Rightarrow> string parsed"
  and parse_args :: "nat \<Rightarrow> parser \<Rightarrow> string list parsed"
where
  "parse_value 0 p = Crash"
| "parse_value (Suc n) p =
     obind (peek p) (\<lambda>t.
       if \<not> name_token t then Fail (SyntaxError (t_pos t) ''expected value'' [])
       else if t_kind t = Quoted then Done (t_text t, record_operand t (t_text t) (t_end t) False (advance p))
       else obind (peek (advance p)) (\<lambda>u.
         if t_kind u \<noteq> LParen then Done (t_text t, record_operand t (t_text t) (t_end t) False (advance p))
         else
           let p1 = (advance (advance p))\<lparr>p_call := p_call p + 1\<rparr>
           in obind (peek p1) (\<lambda>v.
              obind (if t_kind v = RParen then Done ([], p1) else parse_args n p1) (\<lambda>(args, p2).
              obind (peek p2) (\<lambda>w.
                if t_kind w \<noteq> RParen then Fail (SyntaxError (t_pos w) ''expected ) after function call'' [])
                else
                  let call = t_text t @ ''('' @ join_commas args @ '')'';
                      p3 = (advance p2)\<lparr>p_call := p_call p2 - 1\<rparr>
                  in Done (call, record_operand t call (t_end w) True p3))))))"
| "parse_args 0 p = Crash"
| "parse_args (Suc n) p =
     obind (parse_value n p) (\<lambda>(a, p1).
     obind (peek p1) (\<lambda>t.
       if t_kind t = Comma then obind (parse_args n (advance p1)) (\<lambda>(as, p2). Done (a # as, p2))
       else Done ([a], p1)))"

definition parseValue :: "parser \<Rightarrow> string parsed" where
  "parseValue p = parse_value (2 * length (p_toks p)) p"

text \<open>\<open>splitFunction\<close>: a value that is written like a call.\<close>

definition splitFunction :: "string \<Rightarrow> (string \<times> string list) option" where
  "splitFunction value =
     (case cut_at CHR ''('' value of
        (name, rest, found) \<Rightarrow>
          if \<not> found \<or> name = [] \<or> last value \<noteq> CHR '')'' then None
          else Some (name, if butlast rest = [] then [] else split_on CHR '','' (butlast rest)))"

section \<open>Clauses\<close>

definition canonicalField :: "string \<Rightarrow> string" where
  "canonicalField field =
     (let lower = ToLower field in
      if lower \<in> {''workitem'', ''workitemkey'', ''issuekey''} then ''key''
      else if lower = ''space'' then ''project''
      else if lower \<in> {''worktype'', ''type''} then ''issuetype''
      else if lower = ''components'' then ''component''
      else if lower = ''duedate'' then ''due''
      else if lower = ''resolved'' then ''resolutiondate''
      else if lower = ''statuscategorychangedate'' then ''statuscategorychangeddate''
      else if lower = ''timeoriginalestimate'' then ''originalestimate''
      else if lower = ''timeestimate'' then ''remainingestimate''
      else if lower = ''watchers'' then ''watcher''
      else if lower = ''voters'' then ''voter''
      else if lower \<in> {''request participants'', ''request-participants''} then ''requestparticipants''
      else if lower \<in> {''request channel type'', ''request-channel-type''} then ''requestchanneltype''
      else if lower \<in> {''organization'', ''organisation'', ''organisations''} then ''organizations''
      else if lower \<in> {''request type'', ''request-type'', ''customer request type''} then ''requesttype''
      else
        let number = butlast (drop 3 lower)
        in if take 3 lower = ''cf['' \<and> drop 3 lower \<noteq> [] \<and> last lower = CHR '']'' \<and> number \<noteq> [] \<and> list_all is_digit number
           then ''customfield_'' @ number else lower)"

definition reserved :: "string \<Rightarrow> bool" where
  "reserved w \<longleftrightarrow> w \<in> {''order'', ''by'', ''asc'', ''desc'', ''and'', ''or'', ''not'', ''in'', ''is'', ''empty'',
     ''null'', ''was'', ''changed'', ''from'', ''to'', ''before'', ''after'', ''during''}"

definition isClauseStart :: "parser \<Rightarrow> (jql_error, bool) outcome" where
  "isClauseStart p =
     obind (peek (advance p)) (\<lambda>t.
       Done (t_kind t = Word \<and>
         (t_text t \<in> set operators \<or> list_ex (equal_fold (t_text t)) [''in'', ''is'', ''not'', ''was'', ''changed''])))"

fun parse_list :: "nat \<Rightarrow> parser \<Rightarrow> string list parsed" where
  "parse_list 0 p = Crash"
| "parse_list (Suc n) p =
     obind (parseValue p) (\<lambda>(v, p1).
     obind (peek p1) (\<lambda>t.
       if t_kind t = Comma then obind (parse_list n (advance p1)) (\<lambda>(vs, p2). Done (v # vs, p2))
       else Done ([v], p1)))"

definition set_parenthesized :: "bool \<Rightarrow> parser \<Rightarrow> parser" where
  "set_parenthesized b p = p\<lparr>p_clause := (p_clause p)\<lparr>od_in_parentheses := b\<rparr>\<rparr>"

definition set_role :: "string \<Rightarrow> parser \<Rightarrow> parser" where
  "set_role role p = p\<lparr>p_clause := (p_clause p)\<lparr>od_role := role\<rparr>\<rparr>"

text \<open>\<open>parseInClause\<close> answers the values; the operator is \<open>in\<close> or \<open>notin\<close>.\<close>

definition parseInClause :: "parser \<Rightarrow> string list parsed" where
  "parseInClause p =
     obind (peek p) (\<lambda>t.
       if t_kind t \<noteq> LParen then
         obind (parseValue p) (\<lambda>(v, p1).
           if splitFunction v = None then
             obind (peek p1) (\<lambda>u. Fail (SyntaxError (t_pos u) ''expected a list or list function after IN'' []))
           else Done ([v], p1))
       else
         obind (parse_list (length (p_toks p)) (set_parenthesized True (advance p))) (\<lambda>(vs, p1).
         obind (peek p1) (\<lambda>u.
           if t_kind u \<noteq> RParen then Fail (SyntaxError (t_pos u) ''expected ) to close IN'' [])
           else Done (vs, set_parenthesized False (advance p1)))))"

definition was_kinds :: "string list" where
  "was_kinds = [''by'', ''before'', ''after'', ''during'']"

definition changed_kinds :: "string list" where
  "changed_kinds = [''from'', ''to'', ''by'', ''before'', ''after'', ''during'']"

text \<open>The two values of \<open>DURING\<close>.\<close>

definition parse_during :: "parser \<Rightarrow> string list parsed" where
  "parse_during p =
     obind (peek p) (\<lambda>t.
       if t_kind t \<noteq> LParen then Fail (SyntaxError (t_pos t) ''expected ( after DURING'' [])
       else
         obind (parseValue (advance p)) (\<lambda>(v1, p1).
         obind (peek p1) (\<lambda>u.
           if t_kind u \<noteq> Comma then Fail (SyntaxError (t_pos u) ''expected comma in DURING'' [])
           else
             obind (parseValue (advance p1)) (\<lambda>(v2, p2).
             obind (peek p2) (\<lambda>w.
               if t_kind w \<noteq> RParen then Fail (SyntaxError (t_pos w) ''expected ) to close DURING'' [])
               else Done ([v1, v2], advance p2))))))"

text \<open>The predicates after \<open>WAS\<close> or \<open>CHANGED\<close>, each kind at most once.\<close>

fun parse_predicates :: "nat \<Rightarrow> string list \<Rightarrow> string list \<Rightarrow> parser \<Rightarrow> HistoryPredicate list parsed" where
  "parse_predicates 0 kinds seen p = Crash"
| "parse_predicates (Suc n) kinds seen p =
     obind (peek p) (\<lambda>t.
       let k = ToLower (t_text t)
       in if t_kind t \<noteq> Word \<or> k \<notin> set kinds then Done ([], p)
          else if k \<in> set seen then Fail (SyntaxError (t_pos t) ''duplicate %s predicate'' [to_upper k])
          else
            let p1 = set_role k (advance p)
            in obind (if k = ''during'' then parse_during p1
                      else obind (parseValue p1) (\<lambda>(v, p2). Done ([v], p2))) (\<lambda>(vs, p2).
               obind (parse_predicates n kinds (k # seen) p2) (\<lambda>(ps, p3).
                 Done (\<lparr>hp_kind = k, hp_values = vs\<rparr> # ps, p3))))"

definition parse_history :: "string list \<Rightarrow> parser \<Rightarrow> HistoryPredicate list parsed" where
  "parse_history kinds p = parse_predicates (length (p_toks p)) kinds [] p"

definition parseWasClause :: "string \<Rightarrow> parser \<Rightarrow> Node parsed" where
  "parseWasClause field p =
     obind (atWord ''not'' p) (\<lambda>negated.
       let p1 = (if negated then advance p else p)
       in obind (atWord ''in'' p1) (\<lambda>within.
          obind (if within then parseInClause (advance p1) else obind (parseValue p1) (\<lambda>(v, p2). Done ([v], p2))) (\<lambda>(vs, p2).
          obind (parse_history was_kinds p2) (\<lambda>(ps, p3).
            let op = (if within then (if negated then ''wasnotin'' else ''wasin'') else if negated then ''wasnot'' else ''was'')
            in Done (HistoryClause field op vs ps, p3)))))"

definition parseChangedClause :: "string \<Rightarrow> parser \<Rightarrow> Node parsed" where
  "parseChangedClause field p =
     obind (parse_history changed_kinds p) (\<lambda>(ps, p1). Done (HistoryClause field ''changed'' [] ps, p1))"

text \<open>After \<open>IS\<close>: emptiness, or a call. A value that cannot be read is reported where reading stopped.\<close>

definition parse_is :: "string \<Rightarrow> parser \<Rightarrow> Node parsed" where
  "parse_is field p =
     obind (atWord ''not'' p) (\<lambda>negated.
       let p1 = (if negated then advance p else p)
       in obind (atWord ''empty'' p1) (\<lambda>empty.
          obind (atWord ''null'' p1) (\<lambda>null.
            if empty \<or> null then Done (Clause field (if negated then ''notempty'' else ''empty'') [], advance p1)
            else case parseValue p1 of
                Crash \<Rightarrow> Crash
              | Fail (SyntaxError i m as) \<Rightarrow> Fail (SyntaxError i ''expected EMPTY or a function after IS'' [])
              | Done (v, p2) \<Rightarrow>
                  if splitFunction v = None then
                    obind (peek p2) (\<lambda>u. Fail (SyntaxError (t_pos u) ''expected EMPTY or a function after IS'' []))
                  else Done (Clause field (if negated then ''isnot'' else ''is'') [v], p2))))"

definition start_clause :: "string \<Rightarrow> token \<Rightarrow> token \<Rightarrow> parser \<Rightarrow> parser" where
  "start_clause field f op p =
     (if p_collect p then p\<lparr>p_fields := p_fields p @ [\<lparr>fr_name = field, fr_start = t_pos f, fr_end = t_end f\<rparr>],
        p_clause := no_operand\<lparr>od_field := field, od_operator := ToLower (t_text op), od_role := ''value'',
          od_operator_start := t_pos op, od_operator_end := t_end op\<rparr>\<rparr>
      else p)"

definition parseClause :: "parser \<Rightarrow> Node parsed" where
  "parseClause p =
     obind (peek p) (\<lambda>f.
       let field = canonicalField (if name_token f then t_text f else []);
           p0 = (if name_token f then advance p else p)
       in obind (peek p0) (\<lambda>op.
          let p1 = start_clause field f op (advance p0)
          in if t_text op \<in> set operators then
               obind (parseValue p1) (\<lambda>(v, p2). Done (Clause field (t_text op) [v], p2))
             else if equal_fold (t_text op) ''in'' then
               obind (parseInClause p1) (\<lambda>(vs, p2). Done (Clause field ''in'' vs, p2))
             else if equal_fold (t_text op) ''not'' then
               obind (atWord ''in'' p1) (\<lambda>within.
                 if \<not> within then obind (peek p1) (\<lambda>u. Fail (SyntaxError (t_pos u) ''expected IN after NOT'' []))
                 else obind (parseInClause (advance p1)) (\<lambda>(vs, p2). Done (Clause field ''notin'' vs, p2)))
             else if equal_fold (t_text op) ''was'' then parseWasClause field p1
             else if equal_fold (t_text op) ''changed'' then parseChangedClause field p1
             else if equal_fold (t_text op) ''is'' then parse_is field p1
             else Fail (SyntaxError (t_pos op) ''unsupported operator %s'' [t_text op])))"

section \<open>Expressions\<close>

definition or_node :: "Node list \<Rightarrow> Node" where
  "or_node ts = (case ts of [t] \<Rightarrow> t | _ \<Rightarrow> Or ts)"

definition and_node :: "Node list \<Rightarrow> Node" where
  "and_node ts = (case ts of [t] \<Rightarrow> t | _ \<Rightarrow> And ts)"

text \<open>Where the next term of a conjunction starts, if there is one: \<open>AND\<close> may be left out before a word or a
  bracket.\<close>

definition next_term :: "parser \<Rightarrow> (jql_error, parser option) outcome" where
  "next_term p =
     obind (peek p) (\<lambda>t.
       Done (if is_word ''and'' t then Some (advance p)
             else if t_kind t = Word \<and> \<not> is_word ''or'' t \<and> \<not> is_word ''order'' t \<or> t_kind t = LParen then Some p
             else None))"

fun parse_or :: "nat \<Rightarrow> parser \<Rightarrow> Node list parsed"
  and parse_and :: "nat \<Rightarrow> parser \<Rightarrow> Node list parsed"
  and parseUnit :: "nat \<Rightarrow> parser \<Rightarrow> Node parsed"
where
  "parse_or 0 p = Crash"
| "parse_or (Suc n) p =
     obind (parse_and n p) (\<lambda>(ts, p1).
     obind (atWord ''or'' p1) (\<lambda>again.
       if again then obind (parse_or n (advance p1)) (\<lambda>(us, p2). Done (and_node ts # us, p2))
       else Done ([and_node ts], p1)))"
| "parse_and 0 p = Crash"
| "parse_and (Suc n) p =
     obind (parseUnit n p) (\<lambda>(t, p1).
     obind (next_term p1) (\<lambda>more.
       case more of
         None \<Rightarrow> Done ([t], p1)
       | Some p2 \<Rightarrow> obind (parse_and n p2) (\<lambda>(us, p3). Done (t # us, p3))))"
| "parseUnit 0 p = Crash"
| "parseUnit (Suc n) p =
     obind (peek p) (\<lambda>t.
       if is_word ''not'' t then obind (parseUnit n (advance p)) (\<lambda>(u, p1). Done (Not u, p1))
       else if t_kind t = LParen then
         obind (parse_or n (advance p)) (\<lambda>(ts, p1).
         obind (peek p1) (\<lambda>u.
           if t_kind u \<noteq> RParen then Fail (SyntaxError (t_pos u) ''expected )'' [])
           else Done (or_node ts, advance p1)))
       else if name_token t then
         obind (isClauseStart p) (\<lambda>clause.
           if clause then parseClause p
           else if t_kind t = Word \<and> reserved (ToLower (t_text t)) then
             Fail (SyntaxError (t_pos t) ''unexpected keyword %s'' [t_text t])
           else Done (Text (t_text t), advance p))
       else Fail (SyntaxError (t_pos t) ''expected clause'' []))"

definition parseOr :: "parser \<Rightarrow> Node parsed" where
  "parseOr p = omap (\<lambda>(ts, p1). (or_node ts, p1)) (parse_or (3 * length (p_toks p) + 3) p)"

section \<open>Queries\<close>

text \<open>The first \<open>ORDER BY\<close> outside brackets, at a bracket depth that unmatched closing brackets can take
  below zero.\<close>

fun split_order_from :: "int \<Rightarrow> token list \<Rightarrow> token list \<times> token list option" where
  "split_order_from depth [] = ([], None)"
| "split_order_from depth (t # ts) =
     (case ts of
        u # us \<Rightarrow>
          if depth = 0 \<and> is_word ''order'' t \<and> is_word ''by'' u
          then ([tok Eof [] (t_pos t) (t_pos t)], Some us)
          else (case split_order_from (if t_kind t = LParen then depth + 1 else if t_kind t = RParen then depth - 1 else depth) ts
                of (m, ord) \<Rightarrow> (t # m, ord))
      | [] \<Rightarrow> ([t], None))"

definition splitOrderClause :: "token list \<Rightarrow> token list \<times> token list option" where
  "splitOrderClause toks = split_order_from 0 toks"

text \<open>The fields of the ORDER BY; \<open>k\<close> of them have been read.\<close>

fun parse_orders :: "nat \<Rightarrow> nat \<Rightarrow> parser \<Rightarrow> Order list parsed" where
  "parse_orders 0 k p = Crash"
| "parse_orders (Suc n) k p =
     obind (expectWord ''field after ORDER BY'' p) (\<lambda>(field, p1).
     obind (atWord ''desc'' p1) (\<lambda>down.
     obind (atWord ''asc'' p1) (\<lambda>up.
       let p2 = (if down \<or> up then advance p1 else p1)
       in obind (peek p2) (\<lambda>t.
          if 7 < k + 1 then Fail (SyntaxError (t_pos t) ''ORDER BY accepts at most 7 fields'' [])
          else if t_kind t = Comma then
            obind (parse_orders n (k + 1) (advance p2)) (\<lambda>(os, p3).
              Done (\<lparr>o_field = canonicalField field, o_desc = down\<rparr> # os, p3))
          else Done ([\<lparr>o_field = canonicalField field, o_desc = down\<rparr>], p2)))))"

definition parse_order_by :: "token list \<Rightarrow> (jql_error, Order list) outcome" where
  "parse_order_by toks =
     obind (parse_orders (length toks) 0 (parser_on toks False)) (\<lambda>(os, p).
     obind (peek p) (\<lambda>t.
       if t_kind t \<noteq> Eof then Fail (SyntaxError (t_pos t) ''unexpected input after ORDER BY field'' []) else Done os))"

definition parse_tokens :: "token list \<Rightarrow> (jql_error, Query) outcome" where
  "parse_tokens toks =
     (case splitOrderClause toks of
        (m, ord) \<Rightarrow>
          let p = parser_on m False
          in obind (peek p) (\<lambda>t.
             obind (if t_kind t = Eof then Done (Text [], p) else parseOr p) (\<lambda>(root, p1).
             obind (case ord of None \<Rightarrow> Done [] | Some ots \<Rightarrow> parse_order_by ots) (\<lambda>orders.
             obind (peek p1) (\<lambda>u.
               if t_kind u \<noteq> Eof then Fail (SyntaxError (t_pos u) ''unexpected trailing input: %s'' [t_text u])
               else Done \<lparr>q_root = root, q_orders = orders\<rparr>)))))"

definition Parse :: "string \<Rightarrow> (jql_error, Query) outcome" where
  "Parse src = obind (lex src) parse_tokens"

end
