(* ===== verification/JqlProofs.thy ===== *)
theory JqlProofs
  imports JqlParse
begin

text \<open>
  The JQL parser is total: it answers every text with a query or an error, what it answers is well
  formed, and the operands it records for rewriting lie in the source one after the other.
\<close>

section \<open>Where the parser stands\<close>

text \<open>The tokens of a text: each starts where the one before it has ended, and the last one is the end.\<close>

fun chained :: "nat \<Rightarrow> nat \<Rightarrow> token list \<Rightarrow> bool" where
  "chained n i [] = (i \<le> n)"
| "chained n i (t # ts) = (i \<le> t_pos t \<and> t_pos t \<le> t_end t \<and> (t_kind t \<noteq> Eof \<longrightarrow> t_pos t < t_end t) \<and> chained n (t_end t) ts)"

definition ended :: "token list \<Rightarrow> bool" where
  "ended ts \<longleftrightarrow> ts \<noteq> [] \<and> t_kind (last ts) = Eof"

text \<open>The spans of operands, in order, from a position to another.\<close>

fun spans :: "nat \<Rightarrow> Operand list \<Rightarrow> nat \<Rightarrow> bool" where
  "spans i [] j = (i \<le> j)"
| "spans i (x # xs) j = (i \<le> od_start x \<and> od_start x < od_end x \<and> spans (od_end x) xs j)"

lemma spans_append: "spans i (xs @ ys) j \<longleftrightarrow> (\<exists>k. spans i xs k \<and> spans k ys j)"
proof (induction xs arbitrary: i)
  case Nil
  then show ?case
  proof
    assume "spans i ([] @ ys) j"
    moreover have "spans i [] i" by simp
    ultimately show "\<exists>k. spans i [] k \<and> spans k ys j" by auto
  next
    assume "\<exists>k. spans i [] k \<and> spans k ys j"
    then show "spans i ([] @ ys) j" by (cases ys) auto
  qed
qed auto

lemma spans_mono: "spans i xs j \<Longrightarrow> j \<le> k \<Longrightarrow> spans i xs k"
  by (induction xs arbitrary: i) auto

definition placed :: "nat \<Rightarrow> parser \<Rightarrow> bool" where
  "placed n p \<longleftrightarrow> (\<exists>i. chained n i (p_toks p) \<and> spans 0 (p_operands p) i)"

lemma jql_ended_cases: "ended ts \<Longrightarrow> \<exists>t r. ts = t # r"
  by (cases ts) (auto simp: ended_def)

lemma jql_ended_tl: "ended (t # ts) \<Longrightarrow> t_kind t \<noteq> Eof \<Longrightarrow> ended ts"
  by (auto simp: ended_def split: if_splits)

text \<open>A step of the parser that goes on to another state: it has read tokens, it keeps the counters of
  collecting, and it keeps the operands placed.\<close>

definition follows :: "parser \<Rightarrow> parser \<Rightarrow> bool" where
  "follows p q \<longleftrightarrow> ended (p_toks q) \<and> length (p_toks q) \<le> length (p_toks p) \<and>
     (\<forall>n i. chained n i (p_toks p) \<longrightarrow> chained n i (p_toks q)) \<and>
     p_call q = p_call p \<and> (0 < p_call p \<longrightarrow> p_operands q = p_operands p) \<and> (\<forall>n. placed n p \<longrightarrow> placed n q)"

definition reads :: "parser \<Rightarrow> parser \<Rightarrow> bool" where
  "reads p q \<longleftrightarrow> follows p q \<and> length (p_toks q) < length (p_toks p)"

lemma follows_refl: "ended (p_toks p) \<Longrightarrow> follows p p"
  by (simp add: follows_def)

lemma follows_trans: "follows p q \<Longrightarrow> follows q r \<Longrightarrow> follows p r"
  by (auto simp: follows_def)

lemma reads_trans: "reads p q \<Longrightarrow> follows q r \<Longrightarrow> reads p r" "follows p q \<Longrightarrow> reads q r \<Longrightarrow> reads p r"
  "reads p q \<Longrightarrow> reads q r \<Longrightarrow> reads p r"
  by (auto simp: reads_def follows_def)

lemma reads_follows: "reads p q \<Longrightarrow> follows p q"
  by (simp add: reads_def)

lemma follows_ended: "follows p q \<Longrightarrow> ended (p_toks q)" "reads p q \<Longrightarrow> ended (p_toks q)"
  by (simp_all add: follows_def reads_def)

lemma chained_mono: "chained n i ts \<Longrightarrow> j \<le> i \<Longrightarrow> chained n j ts"
  by (cases ts) auto

lemma chained_bound: "chained n i ts \<Longrightarrow> i \<le> n"
  by (induction ts arbitrary: i) fastforce+

lemma placed_tl:
  assumes "placed n p" "p_toks p = t # ts"
  shows "placed n (advance p)"
proof -
  obtain i where i: "chained n i (t # ts)" "spans 0 (p_operands p) i" using assms by (auto simp: placed_def)
  then have "i \<le> t_end t" by auto
  with i(2) have "spans 0 (p_operands p) (t_end t)" by (rule spans_mono)
  with i show ?thesis by (auto simp: placed_def advance_def assms(2))
qed

lemma chained_tl: "chained n i (t # ts) \<Longrightarrow> chained n i ts"
  using chained_mono [of n "t_end t" ts i] by auto

lemma advance_reads: "ended (p_toks p) \<Longrightarrow> p_toks p = t # ts \<Longrightarrow> t_kind t \<noteq> Eof \<Longrightarrow> reads p (advance p)"
  using placed_tl [of _ p t ts] jql_ended_tl [of t ts] chained_tl [of _ _ t ts]
  by (auto simp: reads_def follows_def simp del: chained.simps) (simp_all add: advance_def del: chained.simps)

section \<open>Safe steps\<close>

text \<open>A step is safe for a predicate when it does not crash, and any value it answers satisfies the
  predicate and comes with a state that has read a token.\<close>

definition safe :: "('a \<Rightarrow> bool) \<Rightarrow> 'a parsed \<Rightarrow> parser \<Rightarrow> bool" where
  "safe P m p \<longleftrightarrow> m \<noteq> Crash \<and> (\<forall>x q. m = Done (x, q) \<longrightarrow> P x \<and> reads p q)"

definition weakly_safe :: "('a \<Rightarrow> bool) \<Rightarrow> 'a parsed \<Rightarrow> parser \<Rightarrow> bool" where
  "weakly_safe P m p \<longleftrightarrow> m \<noteq> Crash \<and> (\<forall>x q. m = Done (x, q) \<longrightarrow> P x \<and> follows p q)"

lemma jql_safe_Done: "P x \<Longrightarrow> reads p q \<Longrightarrow> safe P (Done (x, q)) p"
  by (simp add: safe_def)

lemma weakly_safe_Done: "P x \<Longrightarrow> follows p q \<Longrightarrow> weakly_safe P (Done (x, q)) p"
  by (simp add: weakly_safe_def)

lemma jql_safe_Fail [simp]: "safe P (Fail e) p" "weakly_safe P (Fail e) p"
  by (simp_all add: safe_def weakly_safe_def)

lemma safe_weakly: "safe P m p \<Longrightarrow> weakly_safe P m p"
  by (auto simp: safe_def weakly_safe_def reads_follows)

lemma jql_safe_bind:
  assumes "safe P m p0" "\<And>x q. m = Done (x, q) \<Longrightarrow> P x \<Longrightarrow> reads p0 q \<Longrightarrow> safe Q (f (x, q)) p"
  shows "safe Q (obind m f) p"
  using assms by (cases m) (auto simp: safe_def)

lemma weakly_safe_bind:
  assumes "weakly_safe P m p0" "\<And>x q. m = Done (x, q) \<Longrightarrow> P x \<Longrightarrow> follows p0 q \<Longrightarrow> safe Q (f (x, q)) p"
  shows "safe Q (obind m f) p"
  using assms by (cases m) (auto simp: safe_def weakly_safe_def)

lemma weak_bind:
  assumes "safe P m p0" "\<And>x q. m = Done (x, q) \<Longrightarrow> P x \<Longrightarrow> reads p0 q \<Longrightarrow> weakly_safe Q (f (x, q)) p"
  shows "weakly_safe Q (obind m f) p"
  using assms by (cases m) (auto simp: safe_def weakly_safe_def)

text \<open>Looking at the next token gives a token, and moving past it is a read unless it is the end.\<close>

lemma peek_ended: "ended (p_toks p) \<Longrightarrow> \<exists>t. peek p = Done t \<and> (t_kind t \<noteq> Eof \<longrightarrow> reads p (advance p)) \<and> (\<exists>ts. p_toks p = t # ts)"
  using jql_ended_cases [of "p_toks p"] advance_reads by (auto simp: peek_def)

lemma jql_safe_peek:
  assumes "ended (p_toks p)"
    and "\<And>t. peek p = Done t \<Longrightarrow> (t_kind t \<noteq> Eof \<Longrightarrow> reads p (advance p)) \<Longrightarrow> safe P (f t) q"
  shows "safe P (obind (peek p) f) q"
proof -
  obtain t where "peek p = Done t" "t_kind t \<noteq> Eof \<longrightarrow> reads p (advance p)" using peek_ended [OF assms(1)] by blast
  with assms(2) [of t] show ?thesis by simp
qed

lemma weakly_safe_peek:
  assumes "ended (p_toks p)"
    and "\<And>t. peek p = Done t \<Longrightarrow> (t_kind t \<noteq> Eof \<Longrightarrow> reads p (advance p)) \<Longrightarrow> weakly_safe P (f t) q"
  shows "weakly_safe P (obind (peek p) f) q"
proof -
  obtain t where "peek p = Done t" "t_kind t \<noteq> Eof \<longrightarrow> reads p (advance p)" using peek_ended [OF assms(1)] by blast
  with assms(2) [of t] show ?thesis by simp
qed

lemma safe_atWord:
  assumes "ended (p_toks p)"
    and "reads p (advance p) \<Longrightarrow> atWord w p = Done True \<Longrightarrow> safe P (f True) q" "atWord w p = Done False \<Longrightarrow> safe P (f False) q"
  shows "safe P (obind (atWord w p) f) q"
proof -
  obtain t where t: "peek p = Done t" "t_kind t \<noteq> Eof \<longrightarrow> reads p (advance p)" using peek_ended [OF assms(1)] by blast
  show ?thesis
    using assms(2,3) t by (cases "is_word w t") (auto simp: atWord_def is_word_def)
qed

abbreviation any :: "'a \<Rightarrow> bool" where "any \<equiv> \<lambda>_. True"

text \<open>Recording an operand that ends before the next token.\<close>

lemma placed_record:
  assumes "placed n p" "p_toks p = t # ts" "t_kind t \<noteq> Eof" "p_operands q = p_operands p"
    and "chained n e (p_toks q)" "t_end t \<le> e"
  shows "placed n (record_operand t v e f q)"
proof -
  obtain i where i: "chained n i (t # ts)" "spans 0 (p_operands p) i" using assms(1,2) by (auto simp: placed_def)
  then have "spans 0 (p_operands q) (t_pos t)" "t_pos t < t_end t" using assms(3,4) by (auto elim: spans_mono)
  moreover from this assms(6) have "t_pos t < e" by simp
  moreover from calculation have "spans 0 (p_operands q) e" using spans_mono by (metis less_imp_le)
  ultimately have "spans 0 (p_operands (record_operand t v e f q)) e"
    by (auto simp: record_operand_def spans_append)
  moreover have "p_toks (record_operand t v e f q) = p_toks q" by (simp add: record_operand_def)
  ultimately show ?thesis using assms(5) by (auto simp: placed_def)
qed

lemma record_operand_keeps [simp]:
  "p_toks (record_operand t v e f q) = p_toks q" "p_call (record_operand t v e f q) = p_call q"
  "0 < p_call q \<Longrightarrow> p_operands (record_operand t v e f q) = p_operands q"
  by (auto simp: record_operand_def)

lemma advance_keeps [simp]: "p_call (advance p) = p_call p" "p_operands (advance p) = p_operands p"
  "p_toks (advance p) = tl (p_toks p)"
  by (simp_all add: advance_def)

lemma peek_toks: "peek p = Done t \<Longrightarrow> \<exists>ts. p_toks p = t # ts"
  by (auto simp: peek_def split: list.splits)

lemma placed_chained_tl: "placed n p \<Longrightarrow> p_toks p = t # ts \<Longrightarrow> chained n (t_end t) ts"
  by (auto simp: placed_def)

text \<open>Reading a word or a quoted text as a value.\<close>

lemma read_word:
  assumes "peek p = Done t" "reads p (advance p)" "t_kind t \<noteq> Eof"
  shows "reads p (record_operand t (t_text t) (t_end t) False (advance p))"
proof -
  obtain ts where ts: "p_toks p = t # ts" using peek_toks [OF assms(1)] by blast
  have "placed n (record_operand t (t_text t) (t_end t) False (advance p))" if "placed n p" for n
    using placed_record [OF that ts assms(3), of "advance p" "t_end t"] placed_chained_tl [OF that ts] by (simp add: ts)
  with assms(2) show ?thesis by (auto simp: reads_def follows_def)
qed

text \<open>A call: its arguments are read with nothing recorded, then the whole of it is recorded.\<close>

lemma read_call:
  assumes p: "p_toks p = t # u # ts" "ended (p_toks p)" "t_kind t = Word" "t_kind u = LParen"
    and p2: "follows ((advance (advance p))\<lparr>p_call := p_call p + 1\<rparr>) p2" "p_toks p2 = w # ws" "t_kind w = RParen"
  shows "reads p (record_operand t call (t_end w) True ((advance p2)\<lparr>p_call := p_call p2 - 1\<rparr>))"
proof -
  let ?p1 = "(advance (advance p))\<lparr>p_call := p_call p + 1\<rparr>" and ?p3 = "(advance p2)\<lparr>p_call := p_call p2 - 1\<rparr>"
  let ?q = "record_operand t call (t_end w) True ?p3"
  have toks: "p_toks ?p1 = ts" "p_toks ?p3 = ws" "p_toks ?q = ws" using p(1) p2(2) by simp_all
  have call: "p_call p2 = p_call p + 1" "p_operands p2 = p_operands p" using p2(1) by (simp_all add: follows_def)
  have len: "length (w # ws) \<le> length ts" using p2(1,2) toks p(1) by (simp add: follows_def)
  have ended: "ended ws" using p2(1,2) jql_ended_tl [of w ws] p2(3) by (simp add: follows_def)
  have chain: "chained n i (w # ws)" if "chained n i ts" for n i using p2(1,2) that toks by (simp add: follows_def)
  have suffix: "chained n i ws" if "chained n i (t # u # ts)" for n i
    using chain [THEN chained_tl] that [THEN chained_tl, THEN chained_tl] by blast
  have place: "placed n ?q" if pl: "placed n p" for n
  proof (rule placed_record [OF pl p(1)])
    have "chained n (t_end t) (u # ts)" using placed_chained_tl [OF pl p(1)] .
    then have c: "chained n (t_end t) (w # ws)" using chain chained_tl by blast
    then show "chained n (t_end w) (p_toks ?p3)" unfolding toks(2) by simp
    show "t_end t \<le> t_end w" using c by simp
  qed (use p(3) call in simp_all)
  show ?thesis
    unfolding reads_def follows_def
    using len ended suffix place call p(1) toks by (auto simp del: chained.simps)
qed

lemma safe_comma:
  assumes q: "reads p q" and t: "t_kind t \<noteq> Eof \<Longrightarrow> reads q (advance q)"
    and m: "reads q (advance q) \<Longrightarrow> safe (\<lambda>as. as \<noteq> []) (m (advance q)) (advance q)"
  shows "safe (\<lambda>as. as \<noteq> []) (if t_kind t = Comma then obind (m (advance q)) (\<lambda>(as, r). Done (a # as, r)) else Done ([a], q)) p"
proof (cases "t_kind t = Comma")
  case True
  then have r: "reads q (advance q)" using t by simp
  have "safe (\<lambda>as. as \<noteq> []) (obind (m (advance q)) (\<lambda>(as, r). Done (a # as, r))) p"
    using m [OF r] by (rule jql_safe_bind) (use q r in \<open>auto intro!: jql_safe_Done intro: reads_trans\<close>)
  with True show ?thesis by simp
qed (simp add: jql_safe_Done q)

lemma safe_by_kind:
  "(name_token t \<Longrightarrow> safe P a p) \<Longrightarrow> (t_kind t = Word \<Longrightarrow> safe P b p) \<Longrightarrow>
   safe P (if \<not> name_token t then Fail e else if t_kind t = Quoted then a else b) p"
  by (auto simp: name_token_def)

lemma call_safe:
  assumes e: "ended (p_toks p)" and t: "peek p = Done t" "t_kind t = Word" and u: "peek (advance p) = Done u" "t_kind u = LParen"
    and p1: "p1 = (advance (advance p))\<lparr>p_call := p_call p + 1\<rparr>"
    and args: "ended (p_toks p1) \<Longrightarrow> safe (\<lambda>as. as \<noteq> []) (parse_args n p1) p1"
  shows "safe any (obind (peek p1) (\<lambda>v.
          obind (if t_kind v = RParen then Done ([], p1) else parse_args n p1) (\<lambda>(args, p2).
          obind (peek p2) (\<lambda>w.
            if t_kind w \<noteq> RParen then Fail (SyntaxError (t_pos w) ''expected ) after function call'' [])
            else
              let call = t_text t @ ''('' @ join_commas args @ '')'';
                  p3 = (advance p2)\<lparr>p_call := p_call p2 - 1\<rparr>
              in Done (call, record_operand t call (t_end w) True p3))))) p"
proof -
  obtain us where us: "p_toks p = t # u # us"
    using peek_toks [OF t(1)] peek_toks [OF u(1)] by auto
  have "ended (u # us)" using jql_ended_tl [of t "u # us"] e t(2) us by simp
  then have e1: "ended (p_toks p1)" using jql_ended_tl [of u us] u(2) by (simp add: p1 us)
  show ?thesis
  proof (rule jql_safe_peek [OF e1])
    fix v
    have "weakly_safe any (if t_kind v = RParen then Done ([], p1) else parse_args n p1) p1"
      using safe_weakly [OF args [OF e1]] follows_refl [OF e1] by (auto simp: weakly_safe_def)
    then show "safe any (obind (if t_kind v = RParen then Done ([], p1) else parse_args n p1) (\<lambda>(args, p2).
          obind (peek p2) (\<lambda>w.
            if t_kind w \<noteq> RParen then Fail (SyntaxError (t_pos w) ''expected ) after function call'' [])
            else
              let call = t_text t @ ''('' @ join_commas args @ '')'';
                  p3 = (advance p2)\<lparr>p_call := p_call p2 - 1\<rparr>
              in Done (call, record_operand t call (t_end w) True p3)))) p"
    proof (rule weakly_safe_bind, goal_cases)
      case (1 as p2)
      show ?case
      proof (simp only: prod.case, rule jql_safe_peek)
        show "ended (p_toks p2)" using 1(3) follows_ended by blast
        fix w assume w: "peek p2 = Done w"
        obtain ws where ws: "p_toks p2 = w # ws" using peek_toks [OF w] by blast
        have "reads p (record_operand t call (t_end w) True ((advance p2)\<lparr>p_call := p_call p2 - 1\<rparr>))"
          if "t_kind w = RParen" for call
          using read_call [OF us e t(2) u(2) _ ws that] 1(3) p1 by simp
        then show "safe any (if t_kind w \<noteq> RParen then Fail (SyntaxError (t_pos w) ''expected ) after function call'' [])
            else
              let call = t_text t @ ''('' @ join_commas as @ '')'';
                  p3 = (advance p2)\<lparr>p_call := p_call p2 - 1\<rparr>
              in Done (call, record_operand t call (t_end w) True p3)) p"
          by (simp add: Let_def jql_safe_Done)
      qed
    qed
  qed
qed

lemma parse_value_args_safe:
  "(ended (p_toks p) \<longrightarrow> 2 * length (p_toks p) \<le> n \<longrightarrow> safe any (parse_value n p) p) \<and>
   (ended (p_toks p) \<longrightarrow> 2 * length (p_toks p) + 1 \<le> n \<longrightarrow> safe (\<lambda>as. as \<noteq> []) (parse_args n p) p)"
proof (induction n arbitrary: p)
  case 0
  then show ?case by (auto simp: ended_def)
next
  case (Suc n)
  show ?case
  proof (intro conjI impI)
    assume e: "ended (p_toks p)" and l: "2 * length (p_toks p) \<le> Suc n"
    show "safe any (parse_value (Suc n) p) p"
      unfolding parse_value.simps
    proof (rule jql_safe_peek [OF e])
      fix t assume t: "peek p = Done t" "t_kind t \<noteq> Eof \<Longrightarrow> reads p (advance p)"
      let ?word = "record_operand t (t_text t) (t_end t) False (advance p)"
      have word: "safe any (Done (t_text t, ?word)) p" if "name_token t"
        using read_word [OF t(1)] t(2) that by (auto simp: name_token_def intro: jql_safe_Done)
      have "safe any (obind (peek (advance p)) (\<lambda>u.
         if t_kind u \<noteq> LParen then Done (t_text t, ?word)
         else
           let p1 = (advance (advance p))\<lparr>p_call := p_call p + 1\<rparr>
           in obind (peek p1) (\<lambda>v.
              obind (if t_kind v = RParen then Done ([], p1) else parse_args n p1) (\<lambda>(args, p2).
              obind (peek p2) (\<lambda>w.
                if t_kind w \<noteq> RParen then Fail (SyntaxError (t_pos w) ''expected ) after function call'' [])
                else
                  let call = t_text t @ ''('' @ join_commas args @ '')'';
                      p3 = (advance p2)\<lparr>p_call := p_call p2 - 1\<rparr>
                  in Done (call, record_operand t call (t_end w) True p3)))))) p" if k: "t_kind t = Word"
      proof (rule jql_safe_peek)
        have r: "reads p (advance p)" using t(2) k by simp
        then show "ended (p_toks (advance p))" by (rule follows_ended)
        fix u assume u: "peek (advance p) = Done u"
        obtain us where us: "p_toks p = t # u # us" using peek_toks [OF t(1)] peek_toks [OF u] by auto
        have n: "2 * length (p_toks ((advance (advance p))\<lparr>p_call := p_call p + 1\<rparr>)) + 1 \<le> n"
          using l by (simp add: us)
        have "safe any (let p1 = (advance (advance p))\<lparr>p_call := p_call p + 1\<rparr>
           in obind (peek p1) (\<lambda>v.
              obind (if t_kind v = RParen then Done ([], p1) else parse_args n p1) (\<lambda>(args, p2).
              obind (peek p2) (\<lambda>w.
                if t_kind w \<noteq> RParen then Fail (SyntaxError (t_pos w) ''expected ) after function call'' [])
                else
                  let call = t_text t @ ''('' @ join_commas args @ '')'';
                      p3 = (advance p2)\<lparr>p_call := p_call p2 - 1\<rparr>
                  in Done (call, record_operand t call (t_end w) True p3))))) p" if "t_kind u = LParen"
          unfolding Let_def [of "(advance (advance p))\<lparr>p_call := p_call p + 1\<rparr>"]
          by (rule call_safe [OF e t(1) k u that refl]) (use Suc.IH n in blast)
        moreover have "safe any (Done (t_text t, ?word)) p" using word k by (simp add: name_token_def)
        ultimately show "safe any (if t_kind u \<noteq> LParen then Done (t_text t, ?word)
          else let p1 = (advance (advance p))\<lparr>p_call := p_call p + 1\<rparr>
           in obind (peek p1) (\<lambda>v.
              obind (if t_kind v = RParen then Done ([], p1) else parse_args n p1) (\<lambda>(args, p2).
              obind (peek p2) (\<lambda>w.
                if t_kind w \<noteq> RParen then Fail (SyntaxError (t_pos w) ''expected ) after function call'' [])
                else
                  let call = t_text t @ ''('' @ join_commas args @ '')'';
                      p3 = (advance p2)\<lparr>p_call := p_call p2 - 1\<rparr>
                  in Done (call, record_operand t call (t_end w) True p3))))) p"
          by presburger
      qed
      with word show "safe any (if \<not> name_token t then Fail (SyntaxError (t_pos t) ''expected value'' [])
       else if t_kind t = Quoted then Done (t_text t, ?word)
       else obind (peek (advance p)) (\<lambda>u.
         if t_kind u \<noteq> LParen then Done (t_text t, ?word)
         else
           let p1 = (advance (advance p))\<lparr>p_call := p_call p + 1\<rparr>
           in obind (peek p1) (\<lambda>v.
              obind (if t_kind v = RParen then Done ([], p1) else parse_args n p1) (\<lambda>(args, p2).
              obind (peek p2) (\<lambda>w.
                if t_kind w \<noteq> RParen then Fail (SyntaxError (t_pos w) ''expected ) after function call'' [])
                else
                  let call = t_text t @ ''('' @ join_commas args @ '')'';
                      p3 = (advance p2)\<lparr>p_call := p_call p2 - 1\<rparr>
                  in Done (call, record_operand t call (t_end w) True p3)))))) p"
        by (intro safe_by_kind)
    qed
  next
    assume e: "ended (p_toks p)" and l: "2 * length (p_toks p) + 1 \<le> Suc n"
    have v: "safe any (parse_value n p) p" using Suc.IH e l by simp
    show "safe (\<lambda>as. as \<noteq> []) (parse_args (Suc n) p) p"
      unfolding parse_args.simps
    proof (rule jql_safe_bind [OF v], simp only: prod.case, rule jql_safe_peek)
      fix a q assume q: "reads p q"
      then show "ended (p_toks q)" by (rule follows_ended)
      fix t assume t: "t_kind t \<noteq> Eof \<Longrightarrow> reads q (advance q)"
      show "safe (\<lambda>as. as \<noteq> []) (if t_kind t = Comma then obind (parse_args n (advance q)) (\<lambda>(as, p2). Done (a # as, p2))
         else Done ([a], q)) p"
      proof (rule safe_comma [OF q t])
        assume r: "reads q (advance q)"
        show "safe (\<lambda>as. as \<noteq> []) (parse_args n (advance q)) (advance q)"
          using Suc.IH [of "advance q"] follows_ended(2) [OF r] q r l by (auto simp: reads_def)
      qed
    qed
  qed
qed

lemma jql_parseValue_safe: "ended (p_toks p) \<Longrightarrow> safe any (parseValue p) p"
  using parse_value_args_safe [of p "2 * length (p_toks p)"] by (simp add: parseValue_def)

lemma parse_list_safe: "ended (p_toks p) \<Longrightarrow> length (p_toks p) \<le> n \<Longrightarrow> safe (\<lambda>vs. vs \<noteq> []) (parse_list n p) p"
proof (induction n arbitrary: p)
  case (Suc n)
  show ?case
    unfolding parse_list.simps
  proof (rule jql_safe_bind [OF jql_parseValue_safe [OF Suc.prems(1)]], simp only: prod.case, rule jql_safe_peek)
    fix a q assume q: "reads p q"
    then show "ended (p_toks q)" by (rule follows_ended)
    fix t assume t: "t_kind t \<noteq> Eof \<Longrightarrow> reads q (advance q)"
    show "safe (\<lambda>as. as \<noteq> []) (if t_kind t = Comma then obind (parse_list n (advance q)) (\<lambda>(as, p2). Done (a # as, p2))
       else Done ([a], q)) p"
    proof (rule safe_comma [OF q t])
      assume r: "reads q (advance q)"
      show "safe (\<lambda>as. as \<noteq> []) (parse_list n (advance q)) (advance q)"
        using Suc.IH [of "advance q"] follows_ended(2) [OF r] q r Suc.prems(2) by (auto simp: reads_def)
    qed
  qed
qed (auto simp: ended_def)

text \<open>The fields that say what is being read do not matter to any of this.\<close>

lemma same_position:
  "p_toks p' = p_toks p \<Longrightarrow> p_call p' = p_call p \<Longrightarrow> p_operands p' = p_operands p \<Longrightarrow>
   follows p' q = follows p q \<and> reads p' q = reads p q \<and> follows q p' = follows q p \<and> reads q p' = reads q p"
  by (simp add: follows_def reads_def placed_def)

lemma set_same [simp]:
  "p_toks (set_parenthesized b p) = p_toks p" "p_toks (set_role k p) = p_toks p" "p_toks (start_clause f t op p) = p_toks p"
  "follows (set_parenthesized b p) q = follows p q" "follows q (set_parenthesized b p) = follows q p"
  "reads (set_parenthesized b p) q = reads p q" "reads q (set_parenthesized b p) = reads q p"
  "follows (set_role k p) q = follows p q" "follows q (set_role k p) = follows q p"
  "reads (set_role k p) q = reads p q" "reads q (set_role k p) = reads q p"
  "follows (start_clause f t op p) q = follows p q" "follows q (start_clause f t op p) = follows q p"
  "reads (start_clause f t op p) q = reads p q" "reads q (start_clause f t op p) = reads q p"
  using same_position [of "set_parenthesized b p" p q] same_position [of "set_role k p" p q]
    same_position [of "start_clause f t op p" p q]
  by (simp_all add: set_parenthesized_def set_role_def start_clause_def)

lemma safe_later: "safe P m q \<Longrightarrow> reads p q \<Longrightarrow> safe P m p"
  by (auto simp: safe_def intro: reads_trans)

lemma safe_after: "weakly_safe P m q \<Longrightarrow> reads p q \<Longrightarrow> safe P m p"
  by (auto simp: safe_def weakly_safe_def intro: reads_trans)

lemma jql_safe_mono: "safe P m p \<Longrightarrow> (\<And>x. P x \<Longrightarrow> Q x) \<Longrightarrow> safe Q m p"
  by (auto simp: safe_def)

lemma safe_omap_pair: "safe P m q \<Longrightarrow> reads p q \<or> p = q \<Longrightarrow> (\<And>x. P x \<Longrightarrow> Q (f x)) \<Longrightarrow>
    safe Q (obind m (\<lambda>(x, r). Done (f x, r))) p"
  by (cases m) (auto simp: safe_def intro: reads_trans)

lemma safe_closing:
  assumes "reads p q" "t_kind t \<noteq> Eof \<Longrightarrow> reads q q'" "k \<noteq> Eof" "P x"
  shows "safe P (if t_kind t \<noteq> k then Fail e else Done (x, q')) p"
  using assms(2,3,4) reads_trans(3) [OF assms(1)] by (auto intro!: jql_safe_Done)

lemma parseInClause_safe: "ended (p_toks p) \<Longrightarrow> safe (\<lambda>vs. vs \<noteq> []) (parseInClause p) p"
  unfolding parseInClause_def
proof (rule jql_safe_peek, assumption)
  fix t assume e: "ended (p_toks p)" and t: "t_kind t \<noteq> Eof \<Longrightarrow> reads p (advance p)"
  have "safe (\<lambda>vs. vs \<noteq> []) (obind (parseValue p) (\<lambda>(v, p1).
           if splitFunction v = None then
             obind (peek p1) (\<lambda>u. Fail (SyntaxError (t_pos u) ''expected a list or list function after IN'' []))
           else Done ([v], p1))) p"
    by (rule jql_safe_bind [OF jql_parseValue_safe [OF e]]) (auto intro!: jql_safe_Done jql_safe_peek elim: follows_ended)
  moreover have "safe (\<lambda>vs. vs \<noteq> []) (obind (parse_list (length (p_toks p)) (set_parenthesized True (advance p))) (\<lambda>(vs, p1).
         obind (peek p1) (\<lambda>u.
           if t_kind u \<noteq> RParen then Fail (SyntaxError (t_pos u) ''expected ) to close IN'' [])
           else Done (vs, set_parenthesized False (advance p1))))) p" if k: "t_kind t = LParen"
  proof (rule jql_safe_bind [OF parse_list_safe])
    have r: "reads p (advance p)" using t k by simp
    then show "ended (p_toks (set_parenthesized True (advance p)))" unfolding set_same by (rule follows_ended)
    show "length (p_toks (set_parenthesized True (advance p))) \<le> length (p_toks p)" by simp
    fix vs q assume vs: "vs \<noteq> []" and q: "reads (set_parenthesized True (advance p)) q"
    from q have pq: "reads p q" unfolding set_same by (rule reads_trans(3) [OF r])
    show "safe (\<lambda>vs. vs \<noteq> []) (case (vs, q) of (vs, p1) \<Rightarrow> obind (peek p1) (\<lambda>u.
           if t_kind u \<noteq> RParen then Fail (SyntaxError (t_pos u) ''expected ) to close IN'' [])
           else Done (vs, set_parenthesized False (advance p1)))) p"
    proof (simp only: prod.case, rule jql_safe_peek [OF follows_ended(2) [OF pq]])
      fix u assume "t_kind u \<noteq> Eof \<Longrightarrow> reads q (advance q)"
      with vs show "safe (\<lambda>vs. vs \<noteq> []) (if t_kind u \<noteq> RParen then Fail (SyntaxError (t_pos u) ''expected ) to close IN'' [])
           else Done (vs, set_parenthesized False (advance q))) p"
        by (intro safe_closing [OF pq]) simp_all
    qed
  qed
  ultimately show "safe (\<lambda>vs. vs \<noteq> []) (if t_kind t \<noteq> LParen then
         obind (parseValue p) (\<lambda>(v, p1).
           if splitFunction v = None then
             obind (peek p1) (\<lambda>u. Fail (SyntaxError (t_pos u) ''expected a list or list function after IN'' []))
           else Done ([v], p1))
       else
         obind (parse_list (length (p_toks p)) (set_parenthesized True (advance p))) (\<lambda>(vs, p1).
         obind (peek p1) (\<lambda>u.
           if t_kind u \<noteq> RParen then Fail (SyntaxError (t_pos u) ''expected ) to close IN'' [])
           else Done (vs, set_parenthesized False (advance p1))))) p" by simp
qed

text \<open>The predicates of a history clause: each kind once, \<open>during\<close> with two values, any other with one.\<close>

definition predicate_ok :: "string list \<Rightarrow> HistoryPredicate \<Rightarrow> bool" where
  "predicate_ok kinds h \<longleftrightarrow> hp_kind h \<in> set kinds \<and> length (hp_values h) = (if hp_kind h = ''during'' then 2 else 1)"

definition predicates_ok :: "string list \<Rightarrow> HistoryPredicate list \<Rightarrow> bool" where
  "predicates_ok kinds hs \<longleftrightarrow> distinct (map hp_kind hs) \<and> list_all (predicate_ok kinds) hs"

abbreviation values_of :: "nat \<Rightarrow> string list \<Rightarrow> bool" where
  "values_of n \<equiv> \<lambda>vs. length vs = n"

lemma parse_during_safe: "ended (p_toks p) \<Longrightarrow> safe (values_of 2) (parse_during p) p"
  unfolding parse_during_def
proof (rule jql_safe_peek, assumption)
  fix t assume e: "ended (p_toks p)" and t: "t_kind t \<noteq> Eof \<Longrightarrow> reads p (advance p)"
  have "safe (values_of 2) (obind (parseValue (advance p)) (\<lambda>(v1, p1).
         obind (peek p1) (\<lambda>u.
           if t_kind u \<noteq> Comma then Fail (SyntaxError (t_pos u) ''expected comma in DURING'' [])
           else
             obind (parseValue (advance p1)) (\<lambda>(v2, p2).
             obind (peek p2) (\<lambda>w.
               if t_kind w \<noteq> RParen then Fail (SyntaxError (t_pos w) ''expected ) to close DURING'' [])
               else Done ([v1, v2], advance p2)))))) p" if k: "t_kind t = LParen"
  proof (rule jql_safe_bind [OF jql_parseValue_safe])
    have r: "reads p (advance p)" using t k by simp
    then show "ended (p_toks (advance p))" by (rule follows_ended)
    fix v1 p1 assume "reads (advance p) p1"
    then have r1: "reads p p1" by (rule reads_trans(3) [OF r])
    have two: "safe (values_of 2) (obind (parseValue (advance p1)) (\<lambda>(v2, p2). obind (peek p2) (\<lambda>w.
               if t_kind w \<noteq> RParen then Fail (SyntaxError (t_pos w) ''expected ) to close DURING'' [])
               else Done ([v1, v2], advance p2)))) p" if r2: "reads p1 (advance p1)"
    proof (rule jql_safe_bind [OF jql_parseValue_safe [OF follows_ended(2) [OF r2]]])
      fix v2 p2 assume "reads (advance p1) p2"
      then have r3: "reads p p2" by (rule reads_trans(3) [OF reads_trans(3) [OF r1 r2]])
      show "safe (values_of 2) (case (v2, p2) of (v2, p2) \<Rightarrow> obind (peek p2) (\<lambda>w.
               if t_kind w \<noteq> RParen then Fail (SyntaxError (t_pos w) ''expected ) to close DURING'' [])
               else Done ([v1, v2], advance p2))) p"
        unfolding prod.case
        by (rule jql_safe_peek [OF follows_ended(2) [OF r3]], rule safe_closing [OF r3]) simp_all
    qed
    show "safe (values_of 2) (case (v1, p1) of (v1, p1) \<Rightarrow> obind (peek p1) (\<lambda>u.
           if t_kind u \<noteq> Comma then Fail (SyntaxError (t_pos u) ''expected comma in DURING'' [])
           else
             obind (parseValue (advance p1)) (\<lambda>(v2, p2).
             obind (peek p2) (\<lambda>w.
               if t_kind w \<noteq> RParen then Fail (SyntaxError (t_pos w) ''expected ) to close DURING'' [])
               else Done ([v1, v2], advance p2))))) p"
      unfolding prod.case by (rule jql_safe_peek [OF follows_ended(2) [OF r1]]) (simp add: two)
  qed
  then show "safe (values_of 2) (if t_kind t \<noteq> LParen then Fail (SyntaxError (t_pos t) ''expected ( after DURING'' [])
    else obind (parseValue (advance p)) (\<lambda>(v1, p1).
         obind (peek p1) (\<lambda>u.
           if t_kind u \<noteq> Comma then Fail (SyntaxError (t_pos u) ''expected comma in DURING'' [])
           else
             obind (parseValue (advance p1)) (\<lambda>(v2, p2).
             obind (peek p2) (\<lambda>w.
               if t_kind w \<noteq> RParen then Fail (SyntaxError (t_pos w) ''expected ) to close DURING'' [])
               else Done ([v1, v2], advance p2)))))) p" by simp
qed

lemma one_value_safe: "ended (p_toks p) \<Longrightarrow> safe (values_of 1) (obind (parseValue p) (\<lambda>(v, q). Done ([v], q))) p"
  using jql_parseValue_safe [of p] by (rule safe_omap_pair) simp_all

lemma parse_predicates_safe:
  "ended (p_toks p) \<Longrightarrow> length (p_toks p) \<le> n \<Longrightarrow>
   weakly_safe (\<lambda>hs. predicates_ok kinds hs \<and> (\<forall>h\<in>set hs. hp_kind h \<notin> set seen)) (parse_predicates n kinds seen p) p"
proof (induction n arbitrary: p seen)
  case (Suc n)
  show ?case
    unfolding parse_predicates.simps
  proof (rule weakly_safe_peek [OF Suc.prems(1)])
    fix t assume t: "t_kind t \<noteq> Eof \<Longrightarrow> reads p (advance p)"
    let ?k = "ToLower (t_text t)" and ?p1 = "set_role (ToLower (t_text t)) (advance p)"
    let ?P = "\<lambda>hs. predicates_ok kinds hs \<and> (\<forall>h\<in>set hs. hp_kind h \<notin> set seen)"
    let ?vals = "if ?k = ''during'' then parse_during ?p1 else obind (parseValue ?p1) (\<lambda>(v, p2). Done ([v], p2))"
    have go: "weakly_safe ?P (obind ?vals (\<lambda>(vs, p2). obind (parse_predicates n kinds (?k # seen) p2) (\<lambda>(ps, p3).
        Done (\<lparr>hp_kind = ?k, hp_values = vs\<rparr> # ps, p3)))) p"
      if w: "t_kind t = Word" "?k \<in> set kinds" "?k \<notin> set seen"
    proof -
      have r: "reads p (advance p)" using t w by simp
      have e1: "ended (p_toks ?p1)" using follows_ended(2) [OF r] by simp
      have "safe (values_of (if ?k = ''during'' then 2 else 1)) ?vals ?p1"
        using parse_during_safe [OF e1] one_value_safe [OF e1] by presburger
      then show ?thesis
      proof (rule weak_bind)
        fix vs p2 assume vs: "values_of (if ?k = ''during'' then 2 else 1) vs" and r2: "reads ?p1 p2"
        have r3: "reads p p2" using r2 unfolding set_same by (rule reads_trans(3) [OF r])
        then have e2: "ended (p_toks p2)" "length (p_toks p2) \<le> n"
          using follows_ended(2) [OF r3] Suc.prems(2) by (auto simp: reads_def)
        show "weakly_safe ?P (case (vs, p2) of (vs, p2) \<Rightarrow> obind (parse_predicates n kinds (?k # seen) p2) (\<lambda>(ps, p3).
            Done (\<lparr>hp_kind = ?k, hp_values = vs\<rparr> # ps, p3))) p"
          using Suc.IH [OF e2, of "?k # seen"] vs w reads_follows [OF r3]
          by (cases "parse_predicates n kinds (?k # seen) p2")
            ((auto simp: weakly_safe_def predicates_ok_def predicate_ok_def intro: follows_trans; blast)+)
      qed
    qed
    have stop: "weakly_safe ?P (Done ([], p)) p"
      using follows_refl [OF Suc.prems(1)] by (simp add: weakly_safe_def predicates_ok_def)
    show "weakly_safe ?P (let k = ?k
       in if t_kind t \<noteq> Word \<or> k \<notin> set kinds then Done ([], p)
          else if k \<in> set seen then Fail (SyntaxError (t_pos t) ''duplicate %s predicate'' [to_upper k])
          else
            let p1 = set_role k (advance p)
            in obind (if k = ''during'' then parse_during p1
                      else obind (parseValue p1) (\<lambda>(v, p2). Done ([v], p2))) (\<lambda>(vs, p2).
               obind (parse_predicates n kinds (k # seen) p2) (\<lambda>(ps, p3).
                 Done (\<lparr>hp_kind = k, hp_values = vs\<rparr> # ps, p3)))) p"
      unfolding Let_def using go stop by simp
  qed
qed (auto simp: ended_def)

lemma parse_history_safe: "ended (p_toks p) \<Longrightarrow> weakly_safe (predicates_ok kinds) (parse_history kinds p) p"
  using parse_predicates_safe [of p "length (p_toks p)" kinds "[]"] by (simp add: parse_history_def weakly_safe_def)

section \<open>Clauses\<close>

text \<open>What the compiler may rely on in a tree.\<close>

fun well_formed :: "Node \<Rightarrow> bool" where
  "well_formed (Or ts) = (2 \<le> length ts \<and> list_all well_formed ts)"
| "well_formed (And ts) = (2 \<le> length ts \<and> list_all well_formed ts)"
| "well_formed (Not t) = well_formed t"
| "well_formed (Clause f op vs) =
     (if op \<in> set operators then length vs = 1
      else if op \<in> {''in'', ''notin''} then vs \<noteq> []
      else if op \<in> {''empty'', ''notempty''} then vs = []
      else op \<in> {''is'', ''isnot''} \<and> length vs = 1 \<and> splitFunction (hd vs) \<noteq> None)"
| "well_formed (HistoryClause f op vs hs) =
     (if op = ''changed'' then vs = [] \<and> predicates_ok changed_kinds hs
      else if op \<in> {''was'', ''wasnot''} then length vs = 1 \<and> predicates_ok was_kinds hs
      else op \<in> {''wasin'', ''wasnotin''} \<and> vs \<noteq> [] \<and> predicates_ok was_kinds hs)"
| "well_formed (Text s) = True"

lemma optional_follows: "ended (p_toks p) \<Longrightarrow> (b \<Longrightarrow> reads p (advance p)) \<Longrightarrow> follows p (if b then advance p else p)"
  using follows_refl reads_follows by auto

lemma parseWasClause_safe:
  assumes "ended (p_toks p)"
  shows "safe well_formed (parseWasClause field p) p"
proof -
  have tail: "safe well_formed (obind (parse_history was_kinds p2) (\<lambda>(ps, p3). Done (HistoryClause field op vs ps, p3))) p"
    if r: "reads p p2" and v: "if op \<in> {''was'', ''wasnot''} then length vs = 1 else op \<in> {''wasin'', ''wasnotin''} \<and> vs \<noteq> []"
    for p2 op and vs :: "string list"
  proof (rule weakly_safe_bind [OF parse_history_safe [OF follows_ended(2) [OF r]]])
    fix ps p3 assume "predicates_ok was_kinds ps" "follows p2 p3"
    with v r show "safe well_formed (case (ps, p3) of (ps, p3) \<Rightarrow> Done (HistoryClause field op vs ps, p3)) p"
      by (auto intro!: jql_safe_Done intro: reads_trans(1) split: if_splits)
  qed
  have rest: "safe well_formed
       (obind (atWord ''in'' p1) (\<lambda>within.
          obind (if within then parseInClause (advance p1) else obind (parseValue p1) (\<lambda>(v, p2). Done ([v], p2))) (\<lambda>(vs, p2).
          obind (parse_history was_kinds p2) (\<lambda>(ps, p3).
            let op = (if within then (if negated then ''wasnotin'' else ''wasin'') else if negated then ''wasnot'' else ''was'')
            in Done (HistoryClause field op vs ps, p3))))) p"
    if f: "follows p p1" for p1 negated
  proof (rule safe_atWord [OF follows_ended(1) [OF f]])
    assume r: "reads p1 (advance p1)"
    show "safe well_formed (obind (if True then parseInClause (advance p1) else obind (parseValue p1) (\<lambda>(v, p2). Done ([v], p2))) (\<lambda>(vs, p2).
          obind (parse_history was_kinds p2) (\<lambda>(ps, p3).
            let op = (if True then (if negated then ''wasnotin'' else ''wasin'') else if negated then ''wasnot'' else ''was'')
            in Done (HistoryClause field op vs ps, p3)))) p"
      unfolding if_True Let_def
    proof (rule jql_safe_bind [OF parseInClause_safe [OF follows_ended(2) [OF r]]])
      fix vs :: "string list" and p2 assume vs: "vs \<noteq> []" and "reads (advance p1) p2"
      then have "reads p p2" using reads_trans(2) [OF f reads_trans(3) [OF r]] by blast
      from tail [OF this, of "if negated then ''wasnotin'' else ''wasin''" vs] vs
      show "safe well_formed (case (vs, p2) of (vs, p2) \<Rightarrow> obind (parse_history was_kinds p2) (\<lambda>(ps, p3).
          Done (HistoryClause field (if negated then ''wasnotin'' else ''wasin'') vs ps, p3))) p" by simp
    qed
  next
    show "safe well_formed (obind (if False then parseInClause (advance p1) else obind (parseValue p1) (\<lambda>(v, p2). Done ([v], p2))) (\<lambda>(vs, p2).
          obind (parse_history was_kinds p2) (\<lambda>(ps, p3).
            let op = (if False then (if negated then ''wasnotin'' else ''wasin'') else if negated then ''wasnot'' else ''was'')
            in Done (HistoryClause field op vs ps, p3)))) p"
      unfolding if_False Let_def
    proof (rule jql_safe_bind [OF one_value_safe [OF follows_ended(1) [OF f]]])
      fix vs :: "string list" and p2 assume vs: "values_of 1 vs" and "reads p1 p2"
      then have "reads p p2" using reads_trans(2) [OF f] by blast
      from tail [OF this, of "if negated then ''wasnot'' else ''was''" vs] vs
      show "safe well_formed (case (vs, p2) of (vs, p2) \<Rightarrow> obind (parse_history was_kinds p2) (\<lambda>(ps, p3).
          Done (HistoryClause field (if negated then ''wasnot'' else ''was'') vs ps, p3))) p" by simp
    qed
  qed
  show ?thesis
    unfolding parseWasClause_def
  proof (rule safe_atWord [OF assms])
    assume "reads p (advance p)"
    from rest [OF reads_follows [OF this], of True] show "safe well_formed (let p1 = (if True then advance p else p) in
       obind (atWord ''in'' p1) (\<lambda>within.
          obind (if within then parseInClause (advance p1) else obind (parseValue p1) (\<lambda>(v, p2). Done ([v], p2))) (\<lambda>(vs, p2).
          obind (parse_history was_kinds p2) (\<lambda>(ps, p3).
            let op = (if within then (if True then ''wasnotin'' else ''wasin'') else if True then ''wasnot'' else ''was'')
            in Done (HistoryClause field op vs ps, p3))))) p" unfolding Let_def if_True .
  next
    from rest [OF follows_refl [OF assms], of False] show "safe well_formed (let p1 = (if False then advance p else p) in
       obind (atWord ''in'' p1) (\<lambda>within.
          obind (if within then parseInClause (advance p1) else obind (parseValue p1) (\<lambda>(v, p2). Done ([v], p2))) (\<lambda>(vs, p2).
          obind (parse_history was_kinds p2) (\<lambda>(ps, p3).
            let op = (if within then (if False then ''wasnotin'' else ''wasin'') else if False then ''wasnot'' else ''was'')
            in Done (HistoryClause field op vs ps, p3))))) p" unfolding Let_def if_False .
  qed
qed

lemma parseChangedClause_safe: "ended (p_toks p) \<Longrightarrow> weakly_safe well_formed (parseChangedClause field p) p"
  using parse_history_safe [of p changed_kinds]
  by (cases "parse_history changed_kinds p") (auto simp: parseChangedClause_def weakly_safe_def)

lemma parse_is_safe:
  assumes "ended (p_toks p)"
  shows "safe well_formed (parse_is field p) p"
proof -
  have rest: "safe well_formed
       (obind (atWord ''empty'' p1) (\<lambda>empty.
          obind (atWord ''null'' p1) (\<lambda>null.
            if empty \<or> null then Done (Clause field (if negated then ''notempty'' else ''empty'') [], advance p1)
            else case parseValue p1 of
                Crash \<Rightarrow> Crash
              | Fail (SyntaxError i m as) \<Rightarrow> Fail (SyntaxError i ''expected EMPTY or a function after IS'' [])
              | Done (v, p2) \<Rightarrow>
                  if splitFunction v = None then
                    obind (peek p2) (\<lambda>u. Fail (SyntaxError (t_pos u) ''expected EMPTY or a function after IS'' []))
                  else Done (Clause field (if negated then ''isnot'' else ''is'') [v], p2)))) p"
    if f: "follows p p1" for p1 negated
  proof -
    have e: "ended (p_toks p1)" using f by (rule follows_ended)
    have empty: "safe well_formed (Done (Clause field (if negated then ''notempty'' else ''empty'') [], advance p1)) p"
      if "reads p1 (advance p1)" by (rule jql_safe_Done) (use reads_trans(2) [OF f that] in \<open>auto simp: operators_def\<close>)
    have call: "safe well_formed (case parseValue p1 of
                Crash \<Rightarrow> Crash
              | Fail (SyntaxError i m as) \<Rightarrow> Fail (SyntaxError i ''expected EMPTY or a function after IS'' [])
              | Done (v, p2) \<Rightarrow>
                  if splitFunction v = None then
                    obind (peek p2) (\<lambda>u. Fail (SyntaxError (t_pos u) ''expected EMPTY or a function after IS'' []))
                  else Done (Clause field (if negated then ''isnot'' else ''is'') [v], p2)) p"
    proof (cases "parseValue p1")
      case (Done vp)
      obtain v p2 where vp: "vp = (v, p2)" by (cases vp)
      have r: "reads p p2" using jql_parseValue_safe [OF e] Done vp reads_trans(2) [OF f] by (auto simp: safe_def)
      show ?thesis
        unfolding Done vp outcome.case prod.case
        by (cases "splitFunction v = None")
          (auto intro!: jql_safe_peek [OF follows_ended(2) [OF r]] jql_safe_Done simp: r operators_def)
    qed (use jql_parseValue_safe [OF e] in \<open>auto simp: safe_def split: jql_error.split\<close>)
    show ?thesis
      by (rule safe_atWord [OF e]; rule safe_atWord [OF e]) (use empty call in simp_all)
  qed
  show ?thesis
    unfolding parse_is_def
  proof (rule safe_atWord [OF assms])
    assume "reads p (advance p)"
    from rest [OF reads_follows [OF this], of True] show "safe well_formed (let p1 = (if True then advance p else p) in
       obind (atWord ''empty'' p1) (\<lambda>empty.
          obind (atWord ''null'' p1) (\<lambda>null.
            if empty \<or> null then Done (Clause field (if True then ''notempty'' else ''empty'') [], advance p1)
            else case parseValue p1 of
                Crash \<Rightarrow> Crash
              | Fail (SyntaxError i m as) \<Rightarrow> Fail (SyntaxError i ''expected EMPTY or a function after IS'' [])
              | Done (v, p2) \<Rightarrow>
                  if splitFunction v = None then
                    obind (peek p2) (\<lambda>u. Fail (SyntaxError (t_pos u) ''expected EMPTY or a function after IS'' []))
                  else Done (Clause field (if True then ''isnot'' else ''is'') [v], p2)))) p" unfolding Let_def if_True .
  next
    from rest [OF follows_refl [OF assms], of False] show "safe well_formed (let p1 = (if False then advance p else p) in
       obind (atWord ''empty'' p1) (\<lambda>empty.
          obind (atWord ''null'' p1) (\<lambda>null.
            if empty \<or> null then Done (Clause field (if False then ''notempty'' else ''empty'') [], advance p1)
            else case parseValue p1 of
                Crash \<Rightarrow> Crash
              | Fail (SyntaxError i m as) \<Rightarrow> Fail (SyntaxError i ''expected EMPTY or a function after IS'' [])
              | Done (v, p2) \<Rightarrow>
                  if splitFunction v = None then
                    obind (peek p2) (\<lambda>u. Fail (SyntaxError (t_pos u) ''expected EMPTY or a function after IS'' []))
                  else Done (Clause field (if False then ''isnot'' else ''is'') [v], p2)))) p" unfolding Let_def if_False .
  qed
qed

lemma value_clause_safe:
  assumes "ended (p_toks p)" "\<And>v. well_formed (f v)"
  shows "safe well_formed (obind (parseValue p) (\<lambda>(v, q). Done (f v, q))) p"
  using jql_parseValue_safe [OF assms(1)] by (rule safe_omap_pair) (simp_all add: assms(2))

lemma in_clause_safe:
  assumes "ended (p_toks p)" "\<And>vs. vs \<noteq> [] \<Longrightarrow> well_formed (f vs)"
  shows "safe well_formed (obind (parseInClause p) (\<lambda>(vs, q). Done (f vs, q))) p"
  using parseInClause_safe [OF assms(1)] by (rule safe_omap_pair) (simp_all add: assms(2))

lemma safe_if: "(b \<Longrightarrow> safe P m p) \<Longrightarrow> (\<not> b \<Longrightarrow> safe P n p) \<Longrightarrow> safe P (if b then m else n) p"
  by simp

lemma weakly_safe_if: "(b \<Longrightarrow> weakly_safe P m p) \<Longrightarrow> (\<not> b \<Longrightarrow> weakly_safe P n p) \<Longrightarrow> weakly_safe P (if b then m else n) p"
  by simp

lemma clause_body_safe:
  assumes e: "ended (p_toks p1)"
  shows "weakly_safe well_formed
    (if op \<in> set operators then
               obind (parseValue p1) (\<lambda>(v, p2). Done (Clause field op [v], p2))
             else if equal_fold op ''in'' then
               obind (parseInClause p1) (\<lambda>(vs, p2). Done (Clause field ''in'' vs, p2))
             else if equal_fold op ''not'' then
               obind (atWord ''in'' p1) (\<lambda>within.
                 if \<not> within then obind (peek p1) (\<lambda>u. Fail (SyntaxError (t_pos u) ''expected IN after NOT'' []))
                 else obind (parseInClause (advance p1)) (\<lambda>(vs, p2). Done (Clause field ''notin'' vs, p2)))
             else if equal_fold op ''was'' then parseWasClause field p1
             else if equal_fold op ''changed'' then parseChangedClause field p1
             else if equal_fold op ''is'' then parse_is field p1
             else Fail (SyntaxError i ''unsupported operator %s'' [op])) p1"
proof -
  have 1: "weakly_safe well_formed (obind (parseValue p1) (\<lambda>(v, p2). Done (Clause field op [v], p2))) p1"
    if "op \<in> set operators"
    by (rule safe_weakly, rule value_clause_safe [OF e]) (simp add: that)
  have 2: "weakly_safe well_formed (obind (parseInClause p1) (\<lambda>(vs, p2). Done (Clause field ''in'' vs, p2))) p1"
    by (rule safe_weakly, rule in_clause_safe [OF e]) (simp add: operators_def)
  have 3: "weakly_safe well_formed (obind (atWord ''in'' p1) (\<lambda>within.
       if \<not> within then obind (peek p1) (\<lambda>u. Fail (SyntaxError (t_pos u) ''expected IN after NOT'' []))
       else obind (parseInClause (advance p1)) (\<lambda>(vs, p2). Done (Clause field ''notin'' vs, p2)))) p1"
  proof (rule safe_weakly, rule safe_atWord [OF e], simp_all only: simp_thms if_True if_False)
    assume r: "reads p1 (advance p1)"
    show "safe well_formed (obind (parseInClause (advance p1)) (\<lambda>(vs, p2). Done (Clause field ''notin'' vs, p2))) p1"
      by (rule safe_later [OF in_clause_safe [OF follows_ended(2) [OF r]] r]) (simp add: operators_def)
  next
    show "safe well_formed (obind (peek p1) (\<lambda>u. Fail (SyntaxError (t_pos u) ''expected IN after NOT'' []))) p1"
      by (rule jql_safe_peek [OF e]) simp
  qed
  show ?thesis
    by (intro weakly_safe_if 1 2 3 safe_weakly [OF parseWasClause_safe [OF e]] parseChangedClause_safe [OF e]
        safe_weakly [OF parse_is_safe [OF e]] jql_safe_Fail)
qed

lemma jql_parseClause_safe:
  assumes e: "ended (p_toks p)" and f: "peek p = Done f" "name_token f" and c: "isClauseStart p = Done True"
  shows "safe well_formed (parseClause p) p"
proof -
  obtain op where op: "peek (advance p) = Done op" "t_kind op = Word"
    using c by (cases "peek (advance p)") (auto simp: isClauseStart_def)
  have r: "reads p (advance p)"
  proof -
    obtain t where "peek p = Done t" "t_kind t \<noteq> Eof \<longrightarrow> reads p (advance p)" using peek_ended [OF e] by blast
    then show ?thesis using f by (auto simp: name_token_def)
  qed
  have r2: "reads (advance p) (advance (advance p))"
    using peek_ended [OF follows_ended(2) [OF r]] op by auto
  let ?p1 = "start_clause (canonicalField (t_text f)) f op (advance (advance p))"
  have r3: "reads p ?p1" using reads_trans(3) [OF r r2] by simp
  show ?thesis
    using safe_after [OF clause_body_safe [OF follows_ended(2) [OF r3], of "t_text op" "canonicalField (t_text f)" "t_pos op"] r3]
    unfolding parseClause_def f(1) obind.simps Let_def eqTrueI [OF f(2)] if_True op(1) .
qed

section \<open>Expressions\<close>

abbreviation terms_ok :: "Node list \<Rightarrow> bool" where
  "terms_ok ts \<equiv> ts \<noteq> [] \<and> list_all well_formed ts"

lemma joined_ok: "terms_ok ts \<Longrightarrow> well_formed (or_node ts)" "terms_ok ts \<Longrightarrow> well_formed (and_node ts)"
  by (auto simp: or_node_def and_node_def Suc_le_eq split: list.split)

lemma next_term_follows:
  assumes "ended (p_toks p)"
  shows "next_term p \<noteq> Crash" "next_term p = Done (Some q) \<Longrightarrow> follows p q"
proof -
  obtain t where t: "peek p = Done t" "t_kind t \<noteq> Eof \<longrightarrow> reads p (advance p)" using peek_ended [OF assms] by blast
  show "next_term p \<noteq> Crash" by (simp add: next_term_def t)
  show "next_term p = Done (Some q) \<Longrightarrow> follows p q"
    using t(2) follows_refl [OF assms] by (auto simp: next_term_def t(1) is_word_def intro: reads_follows split: if_splits)
qed

lemma isClauseStart_total: "reads p (advance p) \<Longrightarrow> isClauseStart p \<noteq> Crash \<and> (\<forall>e. isClauseStart p \<noteq> Fail e)"
  using peek_ended [OF follows_ended(2), of p "advance p"] by (auto simp: isClauseStart_def)

lemma unit_safe:
  assumes e: "ended (p_toks p)"
    and "reads p (advance p) \<Longrightarrow> safe well_formed (parseUnit n (advance p)) (advance p)"
    and "reads p (advance p) \<Longrightarrow> safe terms_ok (parse_or n (advance p)) (advance p)"
  shows "safe well_formed (parseUnit (Suc n) p) p"
  unfolding parseUnit.simps
proof (rule jql_safe_peek [OF e])
  fix t assume t: "peek p = Done t" "t_kind t \<noteq> Eof \<Longrightarrow> reads p (advance p)"
  have a: "safe well_formed (obind (parseUnit n (advance p)) (\<lambda>(u, p1). Done (Not u, p1))) p" if r: "reads p (advance p)"
    using assms(2) [OF r] by (rule safe_omap_pair) (simp_all add: r)
  have b: "safe well_formed (obind (parse_or n (advance p)) (\<lambda>(ts, p1).
         obind (peek p1) (\<lambda>u.
           if t_kind u \<noteq> RParen then Fail (SyntaxError (t_pos u) ''expected )'' [])
           else Done (or_node ts, advance p1)))) p" if r: "reads p (advance p)"
  proof (rule jql_safe_bind [OF assms(3) [OF r]])
    fix ts p1 assume ts: "terms_ok ts" and "reads (advance p) p1"
    from this(2) have r1: "reads p p1" by (rule reads_trans(3) [OF r])
    show "safe well_formed (case (ts, p1) of (ts, p1) \<Rightarrow> obind (peek p1) (\<lambda>u.
           if t_kind u \<noteq> RParen then Fail (SyntaxError (t_pos u) ''expected )'' [])
           else Done (or_node ts, advance p1))) p"
      unfolding prod.case
      by (rule jql_safe_peek [OF follows_ended(2) [OF r1]], rule safe_closing [OF r1]) (use joined_ok(1) [OF ts] in simp_all)
  qed
  have c: "safe well_formed (obind (isClauseStart p) (\<lambda>clause.
           if clause then parseClause p
           else if t_kind t = Word \<and> reserved (ToLower (t_text t)) then
             Fail (SyntaxError (t_pos t) ''unexpected keyword %s'' [t_text t])
           else Done (Text (t_text t), advance p))) p" if r: "reads p (advance p)" and nt: "name_token t"
  proof (cases "isClauseStart p")
    case (Done c)
    show ?thesis
    proof (cases c)
      case True
      with jql_parseClause_safe [OF e t(1) nt] Done show ?thesis by simp
    next
      case False
      with r Done show ?thesis by (simp add: jql_safe_Done)
    qed
  qed (use isClauseStart_total [OF r] in simp_all)
  show "safe well_formed (if is_word ''not'' t then obind (parseUnit n (advance p)) (\<lambda>(u, p1). Done (Not u, p1))
       else if t_kind t = LParen then
         obind (parse_or n (advance p)) (\<lambda>(ts, p1).
         obind (peek p1) (\<lambda>u.
           if t_kind u \<noteq> RParen then Fail (SyntaxError (t_pos u) ''expected )'' [])
           else Done (or_node ts, advance p1)))
       else if name_token t then
         obind (isClauseStart p) (\<lambda>clause.
           if clause then parseClause p
           else if t_kind t = Word \<and> reserved (ToLower (t_text t)) then
             Fail (SyntaxError (t_pos t) ''unexpected keyword %s'' [t_text t])
           else Done (Text (t_text t), advance p))
       else Fail (SyntaxError (t_pos t) ''expected clause'' [])) p"
    by (intro safe_if a b c jql_safe_Fail) (use t(2) in \<open>auto simp: is_word_def name_token_def\<close>)
qed

lemma and_safe:
  assumes "safe well_formed (parseUnit n p) p"
    and "\<And>q. ended (p_toks q) \<Longrightarrow> length (p_toks q) < length (p_toks p) \<Longrightarrow> safe terms_ok (parse_and n q) q"
  shows "safe terms_ok (parse_and (Suc n) p) p"
  unfolding parse_and.simps
proof (rule jql_safe_bind [OF assms(1)], simp only: prod.case)
  fix t q assume t: "well_formed t" and q: "reads p q"
  have e: "ended (p_toks q)" using q by (rule follows_ended)
  have stop: "safe terms_ok (Done ([t], q)) p" using t q by (simp add: jql_safe_Done)
  have go: "safe terms_ok (obind (parse_and n q') (\<lambda>(us, r). Done (t # us, r))) p" if "next_term q = Done (Some q')" for q'
  proof -
    have r: "reads p q'" using next_term_follows(2) [OF e that] by (rule reads_trans(1) [OF q])
    have "safe terms_ok (parse_and n q') q'" using assms(2) follows_ended(2) [OF r] r by (simp add: reads_def)
    then show ?thesis by (rule safe_omap_pair) (use r t in simp_all)
  qed
  show "safe terms_ok (obind (next_term q) (\<lambda>more. case more of None \<Rightarrow> Done ([t], q)
      | Some p2 \<Rightarrow> obind (parse_and n p2) (\<lambda>(us, p3). Done (t # us, p3)))) p"
  proof (cases "next_term q")
    case (Done more)
    then show ?thesis using stop go by (cases more) simp_all
  qed (use next_term_follows(1) [OF e] in simp_all)
qed

lemma or_safe:
  assumes "safe terms_ok (parse_and n p) p"
    and "\<And>q. ended (p_toks q) \<Longrightarrow> length (p_toks q) < length (p_toks p) \<Longrightarrow> safe terms_ok (parse_or n q) q"
  shows "safe terms_ok (parse_or (Suc n) p) p"
  unfolding parse_or.simps
proof (rule jql_safe_bind [OF assms(1)], simp only: prod.case)
  fix ts q assume ts: "terms_ok ts" and q: "reads p q"
  show "safe terms_ok (obind (atWord ''or'' q) (\<lambda>again.
       if again then obind (parse_or n (advance q)) (\<lambda>(us, p2). Done (and_node ts # us, p2))
       else Done ([and_node ts], q))) p"
  proof (rule safe_atWord [OF follows_ended(2) [OF q]], simp_all only: if_True if_False)
    assume r: "reads q (advance q)"
    have "safe terms_ok (parse_or n (advance q)) (advance q)"
      using assms(2) follows_ended(2) [OF r] q r by (simp add: reads_def)
    then show "safe terms_ok (obind (parse_or n (advance q)) (\<lambda>(us, p2). Done (and_node ts # us, p2))) p"
      by (rule safe_omap_pair) (use reads_trans(3) [OF q r] joined_ok(2) [OF ts] in simp_all)
  qed (use q joined_ok(2) [OF ts] in \<open>simp add: jql_safe_Done\<close>)
qed

lemma expressions_safe:
  "ended (p_toks p) \<Longrightarrow>
   (3 * length (p_toks p) \<le> n \<longrightarrow> safe well_formed (parseUnit n p) p) \<and>
   (3 * length (p_toks p) + 1 \<le> n \<longrightarrow> safe terms_ok (parse_and n p) p) \<and>
   (3 * length (p_toks p) + 2 \<le> n \<longrightarrow> safe terms_ok (parse_or n p) p)"
proof (induction n arbitrary: p)
  case 0
  then show ?case by (auto simp: ended_def)
next
  case (Suc n)
  show ?case
  proof (intro conjI impI)
    assume "3 * length (p_toks p) \<le> Suc n"
    then show "safe well_formed (parseUnit (Suc n) p) p"
      by (intro unit_safe [OF Suc.prems]) (use Suc.IH [of "advance p"] in \<open>auto simp: reads_def follows_def\<close>)
  next
    assume "3 * length (p_toks p) + 1 \<le> Suc n"
    then show "safe terms_ok (parse_and (Suc n) p) p"
      by (intro and_safe) (use Suc.IH Suc.prems in auto)
  next
    assume "3 * length (p_toks p) + 2 \<le> Suc n"
    then show "safe terms_ok (parse_or (Suc n) p) p"
      by (intro or_safe) (use Suc.IH Suc.prems in auto)
  qed
qed

lemma jql_parseOr_safe: "ended (p_toks p) \<Longrightarrow> safe well_formed (parseOr p) p"
  using expressions_safe [of p "3 * length (p_toks p) + 3"] joined_ok(1)
  by (cases "parse_or (3 * length (p_toks p) + 3) p") (auto simp: parseOr_def safe_def)

section \<open>Queries\<close>

lemma expectWord_safe: "ended (p_toks p) \<Longrightarrow> safe (\<lambda>w. w \<noteq> []) (expectWord what p) p"
  unfolding expectWord_def
proof (rule jql_safe_peek, assumption)
  fix t :: token assume e: "ended (p_toks p)" and t: "t_kind t \<noteq> Eof \<Longrightarrow> reads p (advance p)"
  have "ended (p_toks (if name_token t then advance p else p))"
    using t follows_ended(2) [of p "advance p"] e by (auto simp: name_token_def)
  then have "safe (\<lambda>w. w \<noteq> []) (obind (peek (if name_token t then advance p else p)) (\<lambda>u.
         Fail (SyntaxError (t_pos u) ''expected %s'' [what]))) p"
    by (rule jql_safe_peek) simp
  then show "safe (\<lambda>w. w \<noteq> []) (if name_token t \<and> t_text t \<noteq> [] then Done (t_text t, advance p)
       else obind (peek (if name_token t then advance p else p)) (\<lambda>u.
         Fail (SyntaxError (t_pos u) ''expected %s'' [what]))) p"
    by (intro safe_if jql_safe_Done) (use t in \<open>auto simp: name_token_def\<close>)
qed

lemma jql_parse_orders_safe:
  "ended (p_toks p) \<Longrightarrow> length (p_toks p) \<le> n \<Longrightarrow> safe (\<lambda>os. os \<noteq> [] \<and> length os + k \<le> 7) (parse_orders n k p) p"
proof (induction n arbitrary: p k)
  case (Suc n)
  show ?case
    unfolding parse_orders.simps
  proof (rule jql_safe_bind [OF expectWord_safe [OF Suc.prems(1)]], simp only: prod.case)
    fix field p1 assume r: "reads p p1"
    have e: "ended (p_toks p1)" using r by (rule follows_ended)
    let ?P = "\<lambda>os. os \<noteq> [] \<and> length os + k \<le> 7"
    have rest: "safe ?P (let p2 = (if down \<or> up then advance p1 else p1)
       in obind (peek p2) (\<lambda>t.
          if 7 < k + 1 then Fail (SyntaxError (t_pos t) ''ORDER BY accepts at most 7 fields'' [])
          else if t_kind t = Comma then
            obind (parse_orders n (k + 1) (advance p2)) (\<lambda>(os, p3).
              Done (\<lparr>o_field = canonicalField field, o_desc = down\<rparr> # os, p3))
          else Done ([\<lparr>o_field = canonicalField field, o_desc = down\<rparr>], p2))) p"
      if f: "follows p1 (if down \<or> up then advance p1 else p1)" for down up
      unfolding Let_def
    proof (rule jql_safe_peek [OF follows_ended(1) [OF f]])
      let ?p2 = "if down \<or> up then advance p1 else p1"
      fix t assume t: "t_kind t \<noteq> Eof \<Longrightarrow> reads ?p2 (advance ?p2)"
      have r2: "reads p ?p2" by (rule reads_trans(1) [OF r f])
      have more: "safe ?P (obind (parse_orders n (k + 1) (advance ?p2)) (\<lambda>(os, p3).
              Done (\<lparr>o_field = canonicalField field, o_desc = down\<rparr> # os, p3))) p" if "t_kind t = Comma"
      proof -
        have r3: "reads p (advance ?p2)" using t that reads_trans(3) [OF r2] by simp
        then have "safe (\<lambda>os. os \<noteq> [] \<and> length os + (k + 1) \<le> 7) (parse_orders n (k + 1) (advance ?p2)) (advance ?p2)"
          using Suc.IH [OF follows_ended(2) [OF r3], of "k + 1"] Suc.prems(2) by (simp add: reads_def)
        then show ?thesis by (rule safe_omap_pair) (use r3 in simp_all)
      qed
      then show "safe ?P (if 7 < k + 1 then Fail (SyntaxError (t_pos t) ''ORDER BY accepts at most 7 fields'' [])
          else if t_kind t = Comma then
            obind (parse_orders n (k + 1) (advance ?p2)) (\<lambda>(os, p3).
              Done (\<lparr>o_field = canonicalField field, o_desc = down\<rparr> # os, p3))
          else Done ([\<lparr>o_field = canonicalField field, o_desc = down\<rparr>], ?p2)) p"
        by (intro safe_if jql_safe_Fail jql_safe_Done more) (use r2 in simp_all)
    qed
    show "safe ?P (obind (atWord ''desc'' p1) (\<lambda>down.
     obind (atWord ''asc'' p1) (\<lambda>up.
       let p2 = (if down \<or> up then advance p1 else p1)
       in obind (peek p2) (\<lambda>t.
          if 7 < k + 1 then Fail (SyntaxError (t_pos t) ''ORDER BY accepts at most 7 fields'' [])
          else if t_kind t = Comma then
            obind (parse_orders n (k + 1) (advance p2)) (\<lambda>(os, p3).
              Done (\<lparr>o_field = canonicalField field, o_desc = down\<rparr> # os, p3))
          else Done ([\<lparr>o_field = canonicalField field, o_desc = down\<rparr>], p2))))) p"
      by (rule safe_atWord [OF e]; rule safe_atWord [OF e]; rule rest)
        (use follows_refl [OF e] reads_follows in \<open>simp_all\<close>)
  qed
qed (auto simp: ended_def)

lemma parser_on_toks [simp]: "p_toks (parser_on ts b) = ts"
  by (simp add: parser_on_def)

lemma parse_order_by_total:
  assumes "ended ts"
  shows "parse_order_by ts \<noteq> Crash" "parse_order_by ts = Done os \<Longrightarrow> length os \<le> 7"
proof -
  have s: "safe (\<lambda>os. os \<noteq> [] \<and> length os + 0 \<le> 7) (parse_orders (length ts) 0 (parser_on ts False)) (parser_on ts False)"
    using assms by (intro jql_parse_orders_safe) simp_all
  show "parse_order_by ts \<noteq> Crash"
  proof (cases "parse_orders (length ts) 0 (parser_on ts False)")
    case (Done x)
    then have "ended (p_toks (snd x))" using s follows_ended(2) by (cases x) (auto simp: safe_def)
    then obtain t where "peek (snd x) = Done t" using peek_ended by blast
    with Done show ?thesis by (cases x) (simp add: parse_order_by_def)
  qed (use s in \<open>simp_all add: safe_def parse_order_by_def\<close>)
  show "parse_order_by ts = Done os \<Longrightarrow> length os \<le> 7"
    using s by (auto simp: parse_order_by_def safe_def split: if_splits)
qed

lemma ended_Cons: "ended ts \<Longrightarrow> ended (t # ts)"
  by (simp add: ended_def)

lemma jql_split_order_ended:
  "ended ts \<Longrightarrow> split_order_from d ts = (m, ord) \<Longrightarrow>
   ended m \<and> (\<forall>us. ord = Some us \<longrightarrow> ended us) \<and> (\<forall>n i. chained n i ts \<longrightarrow> chained n i m)"
proof (induction d ts arbitrary: m ord rule: split_order_from.induct)
  case (2 d t ts)
  show ?case
  proof (cases ts)
    case (Cons u us)
    show ?thesis
    proof (cases "d = 0 \<and> is_word ''order'' t \<and> is_word ''by'' u")
      case True
      have "ended (u # us)" using jql_ended_tl [of t "u # us"] 2(2) True by (simp add: Cons is_word_def)
      then have "ended us" using jql_ended_tl [of u us] True by (simp add: is_word_def)
      with 2(3) True show ?thesis by (auto simp: Cons ended_def tok_def dest!: chained_bound)
    next
      case False
      let ?d = "if t_kind t = LParen then d + 1 else if t_kind t = RParen then d - 1 else d"
      obtain m' where m': "split_order_from ?d ts = (m', ord)" "m = t # m'"
        using 2(3) False by (auto simp: Cons split: prod.splits)
      have "ended ts" using 2(2) by (simp add: ended_def Cons)
      from 2(1) [OF Cons False this m'(1)] m'(2)
      show ?thesis by (auto simp: Cons intro: ended_Cons)
    qed
  qed (use 2 in auto)
qed (simp add: ended_def)

definition lexes :: "nat \<Rightarrow> nat \<Rightarrow> (jql_error, token list) outcome \<Rightarrow> bool" where
  "lexes n i m \<longleftrightarrow> m \<noteq> Crash \<and> (\<forall>ts. m = Done ts \<longrightarrow> ended ts \<and> chained n i ts)"

lemma lexes_Cons: "lexes n j m \<Longrightarrow> i < j \<Longrightarrow> lexes n i (omap (Cons (tok k s i j)) m)"
  by (cases m) (auto simp: lexes_def tok_def ended_Cons)

lemma lexes_blank: "lexes n (i + 1) m \<Longrightarrow> lexes n i m"
  by (auto simp: lexes_def intro: chained_mono)

lemma lexes_if: "(b \<Longrightarrow> lexes n i m) \<Longrightarrow> (\<not> b \<Longrightarrow> lexes n i m') \<Longrightarrow> lexes n i (if b then m else m')"
  by simp

lemma quoted_text_length: "quoted_text q s = Some (t, n, r) \<Longrightarrow> n + length r = length s"
  by (induction q s arbitrary: t n r rule: quoted_text.induct) (fastforce split: if_splits)+

lemma lexed: "i + length s = n \<Longrightarrow> lexes n i (lex_from i s)"
proof (induction "length s" arbitrary: i s rule: less_induct)
  case less
  show ?case
  proof (cases s)
    case Nil
    then show ?thesis using less.prems by (simp add: lexes_def ended_def tok_def)
  next
    case (Cons c r)
    have n: "n = i + 1 + length r" using less.prems Cons by simp
    have split: "length (takeWhile P r) + length (dropWhile P r) = length r" for P
      by (metis length_append takeWhile_dropWhile_id)
    have IH: "lexes n j (lex_from j s')" if "length s' \<le> length r" "j + length s' = n" for j s' using less that Cons by simp
    have quoted: "lexes n i (case quoted_text c r of
             None \<Rightarrow> Fail (SyntaxError i ''unterminated string'' [])
           | Some (s, n, r') \<Rightarrow> omap (Cons (tok Quoted s i (i + 1 + n))) (lex_from (i + 1 + n) r'))"
    proof (cases "quoted_text c r")
      case (Some x)
      obtain u k r' where x: "x = (u, k, r')" by (cases x)
      have "k + length r' = length r" using quoted_text_length Some x by blast
      then show ?thesis unfolding Some x option.case prod.case by (intro lexes_Cons IH) (simp_all add: n)
    qed (simp add: lexes_def)
    have operator: "lexes n i (case r of
             d # r' \<Rightarrow>
               if [c, d] \<in> {''!='', ''!~'', ''~='', ''>='', ''<=''}
               then omap (Cons (tok Word [c, d] i (i + 2))) (lex_from (i + 2) r')
               else omap (Cons (tok Word [c] i (i + 1))) (lex_from (i + 1) r)
           | [] \<Rightarrow> omap (Cons (tok Word [c] i (i + 1))) (lex_from (i + 1) r))"
      unfolding list.case_eq_if by (intro lexes_if lexes_Cons IH) (simp_all add: n)
    have word: "lexes n i (let w = c # takeWhile (\<lambda>d. \<not> delimiter d) r
           in omap (Cons (tok Word w i (i + length w))) (lex_from (i + length w) (dropWhile (\<lambda>d. \<not> delimiter d) r)))"
      unfolding Let_def by (rule lexes_Cons, rule IH) (use split [of "\<lambda>d. \<not> delimiter d"] in \<open>simp_all add: n length_dropWhile_le\<close>)
    show ?thesis
      unfolding Cons lex_from.simps
      by (intro lexes_if quoted operator word lexes_Cons IH lexes_blank [OF IH]) (simp_all add: n)
  qed
qed

lemma Parse_total: "Parse src \<noteq> Crash \<and> (\<forall>q. Parse src = Done q \<longrightarrow> well_formed (q_root q) \<and> length (q_orders q) \<le> 7)"
proof (cases "lex src")
  case (Done ts)
  have e: "ended ts" using lexed [OF add_0] Done by (simp add: lexes_def lex_def)
  obtain m ord where split: "splitOrderClause ts = (m, ord)" by (cases "splitOrderClause ts")
  have em: "ended m" and eo: "\<And>us. ord = Some us \<Longrightarrow> ended us"
    using jql_split_order_ended [OF e split [unfolded splitOrderClause_def]] by auto
  let ?p = "parser_on m False"
  let ?orders = "case ord of None \<Rightarrow> Done [] | Some ots \<Rightarrow> parse_order_by ots"
  have orders: "?orders \<noteq> Crash" "\<And>os. ?orders = Done os \<Longrightarrow> length os \<le> 7"
    using parse_order_by_total [OF eo] by (auto split: option.splits)
  obtain t where t: "peek ?p = Done t" using peek_ended [of ?p] em by auto
  have root: "weakly_safe well_formed (if t_kind t = Eof then Done (Text [], ?p) else parseOr ?p) ?p"
    using safe_weakly [OF jql_parseOr_safe [of ?p]] em follows_refl [of ?p] by (auto simp: weakly_safe_def)
  let ?ending = "\<lambda>root p1. obind ?orders (\<lambda>orders. obind (peek p1) (\<lambda>u.
               if t_kind u \<noteq> Eof then Fail (SyntaxError (t_pos u) ''unexpected trailing input: %s'' [t_text u])
               else Done \<lparr>q_root = root, q_orders = orders\<rparr>))"
  have ending: "?ending r p1 \<noteq> Crash \<and> (\<forall>q. ?ending r p1 = Done q \<longrightarrow> q_root q = r \<and> length (q_orders q) \<le> 7)"
    if "ended (p_toks p1)" for r p1
    using orders peek_ended [OF that] by (cases ?orders) auto
  define m0 where "m0 = (if t_kind t = Eof then Done (Text [], ?p) else parseOr ?p)"
  have eq: "Parse src = obind m0 (\<lambda>(root, p1). ?ending root p1)"
    by (simp add: Parse_def Done parse_tokens_def split Let_def t m0_def)
  show ?thesis
  proof (cases m0)
    case (Done x)
    obtain r p1 where x: "x = (r, p1)" by (cases x)
    have "well_formed r" "ended (p_toks p1)"
      using root follows_ended(1) unfolding m0_def [symmetric] Done x by (auto simp: weakly_safe_def)
    then show ?thesis
      using conjunct1 [OF ending, of p1 r] conjunct2 [OF ending, of p1 r] unfolding eq Done x obind.simps prod.case by (intro conjI allI impI) (assumption | fast)+
  next
    case (Fail e)
    then show ?thesis unfolding eq by simp
  next
    case Crash
    then show ?thesis using root unfolding m0_def [symmetric] by (simp add: weakly_safe_def)
  qed
qed (use lexed [OF add_0] in \<open>simp_all add: Parse_def lexes_def lex_def\<close>)

text \<open>Property C27: \<open>Parse\<close> answers every text with a query or a syntax error, never with a panic of the
  token slice, and its tree is well formed: conjunctions and disjunctions have at least two terms, a
  comparison has one value, a list is not empty, \<open>IS\<close> takes emptiness or a call, a history clause has each
  of its predicates once with the values it needs, and at most seven fields are ordered by.\<close>

theorem Parse_answers_every_query:
  "Parse src \<noteq> Crash \<and> (\<forall>q. Parse src = Done q \<longrightarrow> well_formed (q_root q) \<and> length (q_orders q) \<le> 7)"
  by (rule Parse_total)

theorem Parse_answers_every_query_witness:
  "case Parse ''a = b order by c'' of Done q \<Rightarrow> well_formed (q_root q) \<and> length (q_orders q) \<le> 7 | _ \<Rightarrow> False"
proof -
  have "\<exists>q. Parse ''a = b order by c'' = Done q"
  proof -
    have "case Parse ''a = b order by c'' of Done q \<Rightarrow> True | _ \<Rightarrow> False" by code_simp
    then show ?thesis by (auto split: outcome.splits)
  qed
  with Parse_answers_every_query [of "''a = b order by c''"] show ?thesis by auto
qed

end
