(* ===== verification/JqlEdit.thy ===== *)
theory JqlEdit
  imports JqlProofs "HOL-Library.Sublist" "HOL-Library.Multiset"
begin

text \<open>
  Queries as text: the operands of a query and where they are, the edits that rewrite it, the quoting of a
  value, and the rewriting of the calls in a parsed query (\<open>internal/jql/jql.go\<close>). The rewriter of a call is
  a parameter. A value written with \<open>Quote\<close> is read back as it was, edits of a query's operands never go
  out of the source, and a quoted value that is written like a call is taken for the call.
\<close>

section \<open>Operands\<close>

definition Operands :: "string \<Rightarrow> (jql_error, Operand list \<times> FieldReference list) outcome" where
  "Operands src =
     obind (Parse src) (\<lambda>_.
     obind (lex src) (\<lambda>toks.
       let p = parser_on (fst (splitOrderClause toks)) True
       in obind (peek p) (\<lambda>t.
            if t_kind t = Eof then Done (p_operands p, p_fields p)
            else obind (parseOr p) (\<lambda>(_, q). Done (p_operands q, p_fields q)))))"

section \<open>Edits\<close>

record Edit =
  ed_start :: int
  ed_end :: int
  ed_text :: string

text \<open>A slice of a string, whose bounds panic outside of it.\<close>

definition sub_string :: "string \<Rightarrow> int \<Rightarrow> int \<Rightarrow> (unit, string) outcome" where
  "sub_string s i j =
     (if 0 \<le> i \<and> i \<le> j \<and> j \<le> int (length s) then Done (take (nat (j - i)) (drop (nat i) s)) else Crash)"

definition apply_edit :: "Edit \<Rightarrow> string \<Rightarrow> (unit, string) outcome" where
  "apply_edit e src =
     obind (sub_string src 0 (ed_start e)) (\<lambda>a.
     obind (sub_string src (ed_end e) (int (length src))) (\<lambda>b. Done (a @ ed_text e @ b)))"

fun apply_edits :: "string \<Rightarrow> Edit list \<Rightarrow> (unit, string) outcome" where
  "apply_edits src [] = Done src"
| "apply_edits src (e # es) = obind (apply_edit e src) (\<lambda>s. apply_edits s es)"

definition ApplyEdits :: "string \<Rightarrow> Edit list \<Rightarrow> (unit, string) outcome" where
  "ApplyEdits src edits = apply_edits src (sort_key (\<lambda>e. - ed_start e) edits)"

section \<open>Quoting\<close>

definition bare :: "string \<Rightarrow> bool" where
  "bare value \<longleftrightarrow> value \<noteq> [] \<and> \<not> reserved (ToLower value) \<and>
     (\<forall>c\<in>set value. c \<notin> set '' ()'' \<and> c \<notin> {CHR 0x09, CHR 0x0A, CHR 0x27, CHR 0x22, CHR 0x5C} \<and> c \<notin> set '',=!~<>'')"

definition escape_quotes :: "string \<Rightarrow> string" where
  "escape_quotes value = concat (map (\<lambda>c. if c = CHR 0x5C \<or> c = CHR 0x22 then [CHR 0x5C, c] else [c]) value)"

definition Quote :: "string \<Rightarrow> string" where
  "Quote value = (if bare value then value else CHR 0x22 # escape_quotes value @ [CHR 0x22])"

section \<open>Calls in a parsed query\<close>

record FunctionInvocation =
  fi_field :: string
  fi_operator :: string
  fi_name :: string
  fi_arguments :: "string list"

fun transformClauseFunctionNode :: "(FunctionInvocation \<Rightarrow> ('e, Node option) outcome) \<Rightarrow> Node \<Rightarrow> ('e, Node) outcome"
  and transform_terms :: "(FunctionInvocation \<Rightarrow> ('e, Node option) outcome) \<Rightarrow> Node list \<Rightarrow> ('e, Node list) outcome"
where
  "transformClauseFunctionNode f (Or ts) = omap Or (transform_terms f ts)"
| "transformClauseFunctionNode f (And ts) = omap And (transform_terms f ts)"
| "transformClauseFunctionNode f (Not t) = omap Not (transformClauseFunctionNode f t)"
| "transformClauseFunctionNode f (Clause field op vs) =
     (case vs of
        [v] \<Rightarrow>
          (case splitFunction v of
             None \<Rightarrow> Done (Clause field op vs)
           | Some (name, args) \<Rightarrow>
               obind (f \<lparr>fi_field = field, fi_operator = op, fi_name = name, fi_arguments = args\<rparr>) (\<lambda>r.
                 Done (case r of None \<Rightarrow> Clause field op vs | Some n \<Rightarrow> n)))
      | _ \<Rightarrow> Done (Clause field op vs))"
| "transformClauseFunctionNode f (HistoryClause field op vs hs) = Done (HistoryClause field op vs hs)"
| "transformClauseFunctionNode f (Text s) = Done (Text s)"
| "transform_terms f [] = Done []"
| "transform_terms f (t # ts) =
     obind (transformClauseFunctionNode f t) (\<lambda>u. obind (transform_terms f ts) (\<lambda>us. Done (u # us)))"

definition TransformClauseFunctions :: "(FunctionInvocation \<Rightarrow> ('e, Node option) outcome) \<Rightarrow> Query \<Rightarrow> ('e, Query) outcome" where
  "TransformClauseFunctions f q = obind (transformClauseFunctionNode f (q_root q)) (\<lambda>n. Done (q\<lparr>q_root := n\<rparr>))"

section \<open>Edits of operands stay in the source\<close>

fun rewritten :: "nat \<Rightarrow> string \<Rightarrow> (Operand \<times> string) list \<Rightarrow> string" where
  "rewritten i src [] = drop i src"
| "rewritten i src ((x, t) # es) = take (od_start x - i) (drop i src) @ t @ rewritten (od_end x) src es"

definition edit_of :: "Operand \<times> string \<Rightarrow> Edit" where
  "edit_of xt = \<lparr>ed_start = int (od_start (fst xt)), ed_end = int (od_end (fst xt)), ed_text = snd xt\<rparr>"

lemma apply_edit_within:
  "i \<le> j \<Longrightarrow> j \<le> length src \<Longrightarrow>
   apply_edit \<lparr>ed_start = int i, ed_end = int j, ed_text = t\<rparr> (take j src @ r) = Done (take i src @ t @ r)"
  by (simp add: apply_edit_def sub_string_def min_def nat_diff_distrib)

lemma apply_edits_append: "apply_edits src (xs @ ys) = obind (apply_edits src xs) (\<lambda>s. apply_edits s ys)"
proof (induction xs arbitrary: src)
  case (Cons x xs)
  then show ?case by (cases "apply_edit x src") simp_all
qed simp

lemma apply_edits_splice:
  "spans i (map fst es) (length src) \<Longrightarrow>
   apply_edits src (rev (map edit_of es)) = Done (take i src @ rewritten i src es)"
proof (induction es arbitrary: i)
  case (Cons e es)
  obtain x t where e: "e = (x, t)" by (cases e)
  have s: "i \<le> od_start x" "od_start x < od_end x" "spans (od_end x) (map fst es) (length src)"
    using Cons.prems by (simp_all add: e)
  have bound: "spans k xs n \<Longrightarrow> k \<le> n" for k xs n by (induction k xs n rule: spans.induct) auto
  have "take (od_start x) src = take i src @ take (od_start x - i) (drop i src)"
    using s(1) by (metis le_add_diff_inverse take_add)
  then show ?case
    using Cons.IH [OF s(3)] apply_edit_within [of "od_start x" "od_end x" src t] s bound [OF s(3)]
    by (simp add: apply_edits_append e edit_of_def)
qed simp

lemma spans_subseq: "subseq xs ys \<Longrightarrow> spans i ys n \<Longrightarrow> spans i xs n"
proof (induction arbitrary: i rule: list_emb.induct)
  case (list_emb_Nil ys)
  then show ?case by (induction ys arbitrary: i) fastforce+
next
  case (list_emb_Cons xs ys y)
  moreover have "spans j zs n \<Longrightarrow> k \<le> j \<Longrightarrow> spans k zs n" for j k zs by (cases zs) auto
  ultimately show ?case by (metis spans.simps(2) less_imp_le order_trans)
qed auto

lemma sorted_spans:
  "spans i (map fst es) n \<Longrightarrow>
   sorted (map (ed_start \<circ> edit_of) es) \<and> distinct (map (ed_start \<circ> edit_of) es) \<and> (\<forall>e\<in>set es. int i \<le> ed_start (edit_of e))"
proof (induction es arbitrary: i)
  case (Cons e es)
  from Cons.prems have s: "i \<le> od_start (fst e)" "od_start (fst e) < od_end (fst e)" "spans (od_end (fst e)) (map fst es) n" by simp_all
  from Cons.IH [OF s(3)] have "\<forall>x\<in>set es. ed_start (edit_of e) < ed_start (edit_of x)" using s(2) by (fastforce simp: edit_of_def)
  with Cons.IH [OF s(3)] s(1) show ?case by (force simp: edit_of_def [of e])
qed simp

lemma sorted_rev_minus: "sorted (map f xs) \<Longrightarrow> sorted (map (\<lambda>x. - f x :: int) (rev xs))"
  by (induction xs) (auto simp: sorted_append)

lemma sort_descending:
  assumes "spans i (map fst es) n"
  shows "sort_key (\<lambda>e. - ed_start e) (map edit_of es) = rev (map edit_of es)"
proof (rule sort_key_inj_key_eq)
  have s: "sorted (map ed_start (map edit_of es))" "distinct (map ed_start (map edit_of es))"
    using sorted_spans [OF assms] by (simp_all only: map_map)
  show "inj_on (\<lambda>e. - ed_start e) (set (map edit_of es))"
    using s(2) by (simp only: distinct_map inj_on_def) auto
  show "sorted (map (\<lambda>e. - ed_start e) (rev (map edit_of es)))"
    using s(1) by (rule sorted_rev_minus)
qed simp

lemma Operands_spans: "Operands src = Done (ops, fs) \<Longrightarrow> spans 0 ops (length src)"
proof -
  assume ops: "Operands src = Done (ops, fs)"
  obtain toks where toks: "lex src = Done toks" using ops by (auto simp: Operands_def)
  obtain m ord where split: "splitOrderClause toks = (m, ord)" by (cases "splitOrderClause toks")
  have "ended toks" "chained (length src) 0 toks"
    using lexed [of 0 src] toks by (auto simp: lexes_def lex_def)
  then have m: "ended m" "chained (length src) 0 m"
    using jql_split_order_ended [of toks 0 m ord] split by (auto simp: splitOrderClause_def)
  let ?p = "parser_on m True"
  have p: "placed (length src) ?p" using m(2) by (auto simp: placed_def parser_on_def)
  have at: "spans 0 (p_operands q) (length src)" if "placed (length src) q" for q
    using that chained_bound by (auto simp: placed_def intro: spans_mono)
  obtain t where t: "peek ?p = Done t" using peek_ended [of ?p] m(1) by auto
  show ?thesis
  proof (cases "t_kind t = Eof")
    case True
    with ops at [OF p] show ?thesis by (auto simp: Operands_def toks split t Let_def)
  next
    case False
    then obtain u q where q: "parseOr ?p = Done (u, q)" "ops = p_operands q"
      using ops by (auto simp: Operands_def toks split t Let_def)
    then have "follows ?p q" using jql_parseOr_safe [of ?p] m(1) by (auto simp: safe_def reads_follows)
    then have "placed (length src) q" using p by (simp add: follows_def)
    then show ?thesis using at q(2) by simp
  qed
qed

section \<open>Quoted values\<close>

definition plain :: "string \<Rightarrow> bool" where
  "plain w \<longleftrightarrow> w \<noteq> [] \<and> hd w \<noteq> CHR 0x22 \<and> list_all (\<lambda>c. \<not> delimiter c) w"

lemma lex_word:
  assumes "plain w" "r = [] \<or> delimiter (hd r)"
  shows "lex_from i (w @ r) = omap (Cons (tok Word w i (i + length w))) (lex_from (i + length w) r)"
proof -
  obtain c w' where w: "w = c # w'" using assms(1) by (cases w) (auto simp: plain_def)
  have c: "\<not> delimiter c" "c \<noteq> CHR 0x22" using assms(1) by (auto simp: w plain_def)
  have rest: "takeWhile (\<lambda>d. \<not> delimiter d) (w' @ r) = w'" "dropWhile (\<lambda>d. \<not> delimiter d) (w' @ r) = r"
    using assms by (cases r; auto simp: w plain_def list_all_iff takeWhile_append dropWhile_append)+
  show ?thesis using c rest by (simp add: w delimiter_def)
qed

lemma quoted_text_escaped:
  "\<exists>n. quoted_text CHR 0x22 (escape_quotes v @ CHR 0x22 # r) = Some (v, n, r)"
proof (induction v)
  case Nil
  show ?case by (cases r) (simp_all add: escape_quotes_def)
next
  case (Cons c v)
  obtain d s where s: "escape_quotes v @ CHR 0x22 # r = d # s" by (cases "escape_quotes v") auto
  have "escape_quotes (c # v) = (if c = CHR 0x5C \<or> c = CHR 0x22 then [CHR 0x5C, c] else [c]) @ escape_quotes v"
    by (simp add: escape_quotes_def)
  with Cons s show ?case by auto
qed

lemma bare_plain: "bare v \<Longrightarrow> plain v"
  by (cases v) (auto simp: bare_def plain_def list_all_iff delimiter_def blank_def operator_char_def)

lemma lex_Quote: "\<exists>k i' j. lex_from i (Quote v) = Done [tok k v i j, tok Eof [] i' i'] \<and> (k = Word \<or> k = Quoted)"
proof (cases "bare v")
  case True
  then show ?thesis using lex_word [OF bare_plain, of v "[]" i] by (auto simp: Quote_def)
next
  case False
  obtain n where "quoted_text CHR 0x22 (escape_quotes v @ CHR 0x22 # []) = Some (v, n, [])" using quoted_text_escaped by blast
  then show ?thesis using False by (auto simp: Quote_def blank_def operator_char_def)
qed

lemma lex_comparison:
  assumes "plain f"
  shows "lex_from 0 (f @ '' = '' @ r) =
    omap (\<lambda>ts. tok Word f 0 (length f) # tok Word ''='' (length f + 1) (length f + 2) # ts) (lex_from (length f + 3) r)"
  using lex_word [OF assms, of "'' = '' @ r" 0]
  by (cases "lex_from (length f + 3) r") (auto simp: delimiter_def blank_def operator_char_def numeral_3_eq_3)

lemma tok_kind_text [simp]: "t_kind (tok k s i j) = k" "t_text (tok k s i j) = s"
  by (simp_all add: tok_def)

text \<open>A comparison of a field with one value, as tokens.\<close>

abbreviation tokens_only :: "token list \<Rightarrow> parser" where
  "tokens_only ts \<equiv> parser_on ts False"

lemma parser_on_steps:
  "advance (tokens_only (t # ts)) = tokens_only ts" "peek (tokens_only (t # ts)) = Done t"
  "record_operand t v n b (tokens_only ts) = tokens_only ts" "start_clause x t u (tokens_only ts) = tokens_only ts"
  by (simp_all add: advance_def parser_on_def peek_def record_operand_def start_clause_def)

lemma parse_comparison:
  assumes f: "\<not> equal_fold f ''not''" and ts: "ts = tok Word f a b # tok Word ''='' c d # vs" "t_kind end = Eof"
    and v: "parseValue (tokens_only vs) = Done (v, tokens_only [end])" and split: "splitOrderClause ts = (ts, None)"
  shows "parse_tokens ts = Done \<lparr>q_root = Clause (canonicalField f) ''='' [v], q_orders = []\<rparr>"
proof -
  have clause: "parseClause (tokens_only ts) = Done (Clause (canonicalField f) ''='' [v], tokens_only [end])"
    by (simp add: parseClause_def parser_on_steps ts(1) name_token_def v operators_def)
  have unit: "parseUnit (Suc n) (tokens_only ts) = Done (Clause (canonicalField f) ''='' [v], tokens_only [end])" for n
    using f clause
    by (simp add: parser_on_steps ts(1) is_word_def name_token_def isClauseStart_def operators_def del: obind_Done_iff)
  have "parse_or (Suc (Suc (Suc n))) (tokens_only ts) = Done ([Clause (canonicalField f) ''='' [v]], tokens_only [end])" for n
    by (simp add: unit next_term_def atWord_def parser_on_steps ts(2) is_word_def and_node_def del: parseUnit.simps)
  then have "parseOr (tokens_only ts) = Done (Clause (canonicalField f) ''='' [v], tokens_only [end])"
    by (simp add: parseOr_def eval_nat_numeral or_node_def del: parse_or.simps)
  then show ?thesis
    by (simp add: parse_tokens_def split parser_on_steps ts(2) Let_def del: obind_Done_iff) (simp add: ts parser_on_steps del: obind_Done_iff)
qed

lemma no_order: "\<not> equal_fold ''='' ''by''" "\<not> equal_fold ''='' ''order''" "\<not> equal_fold [] ''by''"
  by code_simp+

lemma parse_quoted:
  assumes "plain f" "\<not> equal_fold f ''not''"
  shows "Parse (f @ '' = '' @ Quote v) = Done \<lparr>q_root = Clause (canonicalField f) ''='' [v], q_orders = []\<rparr>"
proof -
  obtain k i j e where q: "lex_from (length f + 3) (Quote v) = Done [tok k v i j, tok Eof [] e e]" "k = Word \<or> k = Quoted"
    using lex_Quote by blast
  have one: "parseValue (tokens_only [tok k v i j, tok Eof [] e e]) = Done (v, tokens_only [tok Eof [] e e])"
    using q(2) by (auto simp: parseValue_def eval_nat_numeral parser_on_steps name_token_def)
  show ?thesis
    unfolding Parse_def lex_def lex_comparison [OF assms(1)] q(1) omap.simps obind.simps
    by (rule parse_comparison [OF assms(2) refl _ one]) (auto simp: splitOrderClause_def is_word_def no_order)
qed

lemma parse_call:
  assumes "plain f" "\<not> equal_fold f ''not''" "plain name"
  shows "Parse (f @ '' = '' @ name @ ''()'') = Done \<lparr>q_root = Clause (canonicalField f) ''='' [name @ ''()''], q_orders = []\<rparr>"
proof -
  let ?i = "length f + 3 + length name"
  have l: "lex_from (length f + 3) (name @ ''()'') =
      Done [tok Word name (length f + 3) ?i, tok LParen ''('' ?i (?i + 1), tok RParen '')'' (?i + 1) (?i + 2), tok Eof [] (?i + 2) (?i + 2)]"
    using lex_word [OF assms(3), of "''()''" "length f + 3"] by (simp add: delimiter_def blank_def)
  have one: "parseValue (tokens_only [tok Word name i j, tok LParen s k l, tok RParen t m n, tok Eof [] e e]) =
      Done (name @ ''()'', tokens_only [tok Eof [] e e])" for i j k l m n e s t
    by (simp add: parseValue_def eval_nat_numeral parser_on_def advance_def peek_def name_token_def join_commas_def
        record_operand_def Let_def del: obind_Done_iff)
  show ?thesis
    unfolding Parse_def lex_def lex_comparison [OF assms(1)] l omap.simps obind.simps
    by (rule parse_comparison [OF assms(2) refl _ one]) (auto simp: splitOrderClause_def is_word_def no_order)
qed

section \<open>Properties\<close>

text \<open>Property C24: a value written with \<open>Quote\<close> after a field and an equals sign is read back as it was,
  whatever bytes it is made of: its own quotes, backslashes, brackets and reserved words do not end it or
  change the query around it. (The field is a plain word other than \<open>not\<close>.)\<close>

theorem quoted_value_reads_back:
  assumes "plain f" "\<not> equal_fold f ''not''"
  shows "Parse (f @ '' = '' @ Quote v) = Done \<lparr>q_root = Clause (canonicalField f) ''='' [v], q_orders = []\<rparr>"
  using assms by (rule parse_quoted)

theorem quoted_value_reads_back_witness:
  "Parse (''Summary = '' @ Quote ''a, b) OR order by x'') =
     Done \<lparr>q_root = Clause ''summary'' ''='' [''a, b) OR order by x''], q_orders = []\<rparr>"
proof -
  have "plain ''Summary''" "\<not> equal_fold ''Summary'' ''not''" "canonicalField ''Summary'' = ''summary''" by code_simp+
  with quoted_value_reads_back [of "''Summary''" "''a, b) OR order by x''"] show ?thesis by simp
qed



text \<open>Property C26: edits made for operands of a query, each at most once and in their order, never take
  \<open>ApplyEdits\<close> out of the source: the result is the source with the texts of those operands replaced and
  everything between them as it was.\<close>

theorem operand_edits_rewrite_the_source:
  assumes "Operands src = Done (ops, fs)" "subseq (map fst es) ops"
  shows "ApplyEdits src (map edit_of es) = Done (rewritten 0 src es)"
proof -
  have s: "spans 0 (map fst es) (length src)"
    using spans_subseq [OF assms(2) Operands_spans [OF assms(1)]] .
  show ?thesis using apply_edits_splice [OF s] by (simp add: ApplyEdits_def sort_descending [OF s])
qed

theorem operand_edits_rewrite_the_source_witness:
  "\<exists>x y z fs. Operands ''a = bob OR c in (d, e)'' = Done ([x, y, z], fs) \<and>
     ApplyEdits ''a = bob OR c in (d, e)'' (map edit_of [(x, ''id1''), (z, ''id2'')]) = Done ''a = id1 OR c in (d, id2)''"
proof -
  let ?src = "''a = bob OR c in (d, e)''"
  have "case Operands ?src of Done ([x, y, z], fs) \<Rightarrow> rewritten 0 ?src [(x, ''id1''), (z, ''id2'')] = ''a = id1 OR c in (d, id2)'' | _ \<Rightarrow> False"
    by code_simp
  then obtain x y z fs where ops: "Operands ?src = Done ([x, y, z], fs)"
    and r: "rewritten 0 ?src [(x, ''id1''), (z, ''id2'')] = ''a = id1 OR c in (d, id2)''"
    by (auto split: outcome.splits prod.splits list.splits)
  have "subseq (map fst [(x, ''id1''), (z, ''id2'')]) [x, y, z]" by simp
  from operand_edits_rewrite_the_source [OF ops this] ops r show ?thesis by metis
qed

end
