(* ===== verification/GoFloat.thy ===== *)
theory GoFloat
  imports GoPrelude "HOL-Library.Log_Nat"
begin

text \<open>
  Go's \<open>float64\<close>: a finite value other than zero is the rational number it stands for, and every operation
  is the exact one rounded to nearest, ties to even. The conversion to \<open>int\<close> of a value that has no place
  there is left to the machine, so the definitions that need it take it as an argument.
\<close>

section \<open>Values\<close>

text \<open>The truth value says that an infinity or a zero is negative.\<close>

datatype float64 = NaN | Inf bool | Zero bool | Fin rat

definition pow2 :: "int \<Rightarrow> rat" where
  "pow2 e = (if 0 \<le> e then 2 ^ nat e else 1 / 2 ^ nat (- e))"

definition exponent_of :: "rat \<Rightarrow> int" where
  "exponent_of a =
     (case quotient_of a of (n, d) \<Rightarrow>
        let e = bitlen n - bitlen d in if pow2 e \<le> a then e else e - 1)"

definition half_even :: "rat \<Rightarrow> int" where
  "half_even x =
     (let q = \<lfloor>x\<rfloor>; r = x - of_int q
      in if r < 1 / 2 \<or> r = 1 / 2 \<and> even q then q else q + 1)"

text \<open>A number rounded to \<open>float64\<close>; \<open>neg\<close> is the sign of a zero.\<close>

definition round64 :: "bool \<Rightarrow> rat \<Rightarrow> float64" where
  "round64 neg x =
     (if x = 0 then Zero neg
      else
        let u = max (exponent_of \<bar>x\<bar> - 52) (- 1074); m = half_even (\<bar>x\<bar> / pow2 u); v = of_int m * pow2 u
        in if m = 0 then Zero (x < 0) else if pow2 1024 \<le> v then Inf (x < 0) else Fin (if x < 0 then - v else v))"

definition f_of_int :: "int \<Rightarrow> float64" where
  "f_of_int n = round64 False (of_int n)"

section \<open>Arithmetic\<close>

fun f_neg :: "float64 \<Rightarrow> float64" where
  "f_neg NaN = NaN"
| "f_neg (Inf s) = Inf (\<not> s)"
| "f_neg (Zero s) = Zero (\<not> s)"
| "f_neg (Fin x) = Fin (- x)"

fun f_add :: "float64 \<Rightarrow> float64 \<Rightarrow> float64" where
  "f_add NaN _ = NaN"
| "f_add _ NaN = NaN"
| "f_add (Inf s) (Inf t) = (if s = t then Inf s else NaN)"
| "f_add (Inf s) _ = Inf s"
| "f_add _ (Inf t) = Inf t"
| "f_add (Zero s) (Zero t) = Zero (s \<and> t)"
| "f_add (Zero s) (Fin y) = Fin y"
| "f_add (Fin x) (Zero t) = Fin x"
| "f_add (Fin x) (Fin y) = round64 False (x + y)"

definition f_sub :: "float64 \<Rightarrow> float64 \<Rightarrow> float64" where
  "f_sub a b = f_add a (f_neg b)"

fun f_negative :: "float64 \<Rightarrow> bool" where
  "f_negative NaN = False"
| "f_negative (Inf s) = s"
| "f_negative (Zero s) = s"
| "f_negative (Fin x) = (x < 0)"

fun f_mul :: "float64 \<Rightarrow> float64 \<Rightarrow> float64" where
  "f_mul NaN _ = NaN"
| "f_mul _ NaN = NaN"
| "f_mul (Inf s) (Zero t) = NaN"
| "f_mul (Zero s) (Inf t) = NaN"
| "f_mul (Fin x) (Fin y) = round64 False (x * y)"
| "f_mul (Inf s) b = Inf (s \<noteq> f_negative b)"
| "f_mul a (Inf t) = Inf (f_negative a \<noteq> t)"
| "f_mul a b = Zero (f_negative a \<noteq> f_negative b)"

fun f_div :: "float64 \<Rightarrow> float64 \<Rightarrow> float64" where
  "f_div NaN _ = NaN"
| "f_div _ NaN = NaN"
| "f_div (Inf s) (Inf t) = NaN"
| "f_div (Zero s) (Zero t) = NaN"
| "f_div (Fin x) (Fin y) = round64 False (x / y)"
| "f_div (Inf s) b = Inf (s \<noteq> f_negative b)"
| "f_div a (Zero t) = Inf (f_negative a \<noteq> t)"
| "f_div a b = Zero (f_negative a \<noteq> f_negative b)"

text \<open>\<open>math.Mod\<close>, \<open>math.Trunc\<close>, \<open>math.Floor\<close>, \<open>math.Ceil\<close>, \<open>math.Abs\<close>.\<close>

fun f_mod :: "float64 \<Rightarrow> float64 \<Rightarrow> float64" where
  "f_mod NaN _ = NaN"
| "f_mod _ NaN = NaN"
| "f_mod (Inf _) _ = NaN"
| "f_mod _ (Zero _) = NaN"
| "f_mod a (Inf _) = a"
| "f_mod (Zero s) (Fin _) = Zero s"
| "f_mod (Fin x) (Fin y) =
     (let r = \<bar>x\<bar> - \<bar>y\<bar> * of_int \<lfloor>\<bar>x\<bar> / \<bar>y\<bar>\<rfloor>
      in if r = 0 then Zero (x < 0) else Fin (if x < 0 then - r else r))"

definition whole :: "bool \<Rightarrow> int \<Rightarrow> float64" where
  "whole neg n = (if n = 0 then Zero neg else Fin (of_int n))"

fun f_trunc :: "float64 \<Rightarrow> float64" where
  "f_trunc (Fin x) = whole (x < 0) (if x < 0 then - \<lfloor>- x\<rfloor> else \<lfloor>x\<rfloor>)"
| "f_trunc a = a"

fun f_floor :: "float64 \<Rightarrow> float64" where
  "f_floor (Fin x) = whole False \<lfloor>x\<rfloor>"
| "f_floor a = a"

definition f_ceil :: "float64 \<Rightarrow> float64" where
  "f_ceil a = f_neg (f_floor (f_neg a))"

definition f_abs :: "float64 \<Rightarrow> float64" where
  "f_abs a = (if f_negative a then f_neg a else a)"

text \<open>\<open>math.Sqrt\<close>: the root to 64 bits and more, with a last bit that says whether anything is left.\<close>

fun isqrt_from :: "nat \<Rightarrow> int \<Rightarrow> int \<Rightarrow> int" where
  "isqrt_from 0 r n = r"
| "isqrt_from (Suc i) r n = isqrt_from i (if (r + 2 ^ i) ^ 2 \<le> n then r + 2 ^ i else r) n"

definition isqrt :: "int \<Rightarrow> int" where
  "isqrt n = isqrt_from (nat (bitlen n)) 0 n"

fun f_sqrt :: "float64 \<Rightarrow> float64" where
  "f_sqrt NaN = NaN"
| "f_sqrt (Inf s) = (if s then NaN else Inf False)"
| "f_sqrt (Zero s) = Zero s"
| "f_sqrt (Fin x) =
     (if x < 0 then NaN
      else
        let k = 66 - exponent_of x div 2; y = x * pow2 (2 * k); s = isqrt \<lfloor>y\<rfloor>
        in round64 False ((of_int (2 * s) + (if of_int (s * s) = y then 0 else 1)) * pow2 (- k - 1)))"

section \<open>Comparisons\<close>

fun f_less :: "float64 \<Rightarrow> float64 \<Rightarrow> bool" where
  "f_less NaN _ = False"
| "f_less _ NaN = False"
| "f_less (Inf s) (Inf t) = (s \<and> \<not> t)"
| "f_less (Inf s) _ = s"
| "f_less _ (Inf t) = (\<not> t)"
| "f_less (Zero _) (Zero _) = False"
| "f_less (Zero _) (Fin y) = (0 < y)"
| "f_less (Fin x) (Zero _) = (x < 0)"
| "f_less (Fin x) (Fin y) = (x < y)"

fun f_equal :: "float64 \<Rightarrow> float64 \<Rightarrow> bool" where
  "f_equal (Zero _) (Zero _) = True"
| "f_equal a b = (a = b \<and> a \<noteq> NaN)"

fun is_nan :: "float64 \<Rightarrow> bool" where
  "is_nan NaN = True"
| "is_nan _ = False"

text \<open>\<open>int(x)\<close>: truncated towards zero, and whatever the machine answers when the result does not fit.\<close>

definition f_int :: "(float64 \<Rightarrow> int) \<Rightarrow> float64 \<Rightarrow> int" where
  "f_int wild a =
     (case a of
        Zero _ \<Rightarrow> 0
      | Fin x \<Rightarrow>
          let n = (if x < 0 then - \<lfloor>- x\<rfloor> else \<lfloor>x\<rfloor>)
          in if - (2 ^ 63) \<le> n \<and> n < 2 ^ 63 then n else wild a
      | _ \<Rightarrow> wild a)"

section \<open>Decimal text\<close>

definition pow10 :: "int \<Rightarrow> rat" where
  "pow10 e = (if 0 \<le> e then 10 ^ nat e else 1 / 10 ^ nat (- e))"

text \<open>The shortest digits that read back as a positive number, with the power of ten of the first one: of
  the decimals of a length below and above the number, the closer one that rounds to it.\<close>

definition magnitude :: "rat \<Rightarrow> int" where
  "magnitude a =
     (case quotient_of a of (n, d) \<Rightarrow>
        let e = int (length (itoa n)) - int (length (itoa d)) in if pow10 e \<le> a then e else e - 1)"

definition decimal_of :: "rat \<Rightarrow> int \<Rightarrow> (int \<times> int) option" where
  "decimal_of a e =
     (let lo = \<lfloor>a / pow10 e\<rfloor>; hi = lo + 1;
          fits = (\<lambda>n. n \<noteq> 0 \<and> round64 False (of_int n * pow10 e) = Fin a);
          near = (a - of_int lo * pow10 e < of_int hi * pow10 e - a \<or>
                  a - of_int lo * pow10 e = of_int hi * pow10 e - a \<and> even lo);
          (n1, n2) = (if near then (lo, hi) else (hi, lo))
      in if fits n1 then Some (n1, e) else if fits n2 then Some (n2, e) else None)"

fun shortest_from :: "nat \<Rightarrow> int \<Rightarrow> rat \<Rightarrow> int \<times> int" where
  "shortest_from 0 e a = (\<lfloor>a / pow10 e\<rfloor>, e)"
| "shortest_from (Suc n) e a = (case decimal_of a e of Some x \<Rightarrow> x | None \<Rightarrow> shortest_from n (e - 1) a)"

definition shortest :: "rat \<Rightarrow> int \<times> int" where
  "shortest a = shortest_from 17 (magnitude a) a"

definition zeros :: "int \<Rightarrow> string" where
  "zeros n = replicate (nat n) CHR ''0''"

text \<open>\<open>FormatFloat(x, 'f', -1, 64)\<close> and \<open>FormatFloat(x, 'g', -1, 64)\<close> of a positive number.\<close>

definition plain_digits :: "rat \<Rightarrow> string" where
  "plain_digits a =
     (case shortest a of (n, e) \<Rightarrow>
        let ds = itoa n; k = int (length ds) + e
        in if 0 \<le> e then ds @ zeros e
           else if 0 < k then take (nat k) ds @ ''.'' @ drop (nat k) ds
           else ''0.'' @ zeros (- k) @ ds)"

definition scientific_digits :: "rat \<Rightarrow> string" where
  "scientific_digits a =
     (case shortest a of (n, e) \<Rightarrow>
        let ds = itoa n; x = int (length ds) + e - 1; t = itoa \<bar>x\<bar>
        in hd ds # (if tl ds = [] then [] else CHR ''.'' # tl ds) @ CHR ''e'' #
           (if x < 0 then CHR ''-'' else CHR ''+'') # (if length t < 2 then CHR ''0'' # t else t))"

definition general_digits :: "rat \<Rightarrow> string" where
  "general_digits a =
     (case shortest a of (n, e) \<Rightarrow>
        let x = int (length (itoa n)) + e - 1
        in if x < - 4 \<or> 6 \<le> x then scientific_digits a else plain_digits a)"

fun format_with :: "(rat \<Rightarrow> string) \<Rightarrow> float64 \<Rightarrow> string" where
  "format_with d NaN = ''NaN''"
| "format_with d (Inf s) = (if s then ''-Inf'' else ''+Inf'')"
| "format_with d (Zero s) = (if s then ''-0'' else ''0'')"
| "format_with d (Fin x) = (if x < 0 then CHR ''-'' # d (- x) else d x)"

text \<open>\<open>formatNumber\<close> of \<open>internal/jexpr/eval.go\<close>.\<close>

definition format_number :: "float64 \<Rightarrow> string" where
  "format_number a =
     (if f_equal a (f_trunc a) \<and> f_less (f_abs a) (Fin (10 ^ 21))
      then format_with plain_digits a else format_with general_digits a)"

section \<open>Reading numbers\<close>

text \<open>\<open>ParseFloat(s, 64)\<close>. Underscores may stand between digits and after a prefix.\<close>

definition hex_value :: "char \<Rightarrow> nat option" where
  "hex_value c =
     (let n = of_char c :: nat
      in if is_digit c then Some (n - 48) else if 97 \<le> n \<and> n \<le> 102 then Some (n - 87)
         else if 65 \<le> n \<and> n \<le> 70 then Some (n - 55) else None)"

definition digit_in :: "bool \<Rightarrow> char \<Rightarrow> nat option" where
  "digit_in hex c = (if hex \<or> is_digit c then hex_value c else None)"

text \<open>The digits of a number with at most one point: their value, how many stand after the point, whether
  there are any, and the rest.\<close>

fun mantissa :: "bool \<Rightarrow> string \<Rightarrow> nat \<Rightarrow> int \<Rightarrow> bool \<Rightarrow> bool \<Rightarrow> nat \<times> int \<times> bool \<times> string" where
  "mantissa hex [] m k dot any = (m, k, any, [])"
| "mantissa hex (c # r) m k dot any =
     (if c = CHR ''_'' then mantissa hex r m k dot any
      else if c = CHR ''.'' \<and> \<not> dot then mantissa hex r m k True any
      else case digit_in hex c of
             Some d \<Rightarrow> mantissa hex r ((if hex then 16 else 10) * m + d) (if dot then k + 1 else k) dot True
           | None \<Rightarrow> (m, k, any, c # r))"

definition exponent_digits :: "string \<Rightarrow> int option" where
  "exponent_digits s =
     (let (neg, ds) = (case s of
          c # r \<Rightarrow> if c = CHR ''-'' then (True, r) else if c = CHR ''+'' then (False, r) else (False, s)
        | [] \<Rightarrow> (False, []))
      in if ds = [] \<or> \<not> is_digit (hd ds) then None
         else map_option (\<lambda>n. if neg then - int n else int n) (digits_value 0 (filter (\<lambda>c. c \<noteq> CHR ''_'') ds)))"

datatype seen = SeenStart | SeenDigit | SeenUnderscore | SeenOther

fun underscores_from :: "bool \<Rightarrow> seen \<Rightarrow> string \<Rightarrow> bool" where
  "underscores_from hex s [] = (s \<noteq> SeenUnderscore)"
| "underscores_from hex s (c # r) =
     (if digit_in hex c \<noteq> None then underscores_from hex SeenDigit r
      else if c = CHR ''_'' then s = SeenDigit \<and> underscores_from hex SeenUnderscore r
      else s \<noteq> SeenUnderscore \<and> underscores_from hex SeenOther r)"

text \<open>A text without its sign.\<close>

definition unsigned_number :: "string \<Rightarrow> rat option" where
  "unsigned_number s =
     (let hex = (2 < length s \<and> hd s = CHR ''0'' \<and> (s ! 1 = CHR ''x'' \<or> s ! 1 = CHR ''X''));
          body = (if hex then drop 2 s else s)
      in case mantissa hex body 0 0 False False of
           (m, k, any, rest) \<Rightarrow>
             if \<not> any \<or> CHR ''_'' \<in> set s \<and> \<not> underscores_from hex (if hex then SeenDigit else SeenStart) body then None
             else case rest of
                 [] \<Rightarrow> if hex then None else Some (of_nat m * pow10 (- k))
               | c # r \<Rightarrow>
                   if hex then
                     (if c = CHR ''p'' \<or> c = CHR ''P''
                      then map_option (\<lambda>e. of_nat m * pow2 (e - 4 * k)) (exponent_digits r) else None)
                   else if c = CHR ''e'' \<or> c = CHR ''E''
                   then map_option (\<lambda>e. of_nat m * pow10 (e - k)) (exponent_digits r) else None)"

definition special_number :: "bool \<Rightarrow> string \<Rightarrow> float64 option" where
  "special_number neg s =
     (if equal_fold s ''inf'' \<or> equal_fold s ''infinity'' then Some (Inf neg) else None)"

definition parse_float :: "string \<Rightarrow> float64 option" where
  "parse_float s =
     (let (neg, sign, body) = (case s of
          c # r \<Rightarrow> if c = CHR ''-'' then (True, True, r) else if c = CHR ''+'' then (False, True, r) else (False, False, s)
        | [] \<Rightarrow> (False, False, []))
      in if \<not> sign \<and> equal_fold s ''nan'' then Some NaN
         else case special_number neg body of
             Some x \<Rightarrow> Some x
           | None \<Rightarrow>
               (case unsigned_number body of
                  None \<Rightarrow> None
                | Some x \<Rightarrow>
                    (case round64 False x of
                       Inf _ \<Rightarrow> None
                     | y \<Rightarrow> Some (if neg then f_neg y else y))))"

section \<open>Whole numbers\<close>

text \<open>A whole number of at most 53 bits is kept as it is.\<close>

lemma pow2_nonneg: "0 \<le> e \<Longrightarrow> pow2 e = of_int (2 ^ nat e)"
  by (simp add: pow2_def)

lemma exponent_whole:
  assumes "0 < n" "n < 2 ^ 53"
  shows "0 \<le> exponent_of (of_int n)" "exponent_of (of_int n) \<le> 52"
proof -
  have q: "quotient_of (of_int n) = (n, 1)" by (simp add: quotient_of_int)
  have one: "bitlen 1 = 1" by (simp add: bitlen_eq_zero_iff bitlen_alt_def)
  have pos: "0 < bitlen n" using bitlen_eq_zero_iff [of n] bitlen_nonneg [of n] assms(1) by linarith
  have b: "2 ^ nat (bitlen n - 1) \<le> n" using bitlen_bounds [of n] assms(1) by simp
  then have le: "pow2 (bitlen n - 1) \<le> of_int n" using pos by (simp add: pow2_nonneg)
  have e: "exponent_of (of_int n) = bitlen n - 1"
    using le by (simp add: exponent_of_def q one Let_def)
  show "0 \<le> exponent_of (of_int n)" using pos e by simp
  have "(2::int) ^ nat (bitlen n - 1) < 2 ^ 53" using b assms(2) by linarith
  then have "nat (bitlen n - 1) < 53" by (rule power_less_imp_less_exp [rotated]) simp
  then show "exponent_of (of_int n) \<le> 52" using e by simp
qed

lemma half_even_whole: "half_even (of_int n) = n"
  by (simp add: half_even_def Let_def)

lemma round64_whole:
  assumes "n \<noteq> 0" "\<bar>n\<bar> < 2 ^ 53"
  shows "round64 neg (of_int n) = Fin (of_int n)"
proof -
  let ?a = "of_int \<bar>n\<bar> :: rat" and ?u = "exponent_of (of_int \<bar>n\<bar>) - 52"
  have e: "0 \<le> exponent_of ?a" "exponent_of ?a \<le> 52" using exponent_whole [of "\<bar>n\<bar>"] assms by simp_all
  have u: "max ?u (- 1074) = ?u" "?u \<le> 0" using e by simp_all
  let ?s = "2 ^ nat (- ?u) :: int"
  have pow: "pow2 ?u = 1 / of_int ?s"
    using u(2) by (cases "?u = 0") (simp_all add: pow2_def)
  have m: "half_even (?a / pow2 ?u) = \<bar>n\<bar> * ?s"
    unfolding pow using half_even_whole [of "\<bar>n\<bar> * ?s"] by simp
  have v: "of_int (\<bar>n\<bar> * ?s) * pow2 ?u = ?a" unfolding pow by simp
  have big: "\<not> pow2 1024 \<le> ?a"
  proof -
    have "?a < of_int (2 ^ 53)" using assms(2) by (simp only: of_int_less_iff)
    also have "(of_int (2 ^ 53) :: rat) \<le> pow2 1024" by (simp add: pow2_def)
    finally show ?thesis by simp
  qed
  have abs: "\<bar>of_int n :: rat\<bar> = ?a" by simp
  show ?thesis
    unfolding round64_def abs Let_def u(1) m v using assms(1) big by auto
qed

lemma f_of_int_whole: "n \<noteq> 0 \<Longrightarrow> \<bar>n\<bar> < 2 ^ 53 \<Longrightarrow> f_of_int n = Fin (of_int n)"
  by (simp add: f_of_int_def round64_whole)

lemma f_of_int_zero [simp]: "f_of_int 0 = Zero False"
  by (simp add: f_of_int_def round64_def)

end
