(* ===== verification/GoUtf8.thy ===== *)
theory GoUtf8
  imports GoPrelude
begin

text \<open>
  Runes: UTF-8 as \<open>unicode/utf8\<close> decodes and encodes it, byte for byte, and the classes of \<open>unicode\<close> the
  code asks for. The classes above Latin-1 are tables of the library, an argument of the definitions.
\<close>

section \<open>UTF-8\<close>

definition byte :: "char \<Rightarrow> nat" where
  "byte c = of_char c"

definition between :: "nat \<Rightarrow> nat \<Rightarrow> char \<Rightarrow> bool" where
  "between lo hi c \<longleftrightarrow> lo \<le> byte c \<and> byte c \<le> hi"

definition bad_rune :: "nat" where "bad_rune = 0xFFFD"

text \<open>\<open>DecodeRuneInString\<close>: the rune a string starts with and its number of bytes, 1 for a byte that is no
  part of a rune.\<close>

definition decode_rune :: "string \<Rightarrow> nat \<times> nat" where
  "decode_rune s =
     (case s of
        [] \<Rightarrow> (bad_rune, 0)
      | a # r \<Rightarrow>
          if byte a < 0x80 then (byte a, 1)
          else if between 0xC2 0xDF a then
            (case r of b # _ \<Rightarrow> if between 0x80 0xBF b then ((byte a - 0xC0) * 64 + (byte b - 0x80), 2) else (bad_rune, 1)
             | [] \<Rightarrow> (bad_rune, 1))
          else if between 0xE0 0xEF a then
            (case r of
               b # c # _ \<Rightarrow>
                 if between (if byte a = 0xE0 then 0xA0 else 0x80) (if byte a = 0xED then 0x9F else 0xBF) b \<and> between 0x80 0xBF c
                 then ((byte a - 0xE0) * 4096 + (byte b - 0x80) * 64 + (byte c - 0x80), 3) else (bad_rune, 1)
             | _ \<Rightarrow> (bad_rune, 1))
          else if between 0xF0 0xF4 a then
            (case r of
               b # c # d # _ \<Rightarrow>
                 if between (if byte a = 0xF0 then 0x90 else 0x80) (if byte a = 0xF4 then 0x8F else 0xBF) b \<and>
                    between 0x80 0xBF c \<and> between 0x80 0xBF d
                 then ((byte a - 0xF0) * 262144 + (byte b - 0x80) * 4096 + (byte c - 0x80) * 64 + (byte d - 0x80), 4)
                 else (bad_rune, 1)
             | _ \<Rightarrow> (bad_rune, 1))
          else (bad_rune, 1))"

definition encode_rune :: "nat \<Rightarrow> string" where
  "encode_rune r =
     (if r < 0x80 then [char_of r]
      else if r < 0x800 then [char_of (0xC0 + r div 64), char_of (0x80 + r mod 64)]
      else
        let q = (if 0x10FFFF < r \<or> 0xD800 \<le> r \<and> r \<le> 0xDFFF then bad_rune else r)
        in if q < 0x10000 then [char_of (0xE0 + q div 4096), char_of (0x80 + q div 64 mod 64), char_of (0x80 + q mod 64)]
           else [char_of (0xF0 + q div 262144), char_of (0x80 + q div 4096 mod 64), char_of (0x80 + q div 64 mod 64),
                 char_of (0x80 + q mod 64)])"

lemma decode_rune_size: "snd (decode_rune s) \<le> length s" "s \<noteq> [] \<Longrightarrow> 0 < snd (decode_rune s)"
  by (auto simp: decode_rune_def split: list.splits)

lemma decode_ascii: "byte c < 0x80 \<Longrightarrow> decode_rune (c # s) = (byte c, 1)"
  by (simp add: decode_rune_def)

lemma decode_below:
  assumes "fst (decode_rune s) < 0x80" "s \<noteq> []"
  shows "fst (decode_rune s) = byte (hd s)" "snd (decode_rune s) = 1"
proof -
  have two_bytes: "0x80 \<le> (x - 0xC0) * 64 + y" if "0xC2 \<le> x" for x y :: nat using that by linarith
  have three_bytes: "0x80 \<le> (x - 0xE0) * 4096 + (y - 0x80) * 64 + z"
    if "0xE0 \<le> x" "(if x = 0xE0 then 0xA0 else 0x80) \<le> y" for x y z :: nat
  proof (cases "x = 0xE0")
    case True
    then have "0xA0 \<le> y" using that by simp
    then show ?thesis by linarith
  qed (use that in linarith)
  have four_bytes: "0x80 \<le> (x - 0xF0) * 262144 + (y - 0x80) * 4096 + z + w"
    if "0xF0 \<le> x" "(if x = 0xF0 then 0x90 else 0x80) \<le> y" for x y z w :: nat
  proof (cases "x = 0xF0")
    case True
    then have "0x90 \<le> y" using that by simp
    then show ?thesis by linarith
  qed (use that in linarith)
  have high: "0x80 \<le> fst (decode_rune (a # r))" if a: "\<not> byte a < 0x80" for a r
  proof -
    consider (two) "between 0xC2 0xDF a" | (three) "\<not> between 0xC2 0xDF a" "between 0xE0 0xEF a"
      | (four) "\<not> between 0xC2 0xDF a" "\<not> between 0xE0 0xEF a" "between 0xF0 0xF4 a"
      | (bad) "\<not> between 0xC2 0xDF a" "\<not> between 0xE0 0xEF a" "\<not> between 0xF0 0xF4 a" by blast
    then show ?thesis
    proof cases
      case two
      then have "0xC2 \<le> byte a" by (simp add: between_def)
      from two_bytes [OF this] a two show ?thesis
        by (simp add: decode_rune_def bad_rune_def split: list.split)
    next
      case three
      then have "0xE0 \<le> byte a" by (simp add: between_def)
      from three_bytes [OF this] a three
      show ?thesis
        by (simp add: decode_rune_def bad_rune_def between_def [of "if _ then _ else _"] split del: if_split split: list.split)
          (auto simp: bad_rune_def)
    next
      case four
      then have "0xF0 \<le> byte a" by (simp add: between_def)
      from four_bytes [OF this] a four
      show ?thesis
        by (simp add: decode_rune_def bad_rune_def between_def [of "if _ then _ else _"] split del: if_split split: list.split)
          (auto simp: bad_rune_def)
    qed (use a in \<open>simp add: decode_rune_def bad_rune_def\<close>)
  qed
  have "byte (hd s) < 0x80" using high [of "hd s" "tl s"] assms by (cases s) auto
  with assms(2) show "fst (decode_rune s) = byte (hd s)" "snd (decode_rune s) = 1"
    by (cases s; simp add: decode_rune_def)+
qed

function runes_of :: "string \<Rightarrow> nat list" where
  "runes_of s = (if s = [] then [] else fst (decode_rune s) # runes_of (drop (snd (decode_rune s)) s))"
  by auto
termination
proof (relation "measure length")
  fix s :: string assume "s \<noteq> []"
  with decode_rune_size(2) [OF this] show "(drop (snd (decode_rune s)) s, s) \<in> measure length" by simp
qed simp

declare runes_of.simps [simp del]

definition of_runes :: "nat list \<Rightarrow> string" where
  "of_runes rs = concat (map encode_rune rs)"

section \<open>Classes\<close>

record unicode =
  u_letter :: "nat \<Rightarrow> bool"
  u_digit :: "nat \<Rightarrow> bool"
  u_lower :: "nat \<Rightarrow> nat"
  u_upper :: "nat \<Rightarrow> nat"

definition is_space :: "nat \<Rightarrow> bool" where
  "is_space r \<longleftrightarrow>
     r \<in> {0x09, 0x0A, 0x0B, 0x0C, 0x0D, 0x20, 0x85, 0xA0, 0x1680, 0x2028, 0x2029, 0x202F, 0x205F, 0x3000} \<or>
     0x2000 \<le> r \<and> r \<le> 0x200A"

definition IsLetter :: "unicode \<Rightarrow> nat \<Rightarrow> bool" where
  "IsLetter U r \<longleftrightarrow>
     (if r < 0x100
      then 0x41 \<le> r \<and> r \<le> 0x5A \<or> 0x61 \<le> r \<and> r \<le> 0x7A \<or> r \<in> {0xAA, 0xB5, 0xBA} \<or> 0xC0 \<le> r \<and> r \<noteq> 0xD7 \<and> r \<noteq> 0xF7
      else u_letter U r)"

definition IsDigit :: "unicode \<Rightarrow> nat \<Rightarrow> bool" where
  "IsDigit U r \<longleftrightarrow> (if r < 0x100 then 0x30 \<le> r \<and> r \<le> 0x39 else u_digit U r)"

text \<open>\<open>strings.ToLower\<close> and \<open>strings.ToUpper\<close>: ASCII texts byte by byte, others rune by rune.\<close>

definition map_runes :: "(nat \<Rightarrow> nat) \<Rightarrow> string \<Rightarrow> string" where
  "map_runes f s = of_runes (map f (runes_of s))"

definition lower_rune :: "unicode \<Rightarrow> nat \<Rightarrow> nat" where
  "lower_rune U r = (if r < 0x80 then (if 0x41 \<le> r \<and> r \<le> 0x5A then r + 0x20 else r) else u_lower U r)"

definition upper_rune :: "unicode \<Rightarrow> nat \<Rightarrow> nat" where
  "upper_rune U r = (if r < 0x80 then (if 0x61 \<le> r \<and> r \<le> 0x7A then r - 0x20 else r) else u_upper U r)"

end
