(* ===== verification/JexprLex.thy ===== *)
theory JexprLex
  imports GoFloat GoUtf8
begin

text \<open>
  Jira expressions, first part (\<open>internal/jexpr/parse.go\<close>): the syntax trees and the lexer, with the places
  of every token. A lexer's state is the source from its place on.
\<close>

section \<open>Syntax trees\<close>

record Pos =
  pos_offset :: nat
  pos_line :: nat
  pos_column :: nat

datatype jexpr_error = SyntaxError Pos string "string list"

record span =
  sp_start :: Pos
  sp_end :: nat

datatype lit = LNull | LBool bool | LNumber float64 | LString string

datatype Node =
    Literal span lit
  | Ident span string
  | Member span Node string bool
  | Index span Node Node bool
  | Call span Node "Node list" bool
  | Unary span string Node
  | Binary span string Node Node
  | Conditional span Node Node Node
  | Arrow span "string list" Node
  | ArrayLit span "Node list"
  | ObjectLit span "Property list"
  | Template span "string list" "Node list"
  | New span string "Node list"
  | Spread span Node
and Property = Property string Node bool

fun Span :: "Node \<Rightarrow> span" where
  "Span (Literal s _) = s"
| "Span (Ident s _) = s"
| "Span (Member s _ _ _) = s"
| "Span (Index s _ _ _) = s"
| "Span (Call s _ _ _) = s"
| "Span (Unary s _ _) = s"
| "Span (Binary s _ _ _) = s"
| "Span (Conditional s _ _ _) = s"
| "Span (Arrow s _ _) = s"
| "Span (ArrayLit s _) = s"
| "Span (ObjectLit s _) = s"
| "Span (Template s _ _) = s"
| "Span (New s _ _) = s"
| "Span (Spread s _) = s"

section \<open>The lexer\<close>

datatype templatePart = LiteralPart string | ExprPart string Pos

datatype tokenKind = TEof | TNumber float64 | TString string | TTemplate "templatePart list" | TIdent | TPunct

record token =
  t_kind :: tokenKind
  t_text :: string
  t_pos :: Pos
  t_end :: nat

definition punctuators :: "string list" where
  "punctuators = [''==='', ''!=='', ''...'', ''?.'', ''??'', ''=>'', ''=='', ''!='', ''<='', ''>='', ''&&'', ''||'',
     ''('', '')'', ''['', '']'', ''{'', ''}'', '','', ''.'', '':'', ''?'', ''!'', ''<'', ''>'', ''+'', ''-'', ''*'', ''/'', ''%'']"

text \<open>\<open>l_off\<close> counts from the start of the whole expression, also inside a template.\<close>

record lexer =
  l_src :: string
  l_off :: nat
  l_line :: nat
  l_col :: nat

definition lexer_at :: "string \<Rightarrow> Pos \<Rightarrow> lexer" where
  "lexer_at src base = \<lparr>l_src = src, l_off = pos_offset base, l_line = pos_line base, l_col = pos_column base\<rparr>"

definition pos :: "lexer \<Rightarrow> Pos" where
  "pos l = \<lparr>pos_offset = l_off l, pos_line = l_line l, pos_column = l_col l\<rparr>"

definition peekRune :: "lexer \<Rightarrow> nat" where
  "peekRune l = (if l_src l = [] then 0 else fst (decode_rune (l_src l)))"

definition advance :: "lexer \<Rightarrow> lexer" where
  "advance l =
     (let n = snd (decode_rune (l_src l)); l' = l\<lparr>l_src := drop n (l_src l), l_off := l_off l + n\<rparr>
      in if peekRune l = 10 then l'\<lparr>l_line := l_line l + 1, l_col := 1\<rparr> else l'\<lparr>l_col := l_col l + 1\<rparr>)"

lemma advance_less: "l_src l \<noteq> [] \<Longrightarrow> length (l_src (advance l)) < length (l_src l)"
  using decode_rune_size [of "l_src l"] by (simp add: advance_def Let_def)

lemma advance_le: "length (l_src (advance l)) \<le> length (l_src l)"
  by (simp add: advance_def Let_def)

definition starts :: "string \<Rightarrow> lexer \<Rightarrow> bool" where
  "starts s l \<longleftrightarrow> take (length s) (l_src l) = s"

definition next_byte :: "lexer \<Rightarrow> char option" where
  "next_byte l = (case l_src l of [] \<Rightarrow> None | c # _ \<Rightarrow> Some c)"

text \<open>White space and comments.\<close>

function skip_line :: "lexer \<Rightarrow> lexer" where
  "skip_line l = (if l_src l = [] \<or> peekRune l = 10 then l else skip_line (advance l))"
  by pat_completeness auto
termination by (relation "measure (\<lambda>l. length (l_src l))") (simp_all add: advance_less)

function skip_comment :: "lexer \<Rightarrow> lexer option" where
  "skip_comment l =
     (if l_src l = [] then None
      else if starts ''*/'' l then Some (advance (advance l))
      else skip_comment (advance l))"
  by pat_completeness auto
termination by (relation "measure (\<lambda>l. length (l_src l))") (simp_all add: advance_less)

declare skip_line.simps [simp del] skip_comment.simps [simp del]

lemma skip_line_le: "length (l_src (skip_line l)) \<le> length (l_src l)"
proof (induction l rule: skip_line.induct)
  case (1 l)
  then show ?case using advance_le [of l] by (subst skip_line.simps) auto
qed

lemma skip_comment_le: "skip_comment l = Some l' \<Longrightarrow> length (l_src l') \<le> length (l_src l)"
proof (induction l rule: skip_comment.induct)
  case (1 l)
  then show ?case
    using advance_le [of l] advance_le [of "advance l"] by (subst (asm) (2) skip_comment.simps) (auto split: if_splits)
qed

function skip_blank :: "lexer \<Rightarrow> (jexpr_error, lexer) outcome" where
  "skip_blank l =
     (if l_src l = [] then Done l
      else if is_space (peekRune l) then skip_blank (advance l)
      else if starts ''//'' l then skip_blank (skip_line (advance l))
      else if starts ''/*'' l then
        (case skip_comment (advance (advance l)) of
           None \<Rightarrow> Fail (SyntaxError (pos l) ''Unterminated comment.'' [])
         | Some l' \<Rightarrow> skip_blank l')
      else Done l)"
  by pat_completeness auto
termination
proof (relation "measure (\<lambda>l. length (l_src l))", goal_cases)
  case (3 l)
  then show ?case using advance_less [of l] skip_line_le [of "advance l"] by simp
next
  case (4 l l')
  then show ?case using advance_less [of l] advance_le [of "advance l"] skip_comment_le [OF 4(5)] by simp
qed (simp_all add: advance_less)

declare skip_blank.simps [simp del]

text \<open>The bytes of a number: an exponent's sign is read with it.\<close>

definition digit_byte :: "char option \<Rightarrow> bool" where
  "digit_byte c \<longleftrightarrow> (case c of None \<Rightarrow> False | Some d \<Rightarrow> is_digit d)"

function scan_number :: "lexer \<Rightarrow> lexer" where
  "scan_number l =
     (if digit_byte (next_byte l) \<or> next_byte l = Some CHR ''.'' then scan_number (advance l)
      else if (next_byte l = Some CHR ''e'' \<or> next_byte l = Some CHR ''E'') \<and> 2 \<le> length (l_src l) then
        let l1 = advance l
        in scan_number (if next_byte l1 = Some CHR ''+'' \<or> next_byte l1 = Some CHR ''-'' then advance l1 else l1)
      else l)"
  by pat_completeness auto
termination
proof (relation "measure (\<lambda>l. length (l_src l))", goal_cases)
  case (2 l)
  then have "l_src l \<noteq> []" by (auto simp: next_byte_def digit_byte_def)
  then show ?case using advance_less by simp
next
  case (3 l l1)
  then have "l_src l \<noteq> []" by auto
  then show ?case using advance_less [of l] advance_le [of l1] 3(3) by auto
qed simp

declare scan_number.simps [simp del]

text \<open>The characters of an identifier.\<close>

definition ident_start :: "unicode \<Rightarrow> nat \<Rightarrow> bool" where
  "ident_start U r \<longleftrightarrow> r = 0x5F \<or> r = 0x24 \<or> IsLetter U r"

function scan_ident :: "unicode \<Rightarrow> lexer \<Rightarrow> lexer" where
  "scan_ident U l =
     (if l_src l \<noteq> [] \<and> (ident_start U (peekRune l) \<or> IsDigit U (peekRune l)) then scan_ident U (advance l) else l)"
  by pat_completeness auto
termination by (relation "measure (\<lambda>(U, l). length (l_src l))") (simp_all add: advance_less)

declare scan_ident.simps [simp del]

section \<open>Strings and templates\<close>

definition hex_digit :: "nat \<Rightarrow> nat option" where
  "hex_digit r =
     (if 0x30 \<le> r \<and> r \<le> 0x39 then Some (r - 0x30)
      else if 0x61 \<le> r \<and> r \<le> 0x66 then Some (r - 0x61 + 10)
      else if 0x41 \<le> r \<and> r \<le> 0x46 then Some (r - 0x41 + 10)
      else None)"

fun hex_code :: "nat \<Rightarrow> nat list \<Rightarrow> nat option" where
  "hex_code n [] = Some n"
| "hex_code n (r # rs) = (case hex_digit r of None \<Rightarrow> None | Some d \<Rightarrow> hex_code (16 * n + d) rs)"

text \<open>After a backslash. The four digits of a code point are a slice of the source, whose end is checked.\<close>

definition escape :: "lexer \<Rightarrow> (jexpr_error, string \<times> lexer) outcome" where
  "escape l =
     (if l_src l = [] then Fail (SyntaxError (pos l) ''Unterminated escape sequence.'' [])
      else
        let c = peekRune l; l1 = advance l
        in if c = 0x6E then Done ([CHR 0x0A], l1)
           else if c = 0x74 then Done ([CHR 0x09], l1)
           else if c = 0x72 then Done ([CHR 0x0D], l1)
           else if c = 0x62 then Done ([CHR 0x08], l1)
           else if c = 0x66 then Done ([CHR 0x0C], l1)
           else if c = 0x75 then
             (if length (l_src l1) < 4 then Fail (SyntaxError (pos l) ''Invalid unicode escape.'' [])
              else case hex_code 0 (runes_of (take 4 (l_src l1))) of
                  None \<Rightarrow> Fail (SyntaxError (pos l) ''Invalid unicode escape.'' [])
                | Some code \<Rightarrow> Done (encode_rune code, advance (advance (advance (advance l1)))))
           else Done (encode_rune c, l1))"

lemma escape_less: "escape l = Done (s, l') \<Longrightarrow> length (l_src l') < length (l_src l)"
proof -
  assume e: "escape l = Done (s, l')"
  then have ne: "l_src l \<noteq> []" by (auto simp: escape_def)
  have "length (l_src (advance (advance (advance (advance (advance l)))))) \<le> length (l_src (advance l))"
    using advance_le order_trans by meson
  with e advance_less [OF ne] show ?thesis
    by (auto simp: escape_def Let_def split: if_splits option.splits)
qed

text \<open>The text of a string after its opening quote.\<close>

function scan_string :: "Pos \<Rightarrow> nat \<Rightarrow> lexer \<Rightarrow> (jexpr_error, string \<times> lexer) outcome" where
  "scan_string start quote l =
     (if l_src l = [] then Fail (SyntaxError start ''Unterminated string literal.'' [])
      else
        let c = peekRune l; l1 = advance l
        in if c = quote then Done ([], l1)
           else if c = 0x5C then
             (case escape l1 of
                Crash \<Rightarrow> Crash
              | Fail e \<Rightarrow> Fail e
              | Done (s, l2) \<Rightarrow> omap (\<lambda>(t, l'). (s @ t, l')) (scan_string start quote l2))
           else omap (\<lambda>(t, l'). (encode_rune c @ t, l')) (scan_string start quote l1))"
  by pat_completeness auto
termination
proof (relation "measure (\<lambda>(start, quote, l). length (l_src l))", goal_cases)
  case (2 start quote l c l1 x s l2)
  then show ?case using advance_less [of l] escape_less [of l1 s l2] by simp
qed (simp_all add: advance_less)

declare scan_string.simps [simp del]

text \<open>A quoted string inside the expression of a template; its end is not required.\<close>

function skip_quoted :: "nat \<Rightarrow> lexer \<Rightarrow> lexer" where
  "skip_quoted quote l =
     (if l_src l = [] then l
      else
        let c = peekRune l; l1 = advance l
        in if c = 0x5C \<and> l_src l1 \<noteq> [] then skip_quoted quote (advance l1)
           else if c = quote then l1
           else skip_quoted quote l1)"
  by pat_completeness auto
termination
proof (relation "measure (\<lambda>(quote, l). length (l_src l))", goal_cases)
  case (2 quote l c l1)
  then show ?case using advance_less [of l] advance_le [of l1] by simp
qed (simp_all add: advance_less)

declare skip_quoted.simps [simp del]

lemma skip_quoted_le: "length (l_src (skip_quoted quote l)) \<le> length (l_src l)"
proof (induction quote l rule: skip_quoted.induct)
  case (1 quote l)
  show ?case
    using 1 advance_le [of l] advance_le [of "advance l"] by (subst skip_quoted.simps) (auto simp: Let_def intro: order_trans)
qed

text \<open>The end of an expression inside a template: the closing brace, which is not read.\<close>

function scan_hole :: "nat \<Rightarrow> lexer \<Rightarrow> lexer option" where
  "scan_hole depth l =
     (if l_src l = [] then None
      else
        let c = peekRune l
        in if c = 0x27 \<or> c = 0x22 then scan_hole depth (skip_quoted c (advance l))
           else if c = 0x7B then scan_hole (depth + 1) (advance l)
           else if c = 0x7D then (if depth = 0 then Some l else scan_hole (depth - 1) (advance l))
           else scan_hole depth (advance l))"
  by pat_completeness auto
termination
proof (relation "measure (\<lambda>(depth, l). length (l_src l))", goal_cases)
  case (2 depth l c)
  then show ?case using advance_less [of l] skip_quoted_le [of c "advance l"] by simp
qed (simp_all add: advance_less)

declare scan_hole.simps [simp del]

lemma scan_hole_le: "scan_hole depth l = Some l' \<Longrightarrow> length (l_src l') \<le> length (l_src l)"
proof (induction depth l rule: scan_hole.induct)
  case (1 depth l)
  show ?case
    using 1(5) 1(1-4) advance_le [of l] skip_quoted_le [of "peekRune l" "advance l"]
    by (subst (asm) scan_hole.simps) (auto simp: Let_def split: if_splits)
qed

text \<open>The parts of a template after its opening quote; \<open>lit\<close> is the literal text read so far. The text of an
  expression is the source up to its closing brace.\<close>

function scan_template :: "Pos \<Rightarrow> string \<Rightarrow> lexer \<Rightarrow> (jexpr_error, templatePart list \<times> lexer) outcome" where
  "scan_template start lit l =
     (if l_src l = [] then Fail (SyntaxError start ''Unterminated template literal.'' [])
      else if starts ''${'' l then
        let l1 = advance (advance l)
        in (case scan_hole 0 l1 of
              None \<Rightarrow> Fail (SyntaxError start ''Unterminated template literal.'' [])
            | Some l2 \<Rightarrow>
                omap (\<lambda>(ps, l'). (LiteralPart lit # ExprPart (take (l_off l2 - l_off l1) (l_src l1)) (pos l1) # ps, l'))
                  (scan_template start [] (advance l2)))
      else
        let c = peekRune l; l1 = advance l
        in if c = 0x60 then Done ([LiteralPart lit], l1)
           else if c = 0x5C then
             (case escape l1 of
                Crash \<Rightarrow> Crash
              | Fail e \<Rightarrow> Fail e
              | Done (s, l2) \<Rightarrow> scan_template start (lit @ s) l2)
           else scan_template start (lit @ encode_rune c) l1)"
  by pat_completeness auto
termination
proof (relation "measure (\<lambda>(start, lit, l). length (l_src l))", goal_cases)
  case (2 start lit l l1 l2)
  then show ?case
    using advance_less [of l] advance_le [of "advance l"] advance_le [of l2] scan_hole_le [of 0 l1 l2] by simp
next
  case (3 start lit l c l1 x s l2)
  then show ?case using advance_less [of l] escape_less [of l1 s l2] by simp
qed (simp_all add: advance_less)

declare scan_template.simps [simp del]

section \<open>Tokens\<close>

definition tok :: "tokenKind \<Rightarrow> lexer \<Rightarrow> lexer \<Rightarrow> token" where
  "tok k l l' = \<lparr>t_kind = k, t_text = take (l_off l' - l_off l) (l_src l), t_pos = pos l, t_end = l_off l'\<rparr>"

text \<open>The punctuator the source starts with: \<open>?.\<close> before a digit is none.\<close>

definition punctuator :: "lexer \<Rightarrow> string option" where
  "punctuator l =
     find (\<lambda>p. starts p l \<and> \<not> (p = ''?.'' \<and> 2 < length (l_src l) \<and> is_digit (l_src l ! 2))) punctuators"

text \<open>One token, at a place that is neither blank nor the end.\<close>

definition lex_token :: "unicode \<Rightarrow> lexer \<Rightarrow> (jexpr_error, token \<times> lexer) outcome" where
  "lex_token U l =
     (let r = peekRune l
      in if 0x30 \<le> r \<and> r \<le> 0x39 \<or> r = 0x2E \<and> 1 < length (l_src l) \<and> is_digit (l_src l ! 1) then
           let l' = scan_number l; text = take (l_off l' - l_off l) (l_src l)
           in (case parse_float text of
                 None \<Rightarrow> Fail (SyntaxError (pos l) ''Invalid number %q.'' [text])
               | Some x \<Rightarrow> Done (tok (TNumber x) l l', l'))
         else if r = 0x27 \<or> r = 0x22 then
           obind (scan_string (pos l) r (advance l)) (\<lambda>(s, l'). Done (tok (TString s) l l', l'))
         else if r = 0x60 then
           obind (scan_template (pos l) [] (advance l)) (\<lambda>(ps, l').
             Done ((tok (TTemplate ps) l l')\<lparr>t_text := ''TEMPLATE_LITERAL''\<rparr>, l'))
         else if ident_start U r then
           let l' = scan_ident U l in Done (tok TIdent l l', l')
         else
           (case punctuator l of
              None \<Rightarrow> Fail (SyntaxError (pos l) ''Unexpected character %q.'' [encode_rune r])
            | Some p \<Rightarrow> let l' = (advance ^^ length p) l in Done (tok TPunct l l', l')))"

text \<open>What a token is read from: reading it takes at least one byte.\<close>

lemma lex_advance_funpow_le: "length (l_src ((advance ^^ k) l)) \<le> length (l_src l)"
  by (induction k) (auto intro: order_trans [OF advance_le])

lemma lex_advance_funpow_less: "0 < k \<Longrightarrow> l_src l \<noteq> [] \<Longrightarrow> length (l_src ((advance ^^ k) l)) < length (l_src l)"
proof (cases k)
  case (Suc j)
  assume "l_src l \<noteq> []"
  then show ?thesis
    using lex_advance_funpow_le [of j "advance l"] advance_less [of l] by (simp add: Suc funpow_swap1)
qed simp

lemma scan_number_le: "length (l_src (scan_number l)) \<le> length (l_src l)"
proof (induction l rule: scan_number.induct)
  case (1 l)
  show ?case
    using 1 advance_le [of l] advance_le [of "advance l"]
    by (subst scan_number.simps) (auto simp: Let_def split: if_splits intro: order_trans)
qed

lemma scan_ident_le: "length (l_src (scan_ident U l)) \<le> length (l_src l)"
proof (induction U l rule: scan_ident.induct)
  case (1 U l)
  show ?case using 1 advance_le [of l] by (subst scan_ident.simps) auto
qed

lemma scan_string_le: "scan_string start q l = Done (s, l') \<Longrightarrow> length (l_src l') \<le> length (l_src l)"
proof (induction start q l arbitrary: s l' rule: scan_string.induct)
  case (1 start q l)
  note IH = 1(1,2)
  show ?case
  proof (cases "l_src l = []")
    case True
    with 1(3) show ?thesis by (subst (asm) scan_string.simps) simp
  next
    case False
    let ?l1 = "advance l"
    consider "peekRune l = q" | "peekRune l \<noteq> q" "peekRune l = 0x5C" | "peekRune l \<noteq> q" "peekRune l \<noteq> 0x5C" by blast
    then show ?thesis
    proof cases
      case 1
      with "1.prems" False advance_le [of l] show ?thesis by (subst (asm) scan_string.simps) (simp add: Let_def)
    next
      case 2
      with "1.prems" False obtain u l2 t where e: "escape ?l1 = Done (u, l2)" "scan_string start q l2 = Done (t, l')"
        by (subst (asm) scan_string.simps) (auto simp: Let_def split: outcome.splits)
      with IH(1) [OF False refl refl 2 e(1) refl e(2)] escape_less [OF e(1)] advance_le [of l] show ?thesis by simp
    next
      case 3
      with "1.prems" False obtain t where e: "scan_string start q ?l1 = Done (t, l')"
        by (subst (asm) scan_string.simps) (auto simp: Let_def)
      with IH(2) [OF False refl refl 3 e] advance_le [of l] show ?thesis by simp
    qed
  qed
qed

text \<open>The end of the source, counted from the start of the expression, is the same at every place of it.\<close>

definition source_end :: "lexer \<Rightarrow> nat" where
  "source_end l = l_off l + length (l_src l)"

lemma source_end_advance [simp]: "source_end (advance l) = source_end l"
  using decode_rune_size(1) [of "l_src l"] by (simp add: source_end_def advance_def Let_def)

lemma source_end_skip_quoted [simp]: "source_end (skip_quoted q l) = source_end l"
proof (induction q l rule: skip_quoted.induct)
  case (1 q l)
  show ?case using 1 by (subst skip_quoted.simps) (auto simp: Let_def)
qed

lemma source_end_scan_hole: "scan_hole d l = Some l' \<Longrightarrow> source_end l' = source_end l"
proof (induction d l rule: scan_hole.induct)
  case (1 d l)
  show ?case using 1(5) 1(1-4) by (subst (asm) scan_hole.simps) (auto simp: Let_def split: if_splits)
qed

lemma scan_hole_not_Nil: "scan_hole d l = Some l' \<Longrightarrow> l_src l' \<noteq> []"
proof (induction d l rule: scan_hole.induct)
  case (1 d l)
  show ?case using 1(5) 1(1-4) by (subst (asm) scan_hole.simps) (auto simp: Let_def split: if_splits)
qed

fun part_size :: "templatePart \<Rightarrow> nat" where
  "part_size (LiteralPart _) = 0"
| "part_size (ExprPart s _) = length s + 1"

lemma scan_template_le:
  "scan_template start lit l = Done (ps, l') \<Longrightarrow> sum_list (map part_size ps) + length (l_src l') \<le> length (l_src l)"
proof (induction start lit l arbitrary: ps l' rule: scan_template.induct)
  case (1 start lit l)
  note IH = 1(1,2,3)
  show ?case
  proof (cases "l_src l = []")
    case True
    with "1.prems" show ?thesis by (subst (asm) scan_template.simps) simp
  next
    case False
    let ?l1 = "advance l"
    consider "starts ''${'' l" | "\<not> starts ''${'' l" "peekRune l = 0x60" | "\<not> starts ''${'' l" "peekRune l \<noteq> 0x60" "peekRune l = 0x5C"
      | "\<not> starts ''${'' l" "peekRune l \<noteq> 0x60" "peekRune l \<noteq> 0x5C" by blast
    then show ?thesis
    proof cases
      case 1
      let ?l2 = "advance ?l1"
      from 1 "1.prems" False obtain l3 qs where l3: "scan_hole 0 ?l2 = Some l3" "scan_template start [] (advance l3) = Done (qs, l')"
        and ps: "ps = LiteralPart lit # ExprPart (take (l_off l3 - l_off ?l2) (l_src ?l2)) (pos ?l2) # qs"
        by (subst (asm) scan_template.simps) (auto simp: Let_def split: option.splits)
      have ih: "sum_list (map part_size qs) + length (l_src l') \<le> length (l_src (advance l3))"
        using IH(1) [OF False 1 refl l3(1) l3(2)] .
      have "length (l_src (advance l3)) < length (l_src l3)" using scan_hole_not_Nil [OF l3(1)] by (rule advance_less)
      moreover have "l_off l3 - l_off ?l2 \<le> length (l_src ?l2) - length (l_src l3)"
        using source_end_scan_hole [OF l3(1)] scan_hole_le [OF l3(1)] by (simp add: source_end_def)
      ultimately show ?thesis
        using ih scan_hole_le [OF l3(1)] advance_le [of ?l1] advance_less [OF False] by (simp add: ps)
    next
      case 2
      with "1.prems" False advance_le [of l] show ?thesis by (subst (asm) scan_template.simps) (auto simp: Let_def)
    next
      case 3
      with "1.prems" False obtain u l2 where e: "escape ?l1 = Done (u, l2)" "scan_template start (lit @ u) l2 = Done (ps, l')"
        by (subst (asm) scan_template.simps) (auto simp: Let_def split: outcome.splits)
      with IH(2) [OF False 3(1) refl refl 3(2,3) e(1) refl e(2)] escape_less [OF e(1)] advance_le [of l] show ?thesis by simp
    next
      case 4
      with "1.prems" False have e: "scan_template start (lit @ encode_rune (peekRune l)) ?l1 = Done (ps, l')"
        by (subst (asm) scan_template.simps) (simp add: Let_def)
      with IH(3) [OF False 4(1) refl refl 4(2,3) e] advance_le [of l] show ?thesis by simp
    qed
  qed
qed

text \<open>The size of a token bounds what its text holds, nested expressions included.\<close>

definition tok_size :: "token \<Rightarrow> nat" where
  "tok_size t = (case t_kind t of TTemplate ps \<Rightarrow> sum_list (map part_size ps) + 1 | _ \<Rightarrow> 1)"

lemma tok_fields [simp]: "t_kind (tok k l l') = k" "tok_size (t\<lparr>t_text := x\<rparr>) = tok_size t"
  by (simp_all add: tok_def tok_size_def)

lemma tok_size_pos [simp]: "0 < tok_size t"
  by (simp add: tok_size_def split: tokenKind.splits)

lemma scan_number_less:
  assumes "l_src l \<noteq> []" "0x30 \<le> peekRune l \<and> peekRune l \<le> 0x39 \<or> peekRune l = 0x2E"
  shows "length (l_src (scan_number l)) < length (l_src l)"
proof -
  have r: "byte (hd (l_src l)) = peekRune l"
    using decode_below(1) [of "l_src l"] assms by (auto simp: peekRune_def)
  have "hd (l_src l) = CHR ''.''" if "peekRune l = 0x2E"
  proof -
    have "of_char (hd (l_src l)) = (of_char CHR ''.'' :: nat)" using r that by (simp add: byte_def)
    then show ?thesis unfolding of_char_eq_iff .
  qed
  then have "digit_byte (next_byte l) \<or> next_byte l = Some CHR ''.''"
    using assms r by (cases "l_src l") (auto simp: digit_byte_def next_byte_def is_digit_def byte_def)
  then have "scan_number l = scan_number (advance l)" by (subst scan_number.simps) simp
  then show ?thesis using scan_number_le [of "advance l"] advance_less [OF assms(1)] by simp
qed

lemma scan_ident_less:
  assumes "l_src l \<noteq> []" "ident_start U (peekRune l)"
  shows "length (l_src (scan_ident U l)) < length (l_src l)"
proof -
  have "scan_ident U l = scan_ident U (advance l)" using assms by (subst scan_ident.simps) simp
  then show ?thesis using scan_ident_le [of U "advance l"] advance_less [OF assms(1)] by simp
qed

lemma punctuator_nonempty: "punctuator l = Some p \<Longrightarrow> 0 < length p"
  by (auto simp: punctuator_def punctuators_def find_Some_iff2 split: if_splits)

lemma lex_token_size:
  assumes ne: "l_src l \<noteq> []" and t: "lex_token U l = Done (t, l')"
  shows "tok_size t + length (l_src l') \<le> length (l_src l) \<and> t_kind t \<noteq> TEof"
proof -
  have a: "length (l_src (advance l)) < length (l_src l)" using ne by (rule advance_less)
  let ?r = "peekRune l"
  consider (num) "0x30 \<le> ?r \<and> ?r \<le> 0x39 \<or> ?r = 0x2E \<and> 1 < length (l_src l) \<and> is_digit (l_src l ! 1)"
    | (str) "\<not> (0x30 \<le> ?r \<and> ?r \<le> 0x39 \<or> ?r = 0x2E \<and> 1 < length (l_src l) \<and> is_digit (l_src l ! 1))" "?r = 0x27 \<or> ?r = 0x22"
    | (tem) "\<not> (0x30 \<le> ?r \<and> ?r \<le> 0x39 \<or> ?r = 0x2E \<and> 1 < length (l_src l) \<and> is_digit (l_src l ! 1))" "?r = 0x60"
    | (ide) "\<not> (0x30 \<le> ?r \<and> ?r \<le> 0x39 \<or> ?r = 0x2E \<and> 1 < length (l_src l) \<and> is_digit (l_src l ! 1))" "?r \<noteq> 0x27 \<and> ?r \<noteq> 0x22 \<and> ?r \<noteq> 0x60" "ident_start U ?r"
    | (pun) "\<not> (0x30 \<le> ?r \<and> ?r \<le> 0x39 \<or> ?r = 0x2E \<and> 1 < length (l_src l) \<and> is_digit (l_src l ! 1))" "?r \<noteq> 0x27 \<and> ?r \<noteq> 0x22 \<and> ?r \<noteq> 0x60" "\<not> ident_start U ?r"
    by blast
  then show ?thesis
  proof cases
    case num
    then have "length (l_src (scan_number l)) < length (l_src l)" using scan_number_less [OF ne] by blast
    with t num show ?thesis by (auto simp: lex_token_def Let_def tok_size_def split: option.splits)
  next
    case str
    with t obtain s where "scan_string (pos l) ?r (advance l) = Done (s, l')" "t = tok (TString s) l l'"
      unfolding lex_token_def Let_def by auto
    with scan_string_le a show ?thesis by (fastforce simp: tok_size_def)
  next
    case tem
    with t obtain ps where "scan_template (pos l) [] (advance l) = Done (ps, l')" "t = (tok (TTemplate ps) l l')\<lparr>t_text := ''TEMPLATE_LITERAL''\<rparr>"
      unfolding lex_token_def Let_def by auto
    with scan_template_le a show ?thesis by (fastforce simp: tok_size_def)
  next
    case ide
    then have e: "t = tok TIdent l l'" "l' = scan_ident U l" using t unfolding lex_token_def Let_def by auto
    then show ?thesis using scan_ident_less [OF ne ide(3)] by (simp add: tok_size_def)
  next
    case pun
    with t obtain p where p: "punctuator l = Some p" "l' = (advance ^^ length p) l" "t = tok TPunct l l'"
      unfolding lex_token_def Let_def by (auto split: option.splits)
    with lex_advance_funpow_less [OF punctuator_nonempty [OF p(1)] ne] show ?thesis by (simp add: tok_size_def)
  qed
qed

lemma skip_blank_le: "skip_blank l = Done l' \<Longrightarrow> length (l_src l') \<le> length (l_src l)"
proof (induction l arbitrary: l' rule: skip_blank.induct)
  case (1 l)
  note IH = 1(1-3)
  consider "l_src l = []" | "l_src l \<noteq> []" "is_space (peekRune l)" | "l_src l \<noteq> []" "\<not> is_space (peekRune l)" "starts ''//'' l"
    | "l_src l \<noteq> []" "\<not> is_space (peekRune l)" "\<not> starts ''//'' l" "starts ''/*'' l"
    | "l_src l \<noteq> []" "\<not> is_space (peekRune l)" "\<not> starts ''//'' l" "\<not> starts ''/*'' l" by blast
  then show ?case
  proof cases
    case 2
    with "1.prems" IH(1) [OF 2] advance_le [of l] show ?thesis by (subst (asm) skip_blank.simps) force
  next
    case 3
    with "1.prems" IH(2) [OF 3] advance_le [of l] skip_line_le [of "advance l"] show ?thesis
      by (subst (asm) skip_blank.simps) force
  next
    case 4
    with "1.prems" obtain l2 where l2: "skip_comment (advance (advance l)) = Some l2" "skip_blank l2 = Done l'"
      by (subst (asm) skip_blank.simps) (auto split: option.splits)
    with IH(3) [OF 4 l2] skip_comment_le [OF l2(1)] advance_le [of l] advance_le [of "advance l"] show ?thesis by simp
  qed (use "1.prems" in \<open>subst (asm) skip_blank.simps, simp\<close>)+
qed

function lex_from :: "unicode \<Rightarrow> lexer \<Rightarrow> (jexpr_error, token list) outcome" where
  "lex_from U l =
     (case skip_blank l of
        Crash \<Rightarrow> Crash
      | Fail e \<Rightarrow> Fail e
      | Done l1 \<Rightarrow>
          if l_src l1 = [] then Done [\<lparr>t_kind = TEof, t_text = ''EOF'', t_pos = pos l1, t_end = l_off l1\<rparr>]
          else (case lex_token U l1 of
                  Crash \<Rightarrow> Crash
                | Fail e \<Rightarrow> Fail e
                | Done (t, l2) \<Rightarrow> omap (Cons t) (lex_from U l2)))"
  by pat_completeness auto
termination
proof (relation "measure (\<lambda>(U, l). length (l_src l))", goal_cases)
  case (2 U l l1 x t l2)
  then show ?case
    using lex_token_size [of l1 U t l2] skip_blank_le [of l l1] tok_size_pos [of t] by (simp del: tok_size_pos)
qed simp

declare lex_from.simps [simp del]

definition lex :: "unicode \<Rightarrow> string \<Rightarrow> Pos \<Rightarrow> (jexpr_error, token list) outcome" where
  "lex U src base = lex_from U (lexer_at src base)"

end
