(* ===== verification/JexprParse.thy ===== *)
theory JexprParse
  imports JexprLex
begin

text \<open>
  The recursive-descent parser of Jira expressions (\<open>internal/jexpr/parse.go\<close>). Its state is the tokens not
  read yet with the last one that was. The functions take what parses a nested expression, and what parses
  an expression inside a template, as arguments; \<open>expression\<close> and \<open>parseAt\<close> tie the knot with fuel, as much
  as the source has bytes and two.
\<close>

section \<open>The parser's state\<close>

text \<open>The token to read next, the ones after it and the one before it. The last token is never passed.\<close>

record parser =
  p_prev :: "token option"
  p_tok :: token
  p_rest :: "token list"

type_synonym 'a parsed = "(jexpr_error, 'a \<times> parser) outcome"

definition peekAt :: "nat \<Rightarrow> parser \<Rightarrow> token" where
  "peekAt n p = (let ts = p_tok p # p_rest p in if n < length ts then ts ! n else last ts)"

definition next_state :: "parser \<Rightarrow> parser" where
  "next_state p = (case p_rest p of [] \<Rightarrow> p | t # ts \<Rightarrow> \<lparr>p_prev = Some (p_tok p), p_tok = t, p_rest = ts\<rparr>)"

definition is_punct :: "string \<Rightarrow> token \<Rightarrow> bool" where
  "is_punct text t \<longleftrightarrow> t_kind t = TPunct \<and> t_text t = text"

definition isPunct :: "string \<Rightarrow> parser \<Rightarrow> bool" where
  "isPunct text p = is_punct text (p_tok p)"

definition isWord :: "string \<Rightarrow> parser \<Rightarrow> bool" where
  "isWord word p \<longleftrightarrow> t_kind (p_tok p) = TIdent \<and> t_text (p_tok p) = word"

definition expected :: "string \<Rightarrow> parser \<Rightarrow> (jexpr_error, 'a) outcome" where
  "expected what p = Fail (SyntaxError (t_pos (p_tok p)) ''%s expected, %s encountered.'' [what, t_text (p_tok p)])"

definition expect :: "string \<Rightarrow> parser \<Rightarrow> token parsed" where
  "expect text p = (if isPunct text p then Done (p_tok p, next_state p) else expected text p)"

definition last_token :: "parser \<Rightarrow> token" where
  "last_token p = (case p_prev p of None \<Rightarrow> p_tok p | Some t \<Rightarrow> t)"

definition spanFrom :: "Pos \<Rightarrow> token \<Rightarrow> span" where
  "spanFrom start t = \<lparr>sp_start = start, sp_end = t_end t\<rparr>"

definition span_to :: "Pos \<Rightarrow> Node \<Rightarrow> span" where
  "span_to start n = \<lparr>sp_start = start, sp_end = sp_end (Span n)\<rparr>"

definition tokens_left :: "parser \<Rightarrow> nat" where
  "tokens_left p = length (p_rest p) + 1"

definition primaryExpectation :: string where
  "primaryExpectation = ''!, -, typeof, (, IDENTIFIER, null, true, false, NUMBER, STRING, TEMPLATE_LITERAL, new, [ or {''"

section \<open>Arrow functions\<close>

text \<open>The tokens after the bracket that closes the one the list starts with.\<close>

fun closing_from :: "int \<Rightarrow> token list \<Rightarrow> token list option" where
  "closing_from depth [] = None"
| "closing_from depth (t # ts) =
     (if t_kind t = TEof then None
      else if is_punct ''('' t then closing_from (depth + 1) ts
      else if is_punct '')'' t then (if depth = 1 then Some ts else closing_from (depth - 1) ts)
      else closing_from depth ts)"

definition parameters_ahead :: "parser \<Rightarrow> bool" where
  "parameters_ahead p \<longleftrightarrow> isPunct ''('' p \<and>
     (case closing_from 0 (p_tok p # p_rest p) of Some (t # _) \<Rightarrow> is_punct ''=>'' t | _ \<Rightarrow> False)"

text \<open>The names up to the closing bracket, which is not read.\<close>

fun parameters :: "nat \<Rightarrow> parser \<Rightarrow> string list parsed" where
  "parameters 0 p = Crash"
| "parameters (Suc n) p =
     (if isPunct '')'' p then Done ([], p)
      else if t_kind (p_tok p) \<noteq> TIdent then expected ''IDENTIFIER'' p
      else
        let p1 = next_state p
        in if isPunct '','' p1 then
             omap (\<lambda>(ns, q). (t_text (p_tok p) # ns, q)) (parameters n (next_state p1))
           else if \<not> isPunct '')'' p1 then expected '', or )'' p1
           else Done ([t_text (p_tok p)], p1))"

type_synonym expression_parser = "parser \<Rightarrow> Node parsed"

text \<open>\<open>E\<close> parses a nested expression. The result is none when no arrow function starts here.\<close>

definition arrow_body :: "expression_parser \<Rightarrow> Pos \<Rightarrow> string list \<Rightarrow> parser \<Rightarrow> Node parsed" where
  "arrow_body E start ns p = omap (\<lambda>(b, q). (Arrow (span_to start b) ns b, q)) (E p)"

definition arrow :: "expression_parser \<Rightarrow> parser \<Rightarrow> Node parsed option" where
  "arrow E p =
     (let t = p_tok p
      in if t_kind t = TIdent \<and> is_punct ''=>'' (peekAt 1 p)
         then Some (arrow_body E (t_pos t) [t_text t] (next_state (next_state p)))
         else if parameters_ahead p
         then Some (obind (parameters (tokens_left p) (next_state p)) (\<lambda>(ns, p1).
                arrow_body E (t_pos t) ns (next_state (next_state p1))))
         else None)"

section \<open>Lists of expressions\<close>

definition element :: "expression_parser \<Rightarrow> parser \<Rightarrow> Node parsed" where
  "element E p =
     (if isPunct ''...'' p
      then omap (\<lambda>(x, q). (Spread (span_to (t_pos (p_tok p)) x) x, q)) (E (next_state p))
      else E p)"

text \<open>Elements up to the closing token, which is not read.\<close>

fun elements :: "string \<Rightarrow> expression_parser \<Rightarrow> nat \<Rightarrow> parser \<Rightarrow> Node list parsed" where
  "elements close E 0 p = Crash"
| "elements close E (Suc n) p =
     (if isPunct close p then Done ([], p)
      else obind (element E p) (\<lambda>(x, p1).
        if isPunct '','' p1 then omap (\<lambda>(xs, q). (x # xs, q)) (elements close E n (next_state p1))
        else if \<not> isPunct close p1 then expected ('', or '' @ close) p1
        else Done ([x], p1)))"

definition arguments :: "expression_parser \<Rightarrow> parser \<Rightarrow> Node list parsed" where
  "arguments E p =
     obind (expect ''('' p) (\<lambda>(_, p1).
       omap (\<lambda>(xs, q). (xs, next_state q)) (elements '')'' E (tokens_left p1) p1))"

definition property_name :: "token \<Rightarrow> string option" where
  "property_name t =
     (case t_kind t of
        TIdent \<Rightarrow> Some (t_text t)
      | TString s \<Rightarrow> Some s
      | TNumber x \<Rightarrow> Some (format_number x)
      | _ \<Rightarrow> None)"

definition property :: "expression_parser \<Rightarrow> parser \<Rightarrow> Property parsed" where
  "property E p =
     (if isPunct ''...'' p then omap (\<lambda>(x, q). (Property [] x True, q)) (E (next_state p))
      else
        let key = p_tok p; p1 = next_state p
        in (case property_name key of
              None \<Rightarrow> expected ''IDENTIFIER, STRING or NUMBER'' p
            | Some name \<Rightarrow>
                if isPunct '':'' p1 then omap (\<lambda>(x, q). (Property name x False, q)) (E (next_state p1))
                else if t_kind key = TIdent then Done (Property name (Ident (spanFrom (t_pos key) key) name) False, p1)
                else expected '':'' p1))"

fun properties :: "expression_parser \<Rightarrow> nat \<Rightarrow> parser \<Rightarrow> Property list parsed" where
  "properties E 0 p = Crash"
| "properties E (Suc n) p =
     (if isPunct ''}'' p then Done ([], p)
      else obind (property E p) (\<lambda>(x, p1).
        if isPunct '','' p1 then omap (\<lambda>(xs, q). (x # xs, q)) (properties E n (next_state p1))
        else if \<not> isPunct ''}'' p1 then expected '', or }'' p1
        else Done ([x], p1)))"

section \<open>Operators\<close>

text \<open>\<open>A\<close> parses the expression of a template.\<close>

type_synonym source_parser = "string \<Rightarrow> Pos \<Rightarrow> (jexpr_error, Node) outcome"

fun template_exprs :: "source_parser \<Rightarrow> templatePart list \<Rightarrow> (jexpr_error, Node list) outcome" where
  "template_exprs A [] = Done []"
| "template_exprs A (LiteralPart _ # ps) = template_exprs A ps"
| "template_exprs A (ExprPart s i # ps) = obind (A s i) (\<lambda>x. omap (Cons x) (template_exprs A ps))"

definition template_strings :: "templatePart list \<Rightarrow> string list" where
  "template_strings ps = concat (map (\<lambda>x. case x of LiteralPart s \<Rightarrow> [s] | ExprPart _ _ \<Rightarrow> []) ps)"

definition primary_word :: "expression_parser \<Rightarrow> parser \<Rightarrow> Node parsed" where
  "primary_word E p =
     (let t = p_tok p; p1 = next_state p
      in if t_text t = ''true'' \<or> t_text t = ''false'' then
           Done (Literal (spanFrom (t_pos t) t) (LBool (t_text t = ''true'')), p1)
         else if t_text t = ''null'' then Done (Literal (spanFrom (t_pos t) t) LNull, p1)
         else if t_text t = ''new'' then
           (if t_kind (p_tok p1) \<noteq> TIdent then expected ''IDENTIFIER'' p1
            else
              let p2 = next_state p1
              in obind (if isPunct ''('' p2 then arguments E p2 else Done ([], p2)) (\<lambda>(xs, p3).
                   Done (New (spanFrom (t_pos t) (last_token p3)) (t_text (p_tok p1)) xs, p3)))
         else Done (Ident (spanFrom (t_pos t) t) (t_text t), p1))"

definition primary_punct :: "expression_parser \<Rightarrow> parser \<Rightarrow> Node parsed" where
  "primary_punct E p =
     (let t = p_tok p; p1 = next_state p
      in if t_text t = ''('' then
           obind (E p1) (\<lambda>(x, p2). obind (expect '')'' p2) (\<lambda>(_, p3). Done (x, p3)))
         else if t_text t = ''['' then
           obind (elements '']'' E (tokens_left p1) p1) (\<lambda>(xs, p2).
             Done (ArrayLit (spanFrom (t_pos t) (p_tok p2)) xs, next_state p2))
         else if t_text t = ''{'' then
           obind (properties E (tokens_left p1) p1) (\<lambda>(xs, p2).
             Done (ObjectLit (spanFrom (t_pos t) (p_tok p2)) xs, next_state p2))
         else expected primaryExpectation p)"

definition primary :: "expression_parser \<Rightarrow> source_parser \<Rightarrow> parser \<Rightarrow> Node parsed" where
  "primary E A p =
     (let t = p_tok p; sp = spanFrom (t_pos t) t
      in case t_kind t of
           TNumber x \<Rightarrow> Done (Literal sp (LNumber x), next_state p)
         | TString s \<Rightarrow> Done (Literal sp (LString s), next_state p)
         | TTemplate ps \<Rightarrow> omap (\<lambda>xs. (Template sp (template_strings ps) xs, next_state p)) (template_exprs A ps)
         | TIdent \<Rightarrow> primary_word E p
         | TPunct \<Rightarrow> primary_punct E p
         | TEof \<Rightarrow> expected primaryExpectation p)"

text \<open>One member, index or call after an expression; none when nothing of it follows.\<close>

definition member_name :: "bool \<Rightarrow> Node \<Rightarrow> parser \<Rightarrow> Node parsed" where
  "member_name opt node p =
     (if t_kind (p_tok p) \<noteq> TIdent then expected ''IDENTIFIER'' p
      else Done (Member (spanFrom (sp_start (Span node)) (p_tok p)) node (t_text (p_tok p)) opt, next_state p))"

definition index_key :: "expression_parser \<Rightarrow> bool \<Rightarrow> Node \<Rightarrow> parser \<Rightarrow> Node parsed" where
  "index_key E opt node p =
     obind (E p) (\<lambda>(key, p1). obind (expect '']'' p1) (\<lambda>(t, p2).
       Done (Index (spanFrom (sp_start (Span node)) t) node key opt, p2)))"

definition call_arguments :: "expression_parser \<Rightarrow> bool \<Rightarrow> Node \<Rightarrow> parser \<Rightarrow> Node parsed" where
  "call_arguments E opt node p =
     obind (arguments E p) (\<lambda>(xs, q). Done (Call (spanFrom (sp_start (Span node)) (last_token q)) node xs opt, q))"

definition postfix_step :: "expression_parser \<Rightarrow> Node \<Rightarrow> parser \<Rightarrow> Node parsed option" where
  "postfix_step E node p =
     (let p1 = next_state p
      in if isPunct ''.'' p then Some (member_name False node p1)
         else if isPunct ''?.'' p then
           Some (if isPunct ''('' p1 then call_arguments E True node p1
                 else if isPunct ''['' p1 then index_key E True node (next_state p1)
                 else member_name True node p1)
         else if isPunct ''['' p then Some (index_key E False node p1)
         else if isPunct ''('' p then Some (call_arguments E False node p)
         else None)"

fun postfix_from :: "expression_parser \<Rightarrow> nat \<Rightarrow> Node \<Rightarrow> parser \<Rightarrow> Node parsed" where
  "postfix_from E 0 node p = Crash"
| "postfix_from E (Suc n) node p =
     (case postfix_step E node p of
        None \<Rightarrow> Done (node, p)
      | Some m \<Rightarrow> obind m (\<lambda>(x, q). postfix_from E n x q))"

definition postfix :: "expression_parser \<Rightarrow> source_parser \<Rightarrow> parser \<Rightarrow> Node parsed" where
  "postfix E A p = obind (primary E A p) (\<lambda>(x, q). postfix_from E (tokens_left q) x q)"

definition unary_operator :: "parser \<Rightarrow> bool" where
  "unary_operator p \<longleftrightarrow> isPunct ''!'' p \<or> isPunct ''-'' p \<or> isPunct ''+'' p \<or> isWord ''typeof'' p"

fun unary :: "expression_parser \<Rightarrow> source_parser \<Rightarrow> nat \<Rightarrow> parser \<Rightarrow> Node parsed" where
  "unary E A 0 p = Crash"
| "unary E A (Suc n) p =
     (if unary_operator p
      then omap (\<lambda>(x, q). (Unary (span_to (t_pos (p_tok p)) x) (t_text (p_tok p)) x, q)) (unary E A n (next_state p))
      else postfix E A p)"

text \<open>The levels of binary operators, the loosest first.\<close>

definition levels :: "string list list" where
  "levels = [[''??''], [''||''], [''&&''], [''==='', ''!=='', ''=='', ''!=''], [''<='', ''>='', ''<'', ''>''],
     [''+'', ''-''], [''*'', ''/'', ''%'']]"

fun binary_from :: "string list \<Rightarrow> (parser \<Rightarrow> Node parsed) \<Rightarrow> nat \<Rightarrow> Node \<Rightarrow> parser \<Rightarrow> Node parsed" where
  "binary_from ops operand 0 l p = Crash"
| "binary_from ops operand (Suc n) l p =
     (case find (\<lambda>w. isPunct w p) ops of
        None \<Rightarrow> Done (l, p)
      | Some op \<Rightarrow> obind (operand (next_state p)) (\<lambda>(r, q).
          binary_from ops operand n (Binary (span_to (sp_start (Span l)) r) op l r) q))"

fun binaryLevel :: "expression_parser \<Rightarrow> source_parser \<Rightarrow> string list list \<Rightarrow> parser \<Rightarrow> Node parsed" where
  "binaryLevel E A [] p = unary E A (tokens_left p) p"
| "binaryLevel E A (ops # lower) p =
     obind (binaryLevel E A lower p) (\<lambda>(l, q). binary_from ops (binaryLevel E A lower) (tokens_left q) l q)"

definition conditional :: "expression_parser \<Rightarrow> source_parser \<Rightarrow> parser \<Rightarrow> Node parsed" where
  "conditional E A p =
     obind (binaryLevel E A levels p) (\<lambda>(test, p1).
       if \<not> isPunct ''?'' p1 then Done (test, p1)
       else obind (E (next_state p1)) (\<lambda>(yes, p2).
         obind (expect '':'' p2) (\<lambda>(_, p3).
         obind (E p3) (\<lambda>(no, p4).
           Done (Conditional (span_to (sp_start (Span test)) no) test yes no, p4)))))"

section \<open>Expressions\<close>

definition expression_step :: "expression_parser \<Rightarrow> source_parser \<Rightarrow> parser \<Rightarrow> Node parsed" where
  "expression_step E A p = (case arrow E p of Some m \<Rightarrow> m | None \<Rightarrow> conditional E A p)"

definition parse_all :: "expression_parser \<Rightarrow> token list \<Rightarrow> (jexpr_error, Node) outcome" where
  "parse_all E ts =
     (case ts of
        [] \<Rightarrow> Crash
      | t # r \<Rightarrow>
          let p = \<lparr>p_prev = None, p_tok = t, p_rest = r\<rparr>
          in if t_kind t = TEof then expected primaryExpectation p
             else obind (E p) (\<lambda>(x, q). if t_kind (p_tok q) = TEof then Done x else expected ''EOF'' q))"

fun expression :: "unicode \<Rightarrow> nat \<Rightarrow> parser \<Rightarrow> Node parsed"
  and parseAt :: "unicode \<Rightarrow> nat \<Rightarrow> string \<Rightarrow> Pos \<Rightarrow> (jexpr_error, Node) outcome"
where
  "expression U 0 p = Crash"
| "expression U (Suc n) p = expression_step (expression U n) (parseAt U n) p"
| "parseAt U 0 src base = Crash"
| "parseAt U (Suc n) src base = obind (lex U src base) (parse_all (expression U n))"

definition Parse :: "unicode \<Rightarrow> string \<Rightarrow> (jexpr_error, Node) outcome" where
  "Parse U src = parseAt U (length src + 2) src \<lparr>pos_offset = 0, pos_line = 1, pos_column = 1\<rparr>"

end
