(* ===== verification/JexprTotal.thy ===== *)
theory JexprTotal
  imports JexprParse
begin

text \<open>
  The parser of Jira expressions answers every text with an expression or a syntax error: its fuel, the bytes
  of the source and two, is always enough, the expressions inside templates included.
\<close>

section \<open>Progress\<close>

definition ended :: "parser \<Rightarrow> bool" where
  "ended p \<longleftrightarrow> t_kind (last (p_tok p # p_rest p)) = TEof"

definition size_left :: "parser \<Rightarrow> nat" where
  "size_left p = sum_list (map tok_size (p_tok p # p_rest p))"

definition follows :: "parser \<Rightarrow> parser \<Rightarrow> bool" where
  "follows p q \<longleftrightarrow> ended q \<and> size_left q \<le> size_left p \<and> tokens_left q \<le> tokens_left p"

definition reads :: "parser \<Rightarrow> parser \<Rightarrow> bool" where
  "reads p q \<longleftrightarrow> ended q \<and> size_left q < size_left p \<and> tokens_left q < tokens_left p"

lemma moves_trans [trans]:
  "follows p q \<Longrightarrow> follows q r \<Longrightarrow> follows p r" "reads p q \<Longrightarrow> follows q r \<Longrightarrow> reads p r"
  "follows p q \<Longrightarrow> reads q r \<Longrightarrow> reads p r" "reads p q \<Longrightarrow> reads q r \<Longrightarrow> reads p r"
  by (auto simp: follows_def reads_def)

lemma moves_ended: "follows p q \<Longrightarrow> ended q" "reads p q \<Longrightarrow> ended q"
  by (simp_all add: follows_def reads_def)

lemma follows_self: "ended p \<Longrightarrow> follows p p"
  by (simp add: follows_def)

lemma reading_follows: "reads p q \<Longrightarrow> follows p q"
  by (simp add: follows_def reads_def)

lemma read_before: "reads p q \<Longrightarrow> follows q r \<Longrightarrow> follows p r"
  by (simp add: follows_def reads_def)

lemma next_reads: "ended p \<Longrightarrow> t_kind (p_tok p) \<noteq> TEof \<Longrightarrow> reads p (next_state p)"
  by (cases "p_rest p") (auto simp: ended_def reads_def next_state_def size_left_def tokens_left_def)

lemma next_follows: "ended p \<Longrightarrow> follows p (next_state p)"
  by (cases "p_rest p") (auto simp: ended_def follows_def next_state_def size_left_def tokens_left_def)

lemma punct_reads: "ended p \<Longrightarrow> isPunct w p \<Longrightarrow> reads p (next_state p)"
  by (rule next_reads) (auto simp: isPunct_def is_punct_def)

text \<open>A step that makes progress does not run out of fuel and has read a token when it answers; one that is
  steady has gone nowhere back.\<close>

definition progress :: "parser \<Rightarrow> 'a parsed \<Rightarrow> bool" where
  "progress p m \<longleftrightarrow> m \<noteq> Crash \<and> (\<forall>x q. m = Done (x, q) \<longrightarrow> reads p q)"

definition steady :: "parser \<Rightarrow> 'a parsed \<Rightarrow> bool" where
  "steady p m \<longleftrightarrow> m \<noteq> Crash \<and> (\<forall>x q. m = Done (x, q) \<longrightarrow> follows p q)"

lemma progress_Done: "reads p q \<Longrightarrow> progress p (Done (x, q))"
  by (simp add: progress_def)

lemma progress_expected: "progress p (expected w q)" "steady p (expected w q)"
  by (simp_all add: progress_def steady_def expected_def)

lemma progress_steady: "progress p m \<Longrightarrow> steady p m"
  by (auto simp: progress_def steady_def reading_follows)

lemma progress_after: "steady q m \<Longrightarrow> reads p q \<Longrightarrow> progress p m" "progress q m \<Longrightarrow> follows p q \<Longrightarrow> progress p m"
  by (auto simp: progress_def steady_def intro: moves_trans)

lemma progress_bind:
  "progress p m \<Longrightarrow> (\<And>x q. m = Done (x, q) \<Longrightarrow> reads p q \<Longrightarrow> progress p (f (x, q))) \<Longrightarrow> progress p (obind m f)"
  by (cases m) (auto simp: progress_def)

lemma progress_omap:
  "progress p m \<Longrightarrow> (\<And>x q. reads p q \<Longrightarrow> reads p (snd (f (x, q)))) \<Longrightarrow> progress p (omap f m)"
  by (cases m) (auto simp: progress_def, metis prod.collapse sndI)

lemma progress_if: "(b \<Longrightarrow> progress p m) \<Longrightarrow> (\<not> b \<Longrightarrow> progress p n) \<Longrightarrow> progress p (if b then m else n)"
  by simp

lemma expect_progress: "ended p \<Longrightarrow> progress p (expect w p)"
  using punct_reads by (auto simp: expect_def progress_expected progress_Done)

lemma expect_after:
  "reads p q \<Longrightarrow> (\<And>t r. reads p r \<Longrightarrow> progress p (f (t, r))) \<Longrightarrow> progress p (obind (expect w q) f)"
  using progress_after(2) [OF expect_progress reading_follows] moves_ended(2) by (auto intro: progress_bind)

text \<open>The parser of nested expressions is good at a place when it makes progress from every later one.\<close>

definition good :: "parser \<Rightarrow> expression_parser \<Rightarrow> bool" where
  "good p E \<longleftrightarrow> (\<forall>q. reads p q \<longrightarrow> progress q (E q))"

lemma goodD: "good p E \<Longrightarrow> reads p q \<Longrightarrow> progress q (E q)"
  by (simp add: good_def)

lemma good_later: "good p E \<Longrightarrow> follows p q \<Longrightarrow> good q E"
  by (auto simp: good_def intro: moves_trans)

lemma good_here: "good p E \<Longrightarrow> reads p q \<Longrightarrow> progress p (E q)"
  using progress_after(2) reading_follows goodD by blast

definition good_source :: "parser \<Rightarrow> source_parser \<Rightarrow> bool" where
  "good_source p A \<longleftrightarrow> (\<forall>s i. length s + 3 \<le> size_left p \<longrightarrow> A s i \<noteq> Crash)"

lemma good_source_later: "good_source p A \<Longrightarrow> follows p q \<Longrightarrow> good_source q A"
  by (auto simp: good_source_def follows_def)

section \<open>Lists\<close>

lemma parameters_steady:
  "ended p \<Longrightarrow> tokens_left p \<le> n \<Longrightarrow>
   steady p (parameters n p) \<and> (\<forall>ns q. parameters n p = Done (ns, q) \<longrightarrow> isPunct '')'' q)"
proof (induction n arbitrary: p)
  case (Suc n)
  have name: "reads p (next_state p)" if "t_kind (p_tok p) = TIdent"
    using next_reads [OF Suc.prems(1)] that by simp
  have more: "steady p (parameters n (next_state (next_state p))) \<and>
      (\<forall>ns q. parameters n (next_state (next_state p)) = Done (ns, q) \<longrightarrow> isPunct '')'' q)"
    if "t_kind (p_tok p) = TIdent" "isPunct '','' (next_state p)"
  proof -
    have r: "reads p (next_state (next_state p))"
      using moves_trans(4) [OF name punct_reads] moves_ended(2) name that by blast
    with Suc.prems(2) have "steady (next_state (next_state p)) (parameters n (next_state (next_state p))) \<and>
      (\<forall>ns q. parameters n (next_state (next_state p)) = Done (ns, q) \<longrightarrow> isPunct '')'' q)"
      by (intro Suc.IH) (auto simp: reads_def)
    with r show ?thesis
      by (auto simp: steady_def intro: read_before)
  qed
  show ?case
    using name more follows_self [OF Suc.prems(1)]
    by (auto simp: Let_def steady_def expected_def reading_follows)
qed (simp add: tokens_left_def)

lemma element_progress: "ended p \<Longrightarrow> good p E \<Longrightarrow> progress p (E p) \<Longrightarrow> progress p (element E p)"
  unfolding element_def by (cases "isPunct ''...'' p") (auto intro!: progress_omap intro: good_here punct_reads)

text \<open>A list of things up to a closing token.\<close>

lemma listed:
  assumes e: "ended p" and x: "progress p m"
    and more: "\<And>q. reads p q \<Longrightarrow> isPunct '','' q \<Longrightarrow>
      steady (next_state q) (r (next_state q)) \<and> (\<forall>xs s. r (next_state q) = Done (xs, s) \<longrightarrow> isPunct close s)"
  shows "steady p (obind m (\<lambda>(x, p1).
        if isPunct '','' p1 then omap (\<lambda>(xs, q). (x # xs, q)) (r (next_state p1))
        else if \<not> isPunct close p1 then expected w p1
        else Done ([x], p1))) \<and>
    (\<forall>xs q. obind m (\<lambda>(x, p1).
        if isPunct '','' p1 then omap (\<lambda>(xs, q). (x # xs, q)) (r (next_state p1))
        else if \<not> isPunct close p1 then expected w p1
        else Done ([x], p1)) = Done (xs, q) \<longrightarrow> isPunct close q)"
proof (cases m)
  case (Done xq)
  obtain y p1 where xq: "xq = (y, p1)" by (cases xq)
  have r: "reads p p1" using x Done xq by (simp add: progress_def)
  have n: "reads p (next_state p1)" if "isPunct '','' p1"
    using moves_trans(4) [OF r punct_reads] moves_ended(2) [OF r] that by blast
  show ?thesis
    using more [OF r] n reading_follows [OF r]
    by (auto simp: Done xq steady_def expected_def intro: read_before)
qed (use x in \<open>auto simp: progress_def steady_def\<close>)

lemma elements_steady:
  "ended p \<Longrightarrow> tokens_left p \<le> n \<Longrightarrow> good p E \<Longrightarrow> progress p (E p) \<Longrightarrow>
   steady p (elements close E n p) \<and> (\<forall>xs q. elements close E n p = Done (xs, q) \<longrightarrow> isPunct close q)"
proof (induction n arbitrary: p)
  case (Suc n)
  show ?case
  proof (cases "isPunct close p")
    case True
    with follows_self [OF Suc.prems(1)] show ?thesis by (simp add: steady_def)
  next
    case False
    show ?thesis
      unfolding elements.simps if_not_P [OF False]
    proof (rule listed [OF Suc.prems(1) element_progress [OF Suc.prems(1,3,4)]])
      fix q assume q: "reads p q" "isPunct '','' q"
      have r: "reads p (next_state q)" using moves_trans(4) [OF q(1) punct_reads] moves_ended(2) q by blast
      then show "steady (next_state q) (elements close E n (next_state q)) \<and>
          (\<forall>xs s. elements close E n (next_state q) = Done (xs, s) \<longrightarrow> isPunct close s)"
        using Suc.prems(2) good_later [OF Suc.prems(3) reading_follows [OF r]] goodD [OF Suc.prems(3) r]
        by (intro Suc.IH) (auto simp: reads_def)
    qed
  qed
qed (simp add: tokens_left_def)

lemma property_progress: "ended p \<Longrightarrow> good p E \<Longrightarrow> progress p (property E p)"
proof (cases "isPunct ''...'' p")
  case True
  assume "ended p" "good p E"
  with True show ?thesis by (auto simp: property_def intro!: progress_omap intro: good_here punct_reads)
next
  case False
  assume e: "ended p" and g: "good p E"
  have n: "reads p (next_state p)" if "property_name (p_tok p) = Some x" for x
    using next_reads [OF e] that by (cases "t_kind (p_tok p)") (auto simp: property_name_def)
  have c: "reads p (next_state (next_state p))" if "property_name (p_tok p) = Some x" "isPunct '':'' (next_state p)" for x
    using moves_trans(4) [OF n punct_reads] moves_ended(2) n that by blast
  show ?thesis
    unfolding property_def Let_def if_not_P [OF False]
    by (auto split: option.split intro!: progress_if progress_omap progress_expected progress_Done n dest: c intro: good_here [OF g])
qed

lemma properties_steady:
  "ended p \<Longrightarrow> tokens_left p \<le> n \<Longrightarrow> good p E \<Longrightarrow>
   steady p (properties E n p) \<and> (\<forall>xs q. properties E n p = Done (xs, q) \<longrightarrow> isPunct ''}'' q)"
proof (induction n arbitrary: p)
  case (Suc n)
  show ?case
  proof (cases "isPunct ''}'' p")
    case True
    with follows_self [OF Suc.prems(1)] show ?thesis by (simp add: steady_def)
  next
    case False
    show ?thesis
      unfolding properties.simps if_not_P [OF False]
    proof (rule listed [OF Suc.prems(1) property_progress [OF Suc.prems(1,3)]])
      fix q assume q: "reads p q" "isPunct '','' q"
      have r: "reads p (next_state q)" using moves_trans(4) [OF q(1) punct_reads] moves_ended(2) q by blast
      then show "steady (next_state q) (properties E n (next_state q)) \<and>
          (\<forall>xs s. properties E n (next_state q) = Done (xs, s) \<longrightarrow> isPunct ''}'' s)"
        using Suc.prems(2) good_later [OF Suc.prems(3) reading_follows [OF r]]
        by (intro Suc.IH) (auto simp: reads_def)
    qed
  qed
qed (simp add: tokens_left_def)

text \<open>A list between brackets: the opening one was read, the closing one is read after it.\<close>

lemma bracketed:
  assumes "reads p p1" and "steady p1 m \<and> (\<forall>xs q. m = Done (xs, q) \<longrightarrow> isPunct close q)"
  shows "progress p (obind m (\<lambda>(xs, q). Done (f xs q, next_state q)))"
proof (cases m)
  case (Done xq)
  obtain xs q where xq: "xq = (xs, q)" by (cases xq)
  have "follows p1 q" using assms(2) Done xq by (simp add: steady_def)
  then have "reads p (next_state q)"
    using moves_trans(2) [OF assms(1)] moves_trans(1) next_follows moves_ended(1) by blast
  with Done xq show ?thesis by (simp add: progress_def)
qed (use assms in \<open>auto simp: progress_def steady_def\<close>)

lemma elements_in:
  "reads p p1 \<Longrightarrow> good p E \<Longrightarrow>
   steady p1 (elements close E (tokens_left p1) p1) \<and>
   (\<forall>xs q. elements close E (tokens_left p1) p1 = Done (xs, q) \<longrightarrow> isPunct close q)"
  using elements_steady [of p1 "tokens_left p1" E close] goodD good_later reading_follows moves_ended(2) by blast

lemma arguments_progress:
  assumes "ended p" "good p E"
  shows "progress p (arguments E p)"
proof (cases "isPunct ''('' p")
  case True
  have r: "reads p (next_state p)" using punct_reads [OF assms(1) True] .
  have "progress p (obind (elements '')'' E (tokens_left (next_state p)) (next_state p)) (\<lambda>(xs, q). Done (xs, next_state q)))"
    using bracketed [OF r elements_in [OF r assms(2)], where f = "\<lambda>xs q. xs"] .
  moreover have "arguments E p = obind (elements '')'' E (tokens_left (next_state p)) (next_state p)) (\<lambda>(xs, q). Done (xs, next_state q))"
    using True by (cases "elements '')'' E (tokens_left (next_state p)) (next_state p)") (auto simp: arguments_def expect_def)
  ultimately show ?thesis by simp
qed (simp add: arguments_def expect_def progress_def expected_def)

section \<open>Operators\<close>

lemma template_exprs_ends:
  "(\<And>s i. ExprPart s i \<in> set ps \<Longrightarrow> A s i \<noteq> Crash) \<Longrightarrow> template_exprs A ps \<noteq> Crash"
proof (induction A ps rule: template_exprs.induct)
  case (3 A s i ps)
  then show ?case by (cases "A s i") auto
qed auto

lemma primary_template:
  assumes "ended p" "good_source p A" "t_kind (p_tok p) = TTemplate ps"
  shows "template_exprs A ps \<noteq> Crash"
proof (rule template_exprs_ends)
  fix s i assume "ExprPart s i \<in> set ps"
  then have "part_size (ExprPart s i) \<in> set (map part_size ps)" by (metis image_eqI set_map)
  then have "length s + 1 \<le> sum_list (map part_size ps)" using member_le_sum_list by fastforce
  moreover have "0 < sum_list (map tok_size (p_rest p))"
    using assms(1,3) by (cases "p_rest p") (auto simp: ended_def)
  ultimately have "length s + 3 \<le> size_left p" using assms(3) by (simp add: size_left_def tok_size_def)
  with assms(2) show "A s i \<noteq> Crash" by (simp add: good_source_def)
qed

lemma primary_word_progress:
  assumes e: "ended p" and i: "t_kind (p_tok p) = TIdent" and g: "good p E"
  shows "progress p (primary_word E p)"
proof -
  have r: "reads p (next_state p)" using next_reads [OF e] i by simp
  have r2: "reads p (next_state (next_state p))" if "t_kind (p_tok (next_state p)) = TIdent"
    using moves_trans(4) [OF r next_reads] moves_ended(2) [OF r] that by simp
  have a: "progress p (arguments E (next_state (next_state p)))" if "t_kind (p_tok (next_state p)) = TIdent"
    using progress_after(2) [OF arguments_progress] moves_ended(2) r2 that good_later [OF g] reading_follows by blast
  show ?thesis
    unfolding primary_word_def Let_def
    using a by (intro progress_if progress_Done r progress_expected(1) progress_bind)
      (auto intro: r2 simp: progress_def split: if_splits)
qed

lemma primary_punct_progress:
  assumes e: "ended p" and i: "t_kind (p_tok p) = TPunct" and g: "good p E"
  shows "progress p (primary_punct E p)"
proof -
  have r: "reads p (next_state p)" using next_reads [OF e] i by simp
  note els = bracketed [OF r elements_in [OF r g]]
  note props = bracketed [OF r properties_steady [OF moves_ended(2) [OF r] order_refl good_later [OF g reading_follows [OF r]]]]
  show ?thesis
    unfolding primary_punct_def Let_def
    apply (intro progress_if els props progress_expected(1) progress_bind good_here [OF g r])
    subgoal by (auto intro: expect_after progress_Done)
    done
qed

lemma primary_progress:
  assumes e: "ended p" and g: "good p E" and a: "good_source p A"
  shows "progress p (primary E A p)"
proof (cases "t_kind (p_tok p)")
  case (TTemplate ps)
  then have "reads p (next_state p)" using next_reads [OF e] by simp
  then show ?thesis using primary_template [OF e a TTemplate] TTemplate by (auto simp: primary_def Let_def progress_def)
qed (use next_reads [OF e] primary_word_progress [OF e _ g] primary_punct_progress [OF e _ g] in
  \<open>auto simp: primary_def Let_def progress_expected intro: progress_Done\<close>)

lemma member_name_progress: "ended p \<Longrightarrow> progress p (member_name opt node p)"
  using next_reads [of p] by (auto simp: member_name_def progress_expected intro: progress_Done)

lemma index_key_progress: "reads p q \<Longrightarrow> good p E \<Longrightarrow> progress p (index_key E opt node q)"
  unfolding index_key_def by (rule progress_bind [OF good_here]) (auto intro!: expect_after progress_Done)

lemma call_arguments_progress: "ended p \<Longrightarrow> good p E \<Longrightarrow> progress p (call_arguments E opt node p)"
  unfolding call_arguments_def by (auto intro!: progress_bind arguments_progress progress_Done)

lemma postfix_step_progress:
  assumes e: "ended p" and g: "good p E" and m: "postfix_step E node p = Some m"
  shows "progress p m"
proof -
  have r: "reads p (next_state p)" if "isPunct w p" for w using punct_reads [OF e that] .
  have l: "progress p x" if "isPunct w p" "progress (next_state p) x" for w and x :: "Node parsed"
    using progress_after(2) [OF that(2) reading_follows [OF r [OF that(1)]]] .
  have n: "ended (next_state p)" "good (next_state p) E" if "isPunct w p" for w
    using moves_ended(2) [OF r [OF that]] good_later [OF g reading_follows [OF r [OF that]]] by simp_all
  show ?thesis
    using m unfolding postfix_step_def Let_def
    by (auto split: if_splits
        intro: index_key_progress [OF r g] call_arguments_progress [OF e g] l [OF _ member_name_progress [OF n(1)]]
          l [OF _ call_arguments_progress [OF n]] l [OF _ index_key_progress [OF punct_reads [OF n(1)] n(2)]])
qed

lemma postfix_from_steady:
  "ended p \<Longrightarrow> tokens_left p \<le> n \<Longrightarrow> good p E \<Longrightarrow> steady p (postfix_from E n node p)"
proof (induction n arbitrary: node p)
  case (Suc n)
  show ?case
  proof (cases "postfix_step E node p")
    case None
    then show ?thesis using follows_self [OF Suc.prems(1)] by (simp add: steady_def)
  next
    case (Some m)
    have m: "progress p m" using postfix_step_progress [OF Suc.prems(1,3) Some] .
    show ?thesis
    proof (cases m)
      case (Done xq)
      obtain x q where xq: "xq = (x, q)" by (cases xq)
      have r: "reads p q" using m Done xq by (simp add: progress_def)
      have "steady q (postfix_from E n x q)"
        using r Suc.prems(2) good_later [OF Suc.prems(3) reading_follows [OF r]] by (intro Suc.IH) (auto simp: reads_def)
      then show ?thesis using progress_steady [OF progress_after(1) [OF _ r]] Some Done xq by simp
    qed (use m Some in \<open>auto simp: progress_def steady_def\<close>)
  qed
qed (simp add: tokens_left_def)

text \<open>First something that reads, then any number of steps.\<close>

lemma progress_then:
  "progress p m \<Longrightarrow> (\<And>x q. reads p q \<Longrightarrow> steady q (f (x, q))) \<Longrightarrow> progress p (obind m f)"
  by (rule progress_bind) (auto intro: progress_after)

lemma postfix_progress:
  "ended p \<Longrightarrow> good p E \<Longrightarrow> good_source p A \<Longrightarrow> progress p (postfix E A p)"
  unfolding postfix_def
  by (rule progress_then [OF primary_progress])
    (auto intro: postfix_from_steady moves_ended good_later reading_follows)

lemma unary_progress:
  "ended p \<Longrightarrow> tokens_left p \<le> n \<Longrightarrow> good p E \<Longrightarrow> good_source p A \<Longrightarrow> progress p (unary E A n p)"
proof (induction n arbitrary: p)
  case (Suc n)
  show ?case
  proof (cases "unary_operator p")
    case True
    then have "t_kind (p_tok p) \<noteq> TEof" by (auto simp: unary_operator_def isPunct_def isWord_def is_punct_def)
    then have r: "reads p (next_state p)" using next_reads [OF Suc.prems(1)] by simp
    note f = reading_follows [OF r]
    have "progress (next_state p) (unary E A n (next_state p))"
      using r Suc.prems(2) good_later [OF Suc.prems(3) f] good_source_later [OF Suc.prems(4) f]
      by (intro Suc.IH) (auto simp: reads_def)
    then have "progress p (unary E A n (next_state p))" using progress_after(2) [OF _ f] by blast
    with True show ?thesis by (auto intro!: progress_omap)
  qed (use postfix_progress Suc.prems in simp)
qed (simp add: tokens_left_def)

lemma binary_from_steady:
  "ended p \<Longrightarrow> tokens_left p \<le> n \<Longrightarrow> good p operand \<Longrightarrow> steady p (binary_from ops operand n l p)"
proof (induction n arbitrary: l p)
  case (Suc n)
  show ?case
  proof (cases "find (\<lambda>w. isPunct w p) ops")
    case None
    then show ?thesis using follows_self [OF Suc.prems(1)] by (simp add: steady_def)
  next
    case (Some w)
    then have "isPunct w p" by (auto simp: find_Some_iff)
    then have r: "reads p (next_state p)" using punct_reads [OF Suc.prems(1)] by blast
    have "progress p (obind (operand (next_state p)) (\<lambda>(r, q).
        binary_from ops operand n (Binary (span_to (sp_start (Span l)) r) w l r) q))"
    proof (rule progress_then [OF good_here [OF Suc.prems(3) r]], clarify)
      fix y q assume q: "reads p q"
      show "steady q (binary_from ops operand n (Binary (span_to (sp_start (Span l)) y) w l y) q)"
        using q Suc.prems(2) good_later [OF Suc.prems(3) reading_follows [OF q]] by (intro Suc.IH) (auto simp: reads_def)
    qed
    with Some show ?thesis by (simp add: progress_steady)
  qed
qed (simp add: tokens_left_def)

lemma binaryLevel_progress:
  "ended p \<Longrightarrow> good p E \<Longrightarrow> good_source p A \<Longrightarrow> progress p (binaryLevel E A ls p)"
proof (induction ls arbitrary: p)
  case (Cons ops lower)
  have g: "good p (binaryLevel E A lower)"
    unfolding good_def using Cons.IH good_later [OF Cons.prems(2)] good_source_later [OF Cons.prems(3)]
    by (blast intro: moves_ended reading_follows)
  show ?case
    unfolding binaryLevel.simps
    by (rule progress_then [OF Cons.IH [OF Cons.prems]])
      (auto intro: binary_from_steady moves_ended good_later [OF g] reading_follows)
qed (simp add: unary_progress)

lemma conditional_progress:
  assumes e: "ended p" and g: "good p E" and a: "good_source p A"
  shows "progress p (conditional E A p)"
proof -
  have n: "reads p (next_state q)" if "reads p q" "isPunct w q" for q w
    using moves_trans(4) [OF that(1) punct_reads] moves_ended(2) that by blast
  show ?thesis
    unfolding conditional_def
    by (rule progress_bind [OF binaryLevel_progress [OF e g a]])
      (auto intro!: progress_Done progress_bind expect_after good_here [OF g] dest: n)
qed

text \<open>The names of an arrow function are in brackets, and the arrow is after them.\<close>

lemma arrow_progress:
  assumes e: "ended p" and g: "good p E" and m: "arrow E p = Some m"
  shows "progress p m"
proof -
  have two: "reads p (next_state (next_state q))" if "reads p q" for q
    using moves_trans(2) [OF that moves_trans(1) [OF next_follows next_follows]] moves_ended next_follows that by blast
  have body: "progress p (arrow_body E i ns q)" if "reads p q" for i ns q
    unfolding arrow_body_def by (rule progress_omap [OF good_here [OF g that]]) auto
  have skip: "reads p (next_state q)" if "reads p q" for q
    using moves_trans(2) [OF that next_follows] moves_ended(2) [OF that] by blast
  show ?thesis
  proof (cases "t_kind (p_tok p) = TIdent \<and> is_punct ''=>'' (peekAt 1 p)")
    case True
    then have "reads p (next_state p)" using next_reads [OF e] by simp
    with m True body [OF skip] show ?thesis by (auto simp: arrow_def Let_def)
  next
    case False
    with m have b: "isPunct ''('' p" and m: "m = obind (parameters (tokens_left p) (next_state p)) (\<lambda>(ns, p1).
        arrow_body E (t_pos (p_tok p)) ns (next_state (next_state p1)))"
      by (auto simp: arrow_def Let_def parameters_ahead_def split: if_splits)
    have r: "reads p (next_state p)" using punct_reads [OF e b] .
    then have "steady (next_state p) (parameters (tokens_left p) (next_state p))"
      using parameters_steady moves_ended(2) by (auto simp: reads_def)
    then have "progress p (parameters (tokens_left p) (next_state p))" using progress_after(1) r by blast
    then show ?thesis unfolding m by (rule progress_bind) (auto intro: body two)
  qed
qed

lemma expression_step_progress:
  "ended p \<Longrightarrow> good p E \<Longrightarrow> good_source p A \<Longrightarrow> progress p (expression_step E A p)"
  unfolding expression_step_def by (auto split: option.split intro: arrow_progress conditional_progress)

section \<open>Tokens\<close>

lemma skip_blank_ends: "skip_blank l \<noteq> Crash"
proof (induction l rule: skip_blank.induct)
  case (1 l)
  show ?case by (subst skip_blank.simps) (use 1 in \<open>auto split: option.split\<close>)
qed

lemma escape_ends: "escape l \<noteq> Crash"
  by (auto simp: escape_def Let_def split: option.splits)

lemma scan_string_ends: "scan_string i q l \<noteq> Crash"
proof (induction i q l rule: scan_string.induct)
  case (1 i q l)
  show ?case by (subst scan_string.simps) (use 1 escape_ends [of "advance l"] in \<open>auto simp: Let_def split: outcome.split\<close>)
qed

lemma if_cases: "(b \<Longrightarrow> x \<noteq> z) \<Longrightarrow> (\<not> b \<Longrightarrow> y \<noteq> z) \<Longrightarrow> (if b then x else y) \<noteq> z"
  by simp

lemma scan_template_ends: "scan_template i s l \<noteq> Crash"
proof (induction i s l rule: scan_template.induct)
  case (1 i s l)
  show ?case
    by (subst scan_template.simps, rule if_cases, simp, rule if_cases)
      (use 1 escape_ends [of "advance l"] in \<open>auto simp: Let_def split: outcome.split option.split\<close>)
qed

lemma lex_token_ends: "lex_token U l \<noteq> Crash"
  using scan_string_ends scan_template_ends
  by (auto simp: lex_token_def Let_def split: option.split)

lemma lex_from_tokens:
  "lex_from U l \<noteq> Crash \<and> (\<forall>ts. lex_from U l = Done ts \<longrightarrow>
     ts \<noteq> [] \<and> t_kind (last ts) = TEof \<and> sum_list (map tok_size ts) \<le> length (l_src l) + 1)"
proof (induction U l rule: lex_from.induct)
  case (1 U l)
  show ?case
  proof (cases "skip_blank l")
    case (Done l1)
    note le = skip_blank_le [OF Done]
    show ?thesis
    proof (cases "l_src l1 = []")
      case True
      with Done show ?thesis by (subst (1 2) lex_from.simps) (simp add: tok_size_def)
    next
      case ne: False
      show ?thesis
      proof (cases "lex_token U l1")
        case t: (Done tl)
        obtain t l2 where tl: "tl = (t, l2)" by (cases tl)
        have "tok_size t + length (l_src l2) \<le> length (l_src l1)" using lex_token_size [OF ne t [unfolded tl]] by blast
        moreover note 1 [OF Done ne t tl [symmetric]]
        ultimately show ?thesis using le Done ne t tl by (subst (1 2) lex_from.simps) fastforce
      qed (use Done ne lex_token_ends in \<open>subst (1 2) lex_from.simps; simp\<close>)+
    qed
  qed (use skip_blank_ends in \<open>subst (1 2) lex_from.simps; simp\<close>)+
qed

section \<open>The parser\<close>

lemma parse_all_ends:
  assumes "ts \<noteq> []" "t_kind (last ts) = TEof" "sum_list (map tok_size ts) \<le> n"
    and E: "\<And>p. ended p \<Longrightarrow> size_left p \<le> n \<Longrightarrow> progress p (E p)"
  shows "parse_all E ts \<noteq> Crash"
proof -
  obtain t r where ts: "ts = t # r" using assms(1) by (cases ts) auto
  have "progress \<lparr>p_prev = None, p_tok = t, p_rest = r\<rparr> (E \<lparr>p_prev = None, p_tok = t, p_rest = r\<rparr>)"
    using assms(2,3) ts by (intro E) (auto simp: ended_def size_left_def)
  then show ?thesis
    by (cases "E \<lparr>p_prev = None, p_tok = t, p_rest = r\<rparr>")
      (auto simp: ts parse_all_def progress_def expected_def Let_def split: if_splits)
qed

lemma parser_fuel:
  "(\<forall>p. ended p \<longrightarrow> size_left p \<le> n \<longrightarrow> progress p (expression U n p)) \<and>
   (\<forall>src i. length src + 2 \<le> n \<longrightarrow> parseAt U n src i \<noteq> Crash)"
proof (induction n)
  case 0
  show ?case by (auto simp: size_left_def simp del: tok_size_pos) (metis less_nat_zero_code tok_size_pos)
next
  case (Suc n)
  have "progress p (expression U (Suc n) p)" if p: "ended p" "size_left p \<le> Suc n" for p
    using Suc p by (auto simp: good_def good_source_def reads_def intro!: expression_step_progress)
  moreover have "parseAt U (Suc n) src i \<noteq> Crash" if "length src + 2 \<le> Suc n" for src i
  proof (cases "lex U src i")
    case (Done ts)
    then have "parse_all (expression U n) ts \<noteq> Crash"
      using lex_from_tokens [of U "lexer_at src i"] that Suc
      by (intro parse_all_ends [where n = n]) (auto simp: lex_def lexer_at_def)
    with Done show ?thesis by simp
  qed (use lex_from_tokens in \<open>auto simp: lex_def\<close>)
  ultimately show ?case by blast
qed

lemma Parse_safe: "Parse U src \<noteq> Crash"
  using parser_fuel [of "length src + 2" U] by (auto simp: Parse_def)

text \<open>Property C37: parsing a Jira expression always ends, with the expression or with a syntax error, whatever
  the text: the parser never runs past its tokens, never loops, and its recursion, into the expressions
  inside templates too, is bounded by the length of the text.\<close>

theorem Parse_ends: "(\<exists>x. Parse U src = Done x) \<or> (\<exists>e. Parse U src = Fail e)"
  using Parse_safe [of U src] by (cases "Parse U src") auto

end
