(* ===== verification/Spec2Isabelle.thy ===== *)
theory Spec2Isabelle
  imports RankOrder Outbox WorkflowProofs WebAuthn QrProofs QrMask CronNext CqlRound CqlSearch JqlEdit JexprTotal
begin

text \<open>
  Verification development of ZZIRA, a work tracker in Go with a server (PostgreSQL) and a browser
  replica (SQLite in a web worker).

  Parts modelled, and how they interact. A work item's life is ruled by a workflow
  (\<open>internal/workflow\<close>); its place on a board is a rank string (\<open>internal/lexorank\<close>, asked for by
  \<open>RankAround\<close>, \<open>RankBetween\<close> and \<open>PlanningRankBetween\<close> of \<open>internal/store\<close>). Every change is an action
  in the workspace's log; \<open>/sync\<close> (\<open>internal/syncapi\<close>) hands out pages of it, and the browser client
  (\<open>cmd/client\<close>) replays them into its tables, keeping the writes made offline in an outbox. People
  sign in with passkeys (\<open>internal/webauthn\<close> with its store and handler); a setup link is shown as a
  QR symbol (\<open>internal/qr\<close>); rich text is ADF (\<open>internal/adf\<close>).

  Theories. \<open>GoPrelude\<close>: results with errors and panics, Go's string functions, 64-bit wrapping.
  \<open>GoJson\<close>: decoded JSON and the Go library the code calls, as a record of functions. \<open>LexoRank\<close>,
  \<open>RankOrder\<close>: ranks. \<open>ReplicaStore\<close>: the replica's tables and the apply handlers; \<open>ReplicaSync\<close>: delta
  sync, outbox and the server's page; \<open>ReplicaProofs\<close>: convergence; \<open>Outbox\<close>: the outbox as a step
  relation, bootstrap and the maintenance pass. \<open>Adf\<close>: document nodes. \<open>Workflow\<close>: statuses and
  transitions; \<open>WorkflowEval\<close>: conditions and validators; \<open>WorkflowRules\<close>: post-functions and the
  check of a rule configuration; \<open>WorkflowProofs\<close>: what that check guarantees. \<open>Cbor\<close>, \<open>WebAuthn\<close>:
  passkeys. \<open>QrField\<close>, \<open>QrSymbol\<close>, \<open>QrProofs\<close>, \<open>QrMask\<close>: the QR encoder.
  \<open>GoTime\<close>: the calendar, clocks and zones of Go's \<open>time\<close>; \<open>CronParse\<close>, \<open>CronNext\<close>: the
  schedules of the automation rules (\<open>internal/cron\<close>).

  What the lemmas show. Ranks: \<open>Mid\<close> answers strictly between its bounds and never panics. Replica:
  each sync either changes nothing, purges, or replays an increasing batch; rounds of sync converge
  to the reader's log; no offline command is lost. Workflow: items stay in the workflow, what is
  offered is what is allowed, and a configuration that is accepted can be executed. Passkeys: the
  CBOR reader accepts exactly the encodings, an accepted answer is exactly a signed answer to this
  site's challenge, and it is accepted once. QR: the error correction is a Reed-Solomon code,
  the data codewords read back as the text, the chosen mask is the best one. Schedules: \<open>Parse\<close> is
  total, and \<open>Next\<close> is the first firing.

  Bounds and fuel. \<open>decodeCBOR\<close> recurses with one more than the length of the message as its depth;
  every level reads at least one byte, and \<open>decodeCBOR_reads_encodings\<close> shows that the depth never
  runs out. \<open>sync_round\<close> needs as many rounds as the head is high. Other loops terminate by measures.
  Integers are \<open>int\<close> or \<open>nat\<close> where the code cannot overflow or where the bound is a hypothesis;
  \<open>wrap64\<close> writes Go's wrap-around out, bytes are \<open>8 word\<close>.

  Interfaces. \<open>text_order\<close> and \<open>rank_source\<close> (what the ranking queries need of \<open>Mid\<close>),
  \<open>sync_source\<close> (what the client needs of the server's pages), \<open>action_scan\<close> (a scan over
  post-functions), \<open>gf_mult\<close> (the field the error correction computes in) are locales, interpreted on
  the code's model.

  Parameters. Who may see an action, SQL collation, JSON decoding, regular expressions, dates, SHA-256
  and signature checks are functions the definitions take, since they are SQL, the standard library
  or cryptography.

  Not modelled: SQL text and row scanning, HTML and templates, HTTP plumbing, the query languages,
  automation, Confluence pages, administration, and the demo data.
\<close>

end
